(* ===== verification/Melon_Prelude.thy ===== *)
theory Melon_Prelude
  imports Main "HOL-Library.Word"
begin

text \<open>
  Shared vocabulary of the development: pointers, the fault values that stand for
  every way a run of the C code can abort or fail to return, the result type and its
  sequencing combinator, loads and stores on a typed heap, and the cyclic successor and
  predecessor of an element in a list, which describe the circular lists of
  \<^verbatim>\<open>src/list.h\<close> and \<^verbatim>\<open>src/dlist.h\<close>.
\<close>

section \<open>Pointers, faults, results\<close>

text \<open>
  A pointer is a natural number and 0 is NULL. An object that was never allocated or
  was freed has no entry in its heap.
\<close>

type_synonym ptr = nat

definition NULL :: ptr where
  "NULL = 0"

lemma numeral_not_NULL [simp]: "numeral n \<noteq> NULL" "NULL \<noteq> numeral n" "Suc 0 \<noteq> NULL" "NULL \<noteq> Suc 0"
  by (simp_all add: NULL_def)

text \<open>
  What stops a run: a failed \<^verbatim>\<open>assert\<close>, a NULL or dangling pointer that
  is dereferenced, a signed overflow, or a loop that never ends (a spinlock that the
  thread itself holds is such a loop).
\<close>

datatype fault = Assert_failed | Null_deref | Bad_deref | Signed_overflow | Diverges

type_synonym 'a res = "fault + 'a"

definition res_bind :: "'a res \<Rightarrow> ('a \<Rightarrow> 'b res) \<Rightarrow> 'b res" where
  "res_bind r k = (case r of Inl e \<Rightarrow> Inl e | Inr x \<Rightarrow> k x)"

definition assert_that :: "bool \<Rightarrow> 'a res \<Rightarrow> 'a res" where
  "assert_that b r = (if b then r else Inl Assert_failed)"

text \<open>A loop that may run forever is an option; running forever is a fault.\<close>

definition run_loop :: "'a res option \<Rightarrow> 'a res" where
  "run_loop r = (case r of None \<Rightarrow> Inl Diverges | Some x \<Rightarrow> x)"

named_theorems res_simps \<open>evaluation of results\<close>

lemma res_bind_Inr [simp, res_simps]: "res_bind (Inr x) k = k x"
  by (simp add: res_bind_def)

lemma res_bind_Inl [simp, res_simps]: "res_bind (Inl e) k = Inl e"
  by (simp add: res_bind_def)

lemma res_bind_eq_Inr: "res_bind r k = Inr y \<longleftrightarrow> (\<exists>x. r = Inr x \<and> k x = Inr y)"
  by (cases r) auto

lemma res_bind_assoc: "res_bind (res_bind r k) k' = res_bind r (\<lambda>x. res_bind (k x) k')"
  by (cases r) auto

lemma res_bind_cong [fundef_cong]:
  "r = r' \<Longrightarrow> (\<And>x. r' = Inr x \<Longrightarrow> k x = k' x) \<Longrightarrow> res_bind r k = res_bind r' k'"
  by (cases r') auto

lemma assert_that_True [simp, res_simps]: "b \<Longrightarrow> assert_that b r = r"
  by (simp add: assert_that_def)

lemma assert_that_False [simp, res_simps]: "\<not> b \<Longrightarrow> assert_that b r = Inl Assert_failed"
  by (simp add: assert_that_def)

lemma run_loop_Some [simp, res_simps]: "run_loop (Some x) = x"
  by (simp add: run_loop_def)

section \<open>Typed heaps\<close>

definition load :: "(ptr \<rightharpoonup> 'o) \<Rightarrow> ptr \<Rightarrow> 'o res" where
  "load h p = (case h p of Some x \<Rightarrow> Inr x | None \<Rightarrow> Inl (if p = NULL then Null_deref else Bad_deref))"

text \<open>Write a part of the object at \<open>p\<close>, as an assignment to one of its members does.\<close>

definition store :: "(ptr \<rightharpoonup> 'o) \<Rightarrow> ptr \<Rightarrow> ('o \<Rightarrow> 'o) \<Rightarrow> (ptr \<rightharpoonup> 'o) res" where
  "store h p f = res_bind (load h p) (\<lambda>x. Inr (h(p \<mapsto> f x)))"

lemma load_Some [simp, res_simps]: "h p = Some x \<Longrightarrow> load h p = Inr x"
  by (simp add: load_def)

lemma load_None_NULL [simp, res_simps]: "h NULL = None \<Longrightarrow> load h NULL = Inl Null_deref"
  by (simp add: load_def)

lemma store_Some [simp, res_simps]: "h p = Some x \<Longrightarrow> store h p f = Inr (h(p \<mapsto> f x))"
  by (simp add: store_def)

lemma store_None_NULL [simp, res_simps]: "h NULL = None \<Longrightarrow> store h NULL f = Inl Null_deref"
  by (simp add: store_def)

section \<open>Signed 32-bit counters\<close>

definition INT_MAX :: int where
  "INT_MAX = 2147483647"

definition INT_MIN :: int where
  "INT_MIN = - 2147483648"

definition int_inc :: "int \<Rightarrow> int res" where
  "int_inc n = (if n < INT_MAX then Inr (n + 1) else Inl Signed_overflow)"

definition int_dec :: "int \<Rightarrow> int res" where
  "int_dec n = (if INT_MIN < n then Inr (n - 1) else Inl Signed_overflow)"

definition int_sub :: "int \<Rightarrow> int \<Rightarrow> int res" where
  "int_sub a b = (if INT_MIN \<le> a - b \<and> a - b \<le> INT_MAX then Inr (a - b) else Inl Signed_overflow)"

lemma int_inc_Inr [simp]: "n < INT_MAX \<Longrightarrow> int_inc n = Inr (n + 1)"
  by (simp add: int_inc_def)

lemma int_dec_Inr [simp]: "INT_MIN < n \<Longrightarrow> int_dec n = Inr (n - 1)"
  by (simp add: int_dec_def)

lemma INT_MIN_less_nonneg [simp]: "0 \<le> n \<Longrightarrow> INT_MIN < n"
  by (simp add: INT_MIN_def)

section \<open>Neighbours on a cycle\<close>

text \<open>
  The element after \<open>x\<close> and the element before \<open>x\<close> when the list is read as a
  cycle.
\<close>

fun succ_in :: "'a \<Rightarrow> 'a list \<Rightarrow> 'a \<Rightarrow> 'a" where
  "succ_in d [] x = d"
| "succ_in d [y] x = d"
| "succ_in d (y # z # ys) x = (if x = y then z else succ_in d (z # ys) x)"

definition cyc_succ :: "'a list \<Rightarrow> 'a \<Rightarrow> 'a" where
  "cyc_succ xs x = succ_in (hd xs) xs x"

definition cyc_pred :: "'a list \<Rightarrow> 'a \<Rightarrow> 'a" where
  "cyc_pred xs x = cyc_succ (rev xs) x"

lemma succ_in_split:
  "x \<notin> set as \<Longrightarrow> succ_in d (as @ x # bs) x = (if bs = [] then d else hd bs)"
proof (induction as)
  case Nil
  then show ?case by (cases bs) auto
next
  case (Cons a as)
  then show ?case by (cases as) auto
qed

lemma cyc_succ_split:
  assumes "distinct (as @ x # bs)"
  shows "cyc_succ (as @ x # bs) x = hd (bs @ as @ [x])"
proof -
  from assms have "x \<notin> set as" by simp
  then have "cyc_succ (as @ x # bs) x = (if bs = [] then hd (as @ x # bs) else hd bs)"
    by (simp add: cyc_succ_def succ_in_split)
  then show ?thesis by (simp add: hd_append)
qed

lemma cyc_pred_split:
  assumes "distinct (as @ x # bs)"
  shows "cyc_pred (as @ x # bs) x = last (x # bs @ as)"
proof -
  from assms have "distinct (rev bs @ x # rev as)" by auto
  then have "cyc_succ (rev bs @ x # rev as) x = hd (rev as @ rev bs @ [x])"
    by (rule cyc_succ_split)
  also have "\<dots> = last (x # bs @ as)"
    by (simp add: hd_append last_append hd_rev split: if_splits)
  finally show ?thesis by (simp add: cyc_pred_def)
qed

lemma cyc_succ_rotate:
  assumes "distinct (as @ bs)" and "x \<in> set (as @ bs)"
  shows "cyc_succ (as @ bs) x = cyc_succ (bs @ as) x"
proof -
  from assms(2) consider (l) cs ds where "as = cs @ x # ds" | (r) cs ds where "bs = cs @ x # ds"
    by (auto dest!: split_list)
  then show ?thesis
  proof cases
    case l
    with assms(1) have "distinct (cs @ x # ds @ bs)" and "distinct ((bs @ cs) @ x # ds)" by auto
    from this [THEN cyc_succ_split] l show ?thesis by simp
  next
    case r
    with assms(1) have "distinct ((as @ cs) @ x # ds)" and "distinct (cs @ x # ds @ as)" by auto
    from this [THEN cyc_succ_split] r show ?thesis by simp
  qed
qed

lemma cyc_pred_rotate:
  assumes "distinct (as @ bs)" and "x \<in> set (as @ bs)"
  shows "cyc_pred (as @ bs) x = cyc_pred (bs @ as) x"
  using cyc_succ_rotate [of "rev bs" "rev as" x] assms by (simp add: cyc_pred_def Int_commute Un_commute)

lemma cyc_succ_single [simp]: "cyc_succ [x] x = x"
  by (simp add: cyc_succ_def)

lemma cyc_pred_single [simp]: "cyc_pred [x] x = x"
  by (simp add: cyc_pred_def)

lemma cyc_succ_in: "x \<in> set xs \<Longrightarrow> distinct xs \<Longrightarrow> cyc_succ xs x \<in> set xs"
proof -
  assume "x \<in> set xs" and d: "distinct xs"
  then obtain as bs where xs: "xs = as @ x # bs" by (auto dest: split_list)
  have "hd (bs @ as @ [x]) \<in> set (bs @ as @ [x])" by (rule hd_in_set) simp
  with d show ?thesis by (auto simp: xs cyc_succ_split)
qed

lemma cyc_pred_in: "x \<in> set xs \<Longrightarrow> distinct xs \<Longrightarrow> cyc_pred xs x \<in> set xs"
  using cyc_succ_in [of x "rev xs"] by (simp add: cyc_pred_def)

text \<open>Adding an element at the end of the list.\<close>

lemma cyc_succ_snoc:
  assumes "distinct (xs @ [y])" and "xs \<noteq> []" and "x \<in> set (xs @ [y])"
  shows "cyc_succ (xs @ [y]) x = (if x = y then hd xs else if x = last xs then y else cyc_succ xs x)"
proof -
  from assms(3) obtain as bs where s: "xs @ [y] = as @ x # bs" by (metis split_list)
  with assms(1) have d: "distinct (as @ x # bs)" by metis
  have eq: "cyc_succ (xs @ [y]) x = hd (bs @ as @ [x])"
    using cyc_succ_split [OF d] s by simp
  show ?thesis
  proof (cases bs rule: rev_cases)
    case Nil
    with s have "xs = as" and "x = y" by auto
    with eq Nil assms(2) show ?thesis by simp
  next
    case (snoc cs z)
    with s have z: "z = y" and xs: "xs = as @ x # cs" by auto
    with assms(1) have ne: "x \<noteq> y" and d': "distinct (as @ x # cs)" by auto
    have "cyc_succ xs x = hd (cs @ as @ [x])"
      using cyc_succ_split [OF d'] xs by simp
    moreover have "x = last xs \<longleftrightarrow> cs = []"
      using xs d' by auto
    ultimately show ?thesis using eq snoc z ne by (cases cs) auto
  qed
qed

lemma cyc_pred_snoc:
  assumes "distinct (xs @ [y])" and "xs \<noteq> []" and "x \<in> set (xs @ [y])"
  shows "cyc_pred (xs @ [y]) x = (if x = y then last xs else if x = hd xs then y else cyc_pred xs x)"
proof -
  have "cyc_pred (xs @ [y]) x = cyc_succ ([y] @ rev xs) x" by (simp add: cyc_pred_def)
  also have "\<dots> = cyc_succ (rev xs @ [y]) x"
    using assms by (intro cyc_succ_rotate) auto
  also have "\<dots> = (if x = y then hd (rev xs) else if x = last (rev xs) then y else cyc_succ (rev xs) x)"
    using assms by (intro cyc_succ_snoc) auto
  finally show ?thesis using assms(2) by (simp add: cyc_pred_def hd_rev last_rev)
qed

text \<open>Adding an element after \<open>p\<close>, and taking an element out.\<close>

lemma cyc_succ_insert_after:
  assumes "distinct (as @ p # y # bs)" and "x \<in> set (as @ p # y # bs)"
  shows "cyc_succ (as @ p # y # bs) x =
    (if x = y then cyc_succ (as @ p # bs) p else if x = p then y else cyc_succ (as @ p # bs) x)"
proof -
  have "cyc_succ (as @ p # y # bs) x = cyc_succ ((bs @ as @ [p]) @ [y]) x"
    using assms cyc_succ_rotate [of "as @ [p, y]" bs x] by auto
  also have "\<dots> = (if x = y then hd (bs @ as @ [p]) else if x = last (bs @ as @ [p]) then y
      else cyc_succ (bs @ as @ [p]) x)"
    using assms by (intro cyc_succ_snoc) auto
  also have "hd (bs @ as @ [p]) = cyc_succ (as @ p # bs) p"
    using assms by (subst cyc_succ_split) auto
  also have "x \<noteq> y \<Longrightarrow> cyc_succ (bs @ as @ [p]) x = cyc_succ (as @ p # bs) x"
    using assms cyc_succ_rotate [of "as @ [p]" bs x] by auto
  ultimately show ?thesis by auto
qed

lemma cyc_pred_insert_after:
  assumes "distinct (as @ p # y # bs)" and "x \<in> set (as @ p # y # bs)"
  shows "cyc_pred (as @ p # y # bs) x =
    (if x = y then p else if x = cyc_succ (as @ p # bs) p then y else cyc_pred (as @ p # bs) x)"
proof -
  have "cyc_pred (as @ p # y # bs) x = cyc_pred ((bs @ as @ [p]) @ [y]) x"
    using assms cyc_pred_rotate [of "as @ [p, y]" bs x] by auto
  also have "\<dots> = (if x = y then last (bs @ as @ [p]) else if x = hd (bs @ as @ [p]) then y
      else cyc_pred (bs @ as @ [p]) x)"
    using assms by (intro cyc_pred_snoc) auto
  also have "hd (bs @ as @ [p]) = cyc_succ (as @ p # bs) p"
    using assms by (subst cyc_succ_split) auto
  also have "x \<noteq> y \<Longrightarrow> cyc_pred (bs @ as @ [p]) x = cyc_pred (as @ p # bs) x"
    using assms cyc_pred_rotate [of "as @ [p]" bs x] by auto
  ultimately show ?thesis by auto
qed

lemma cyc_succ_last: "distinct xs \<Longrightarrow> xs \<noteq> [] \<Longrightarrow> cyc_succ xs (last xs) = hd xs"
  using cyc_succ_split [of "butlast xs" "last xs" "[]"]
  by (cases xs) (auto simp: append_butlast_last_id simp del: last.simps butlast.simps)

lemma cyc_pred_hd: "distinct xs \<Longrightarrow> xs \<noteq> [] \<Longrightarrow> cyc_pred xs (hd xs) = last xs"
  using cyc_succ_last [of "rev xs"] by (simp add: cyc_pred_def hd_rev last_rev)

lemma cyc_succ_hd: "distinct (x # y # xs) \<Longrightarrow> cyc_succ (x # y # xs) x = y"
  using cyc_succ_split [of "[]" x "y # xs"] by simp

lemma remove1_split: "distinct xs \<Longrightarrow> y \<in> set xs \<Longrightarrow>
    \<exists>as bs. xs = as @ y # bs \<and> remove1 y xs = as @ bs \<and> y \<notin> set as \<union> set bs"
proof -
  assume d: "distinct xs" and "y \<in> set xs"
  then obtain as bs where "xs = as @ y # bs" by (auto dest: split_list)
  with d show ?thesis by (intro exI [of _ as] exI [of _ bs]) (auto simp: remove1_append)
qed

lemma cyc_succ_remove:
  assumes d: "distinct xs" and y: "y \<in> set xs" and x: "x \<in> set (remove1 y xs)"
  shows "cyc_succ (remove1 y xs) x = (if x = cyc_pred xs y then cyc_succ xs y else cyc_succ xs x)"
proof -
  obtain as bs where s: "xs = as @ y # bs" "remove1 y xs = as @ bs" "y \<notin> set as \<union> set bs"
    using remove1_split [OF d y] by blast
  let ?r = "bs @ as"
  have ne: "?r \<noteq> []" and xr: "x \<in> set ?r" and xy: "x \<noteq> y" using x s by auto
  have dr: "distinct (?r @ [y])" and dr': "distinct ?r" using d s by auto
  have rot: "cyc_succ xs z = cyc_succ (?r @ [y]) z" "cyc_pred xs z = cyc_pred (?r @ [y]) z"
    if "z \<in> set xs" for z
    using that d s cyc_succ_rotate [of "as @ [y]" bs z] cyc_pred_rotate [of "as @ [y]" bs z] by auto
  have "cyc_succ (remove1 y xs) x = cyc_succ ?r x"
    using d s x by (auto intro: cyc_succ_rotate)
  moreover have "cyc_succ xs y = hd ?r" "cyc_pred xs y = last ?r"
    using y rot cyc_succ_snoc [OF dr ne, of y] cyc_pred_snoc [OF dr ne, of y] by simp_all
  moreover have "x \<noteq> last ?r \<Longrightarrow> cyc_succ xs x = cyc_succ ?r x"
    using x s rot [of x] cyc_succ_snoc [OF dr ne, of x] xy by auto
  ultimately show ?thesis using cyc_succ_last [OF dr' ne] by auto
qed

lemma cyc_pred_remove:
  assumes "distinct xs" and "y \<in> set xs" and "x \<in> set (remove1 y xs)"
  shows "cyc_pred (remove1 y xs) x = (if x = cyc_succ xs y then cyc_pred xs y else cyc_pred xs x)"
  using cyc_succ_remove [of "rev xs" y x] assms
  by (simp add: cyc_pred_def distinct_remove1_removeAll rev_filter removeAll_filter_not_eq)

section \<open>Words\<close>

text \<open>A small unsigned value is the same when it is read as signed.\<close>

lemma sint_eq_uint_32:
  assumes "unat (v :: 32 word) < 2 ^ 31"
  shows "sint v = uint v"
proof -
  have "- (2 ^ 31) \<le> uint v" by (rule order_trans [OF _ unsigned_greater_eq]) simp
  moreover have "int (unat v) < int (2 ^ 31)" using assms by (simp only: of_nat_less_iff)
  then have "uint v < 2 ^ 31" by simp
  ultimately show ?thesis by (simp add: sint_uint signed_take_bit_int_eq_self)
qed

end
