(* ===== verification/Melon_List.thy ===== *)
theory Melon_List
  imports Melon_Prelude
begin

text \<open>
  The intrusive singly linked circular list of \<^verbatim>\<open>src/list.h\<close>. The macros take
  the name of the member that links the objects; here they take that member as a pair of
  a selector and an update. The list pointer designates the last element, whose link is
  the first one. The theory states the queue interface that the list promises
  (\<open>fifo_queue\<close>), proves that the macros implement it for every member, and draws the
  first-in first-out behaviour from the interface.
\<close>

section \<open>The macros\<close>

record 'o smember =
  mem_next :: "'o \<Rightarrow> ptr"
  set_next :: "ptr \<Rightarrow> 'o \<Rightarrow> 'o"

definition melon_list_push ::
    "('o, 'z) smember_scheme \<Rightarrow> ptr \<Rightarrow> ptr \<Rightarrow> (ptr \<rightharpoonup> 'o) \<Rightarrow> (ptr \<times> (ptr \<rightharpoonup> 'o)) res" where
  "melon_list_push M list item h =
    (if list = NULL
     then res_bind (store h item (set_next M item)) (\<lambda>h. Inr (item, h))
     else
       res_bind (load h list) (\<lambda>l.
       res_bind (store h item (set_next M (mem_next M l))) (\<lambda>h.
       res_bind (store h list (set_next M item)) (\<lambda>h.
       Inr (item, h)))))"

text \<open>The result is the new list pointer, the item and the heap.\<close>

definition melon_list_pop ::
    "('o, 'z) smember_scheme \<Rightarrow> ptr \<Rightarrow> (ptr \<rightharpoonup> 'o) \<Rightarrow> (ptr \<times> ptr \<times> (ptr \<rightharpoonup> 'o)) res" where
  "melon_list_pop M list h =
    (if list = NULL then Inr (list, NULL, h)
     else
       res_bind (load h list) (\<lambda>l.
       if list = mem_next M l \<or> mem_next M l = NULL
       then res_bind (store h list (set_next M NULL)) (\<lambda>h. Inr (NULL, list, h))
       else
         let item = mem_next M l in
         res_bind (load h item) (\<lambda>i.
         res_bind (store h list (set_next M (mem_next M i))) (\<lambda>h.
         res_bind (store h item (set_next M NULL)) (\<lambda>h.
         Inr (list, item, h))))))"

section \<open>The queue interface\<close>

fun put_all :: "(ptr \<Rightarrow> 'q \<Rightarrow> 'q res) \<Rightarrow> ptr list \<Rightarrow> 'q \<Rightarrow> 'q res" where
  "put_all enq [] q = Inr q"
| "put_all enq (y # ys) q = res_bind (enq y q) (put_all enq ys)"

fun take_n :: "('q \<Rightarrow> (ptr \<times> 'q) res) \<Rightarrow> nat \<Rightarrow> 'q \<Rightarrow> (ptr list \<times> 'q) res" where
  "take_n deq 0 q = Inr ([], q)"
| "take_n deq (Suc n) q =
     res_bind (deq q) (\<lambda>(x, q). res_bind (take_n deq n q) (\<lambda>(xs, q). Inr (x # xs, q)))"

locale fifo_queue =
  fixes rep :: "'q \<Rightarrow> ptr list \<Rightarrow> bool"
    and linkable :: "ptr \<Rightarrow> 'q \<Rightarrow> bool"
    and enq :: "ptr \<Rightarrow> 'q \<Rightarrow> 'q res"
    and deq :: "'q \<Rightarrow> (ptr \<times> 'q) res"
  assumes enq_rep: "rep q xs \<Longrightarrow> linkable y q \<Longrightarrow> y \<notin> set xs \<Longrightarrow>
      \<exists>q'. enq y q = Inr q' \<and> rep q' (xs @ [y]) \<and> (\<forall>z. linkable z q' = linkable z q)"
    and deq_rep: "rep q (x # xs) \<Longrightarrow>
      \<exists>q'. deq q = Inr (x, q') \<and> rep q' xs \<and> (\<forall>z. linkable z q' = linkable z q)"
    and deq_empty: "rep q [] \<Longrightarrow> deq q = Inr (NULL, q)"
begin

lemma put_all_rep:
  assumes "rep q xs" and "distinct ys" and "set xs \<inter> set ys = {}" and "\<forall>y\<in>set ys. linkable y q"
  shows "\<exists>q'. put_all enq ys q = Inr q' \<and> rep q' (xs @ ys)"
  using assms
proof (induction ys arbitrary: q xs)
  case Nil
  then show ?case by simp
next
  case (Cons y ys)
  then obtain q1 where q1: "enq y q = Inr q1" "rep q1 (xs @ [y])" "\<forall>z. linkable z q1 = linkable z q"
    using enq_rep [of q xs y] by auto
  with Cons.prems have "\<exists>q'. put_all enq ys q1 = Inr q' \<and> rep q' ((xs @ [y]) @ ys)"
    by (intro Cons.IH) auto
  with q1 show ?case by simp
qed

lemma take_n_rep: "rep q xs \<Longrightarrow> \<exists>q'. take_n deq (length xs) q = Inr (xs, q') \<and> rep q' []"
proof (induction xs arbitrary: q)
  case Nil
  then show ?case by simp
next
  case (Cons x xs)
  then obtain q1 where "deq q = Inr (x, q1)" "rep q1 xs"
    using deq_rep by blast
  with Cons.IH [of q1] show ?case by auto
qed

text \<open>What was put in comes out in the same order, and then the queue is empty.\<close>

lemma fifo_order:
  assumes "rep q []" and "distinct ys" and "\<forall>y\<in>set ys. linkable y q"
  shows "\<exists>q1 q2. put_all enq ys q = Inr q1 \<and> take_n deq (length ys) q1 = Inr (ys, q2) \<and>
    deq q2 = Inr (NULL, q2)"
proof -
  from put_all_rep [of q "[]" ys] assms obtain q1 where q1: "put_all enq ys q = Inr q1" "rep q1 ys"
    by auto
  from take_n_rep [OF q1(2)] obtain q2 where "take_n deq (length ys) q1 = Inr (ys, q2)" "rep q2 []"
    by auto
  with q1 deq_empty show ?thesis by auto
qed

end

section \<open>The list in the heap\<close>

definition next_map :: "('o, 'z) smember_scheme \<Rightarrow> (ptr \<rightharpoonup> 'o) \<Rightarrow> ptr \<rightharpoonup> ptr" where
  "next_map M h = (\<lambda>p. map_option (mem_next M) (h p))"

definition slist :: "('o, 'z) smember_scheme \<Rightarrow> (ptr \<rightharpoonup> 'o) \<Rightarrow> ptr \<Rightarrow> ptr list \<Rightarrow> bool" where
  "slist M h list xs \<longleftrightarrow> distinct xs \<and> NULL \<notin> set xs \<and> list = (if xs = [] then NULL else last xs) \<and>
    (\<forall>x\<in>set xs. next_map M h x = Some (cyc_succ xs x))"

text \<open>The objects of two heaps differ in the link member only.\<close>

definition only_next :: "('o, 'z) smember_scheme \<Rightarrow> (ptr \<rightharpoonup> 'o) \<Rightarrow> (ptr \<rightharpoonup> 'o) \<Rightarrow> bool" where
  "only_next M h h' \<longleftrightarrow> (\<forall>p. (h p = None \<longrightarrow> h' p = None) \<and>
     (\<forall>x. h p = Some x \<longrightarrow> (\<exists>n. h' p = Some (set_next M n x))))"

lemma slist_Nil [simp]: "slist M h list [] \<longleftrightarrow> list = NULL"
  by (simp add: slist_def)

lemma slist_frame: "(\<And>x. x \<in> set xs \<Longrightarrow> next_map M h' x = next_map M h x) \<Longrightarrow>
    slist M h' list xs = slist M h list xs"
  by (auto simp: slist_def)

lemma slist_upd_other [simp]: "a \<notin> set xs \<Longrightarrow> slist M (h(a := v)) list xs = slist M h list xs"
  by (rule slist_frame) (auto simp: next_map_def)

lemma slist_head:
  assumes "slist M h list (x # xs)"
  obtains l where "h list = Some l" and "mem_next M l = x" and "list \<noteq> NULL" and "list = last (x # xs)"
proof -
  let ?l = "last (x # xs)"
  from assms have list: "list = ?l" and d: "distinct (x # xs)" and "NULL \<notin> set (x # xs)"
    and n: "next_map M h ?l = Some (cyc_succ (x # xs) ?l)"
    unfolding slist_def by (auto simp del: last.simps set_simps)
  have "cyc_succ (x # xs) ?l = x"
    using cyc_succ_split [of "butlast (x # xs)" ?l "[]"] d
    by (simp add: append_butlast_last_id del: last.simps butlast.simps)
  moreover have "?l \<noteq> NULL" using \<open>NULL \<notin> set (x # xs)\<close> by (metis last_in_set list.distinct(1))
  ultimately show ?thesis using that n list by (auto simp: next_map_def)
qed

locale list_member =
  fixes M :: "('o, 'z) smember_scheme"
  assumes next_set_next [simp]: "mem_next M (set_next M p x) = p"
    and set_next_set_next [simp]: "set_next M p (set_next M q x) = set_next M p x"
    and set_next_same [simp]: "set_next M (mem_next M x) x = x"
begin

lemma next_map_upd [simp]: "next_map M (h(p \<mapsto> set_next M n x)) = (next_map M h)(p \<mapsto> n)"
  by (auto simp: next_map_def)

lemma only_next_refl [simp]: "only_next M h h"
  unfolding only_next_def by (metis set_next_same)

lemma only_next_upd: "only_next M h h' \<Longrightarrow> h' p = Some x \<Longrightarrow> only_next M h (h'(p \<mapsto> set_next M n x))"
  unfolding only_next_def by (auto simp: fun_upd_apply) (metis option.inject set_next_set_next)

lemma melon_list_push_spec:
  assumes l: "slist M h list xs" and y: "y \<notin> set xs" "y \<noteq> NULL" "h y = Some z"
  shows "\<exists>h'. melon_list_push M list y h = Inr (y, h') \<and> slist M h' y (xs @ [y]) \<and>
    only_next M h h' \<and> (\<forall>p. p \<notin> insert y (set xs) \<longrightarrow> h' p = h p)"
proof (cases xs)
  case Nil
  with l y show ?thesis
    by (auto simp: melon_list_push_def slist_def only_next_upd)
next
  case (Cons x ys)
  with l obtain lo where lo: "h list = Some lo" "mem_next M lo = x" "list \<noteq> NULL" "list = last xs"
    by (metis slist_head)
  from Cons lo(4) have in_xs: "list \<in> set xs" by simp
  with y have ne: "list \<noteq> y" by auto
  let ?h = "h(y \<mapsto> set_next M x z, list \<mapsto> set_next M y lo)"
  have push: "melon_list_push M list y h = Inr (y, ?h)"
    using lo y ne by (simp add: melon_list_push_def)
  have "only_next M h ?h"
    using lo y ne by (auto intro!: only_next_upd)
  moreover have "next_map M ?h p = Some (cyc_succ (xs @ [y]) p)" if "p \<in> set (xs @ [y])" for p
  proof -
    from l have d: "distinct (xs @ [y])" using y by (simp add: slist_def)
    have "next_map M ?h p = (if p = list then Some y else if p = y then Some x else next_map M h p)"
      using ne by (simp add: fun_upd_twist)
    also have "\<dots> = Some (cyc_succ (xs @ [y]) p)"
      using l that ne Cons lo(4) y by (subst cyc_succ_snoc [OF d]) (auto simp: slist_def)
    finally show ?thesis .
  qed
  ultimately show ?thesis
    using l y push in_xs by (auto simp: slist_def)
qed

lemma melon_list_pop_spec:
  assumes l: "slist M h list (x # xs)"
  shows "\<exists>list' h'. melon_list_pop M list h = Inr (list', x, h') \<and> slist M h' list' xs \<and>
    next_map M h' x = Some NULL \<and> only_next M h h' \<and> (\<forall>p. p \<notin> set (x # xs) \<longrightarrow> h' p = h p)"
proof -
  obtain lo where lo: "h list = Some lo" "mem_next M lo = x" "list \<noteq> NULL" "list = last (x # xs)"
    by (rule slist_head [OF l]) blast
  show ?thesis
  proof (cases xs)
    case Nil
    with lo show ?thesis
      by (auto simp: melon_list_pop_def only_next_upd)
  next
    case (Cons y ys)
    then have list: "list = last xs" using lo by simp
    from l have d: "distinct (x # xs)" and nn: "NULL \<notin> set (x # xs)" by (auto simp: slist_def)
    from Cons list have in_xs: "list \<in> set xs" by simp
    with d have ne: "list \<noteq> x" by auto
    have "cyc_succ (x # xs) x = y" using cyc_succ_split [of "[]" x xs] d Cons by simp
    with l have "next_map M h x = Some y" by (auto simp: slist_def)
    then obtain i where i: "h x = Some i" "mem_next M i = y" by (auto simp: next_map_def)
    let ?h = "h(list \<mapsto> set_next M y lo, x \<mapsto> set_next M NULL i)"
    have pop: "melon_list_pop M list h = Inr (list, x, ?h)"
      using lo i ne nn by (simp add: melon_list_pop_def)
    have "next_map M ?h p = Some (cyc_succ xs p)" if p: "p \<in> set xs" for p
    proof -
      have "cyc_succ (x # xs) p = cyc_succ (xs @ [x]) p"
        using cyc_succ_rotate [of "[x]" xs p] d p by auto
      also have "\<dots> = (if p = last xs then x else cyc_succ xs p)"
        using d p Cons by (subst cyc_succ_snoc) auto
      finally have "next_map M h p = Some (if p = last xs then x else cyc_succ xs p)"
        using l p by (auto simp: slist_def)
      moreover have "cyc_succ xs (last xs) = y"
        using cyc_succ_split [of "butlast xs" "last xs" "[]"] d Cons
        by (simp add: append_butlast_last_id del: last.simps butlast.simps)
      ultimately show ?thesis using p d list by auto
    qed
    with d nn list in_xs have "slist M ?h list xs"
      unfolding slist_def by (intro conjI ballI) auto
    moreover have "only_next M h ?h"
      using lo i ne by (auto intro!: only_next_upd)
    moreover have "\<forall>p. p \<notin> set (x # xs) \<longrightarrow> ?h p = h p"
      using in_xs by auto
    ultimately show ?thesis using pop by auto
  qed
qed

lemma melon_list_pop_empty: "melon_list_pop M NULL h = Inr (NULL, NULL, h)"
  by (simp add: melon_list_pop_def)

text \<open>
  A single object whose link is NULL is popped like a list of one element: the scheduler
  passes such objects to \<^verbatim>\<open>melon_sched_ready\<close>.
\<close>

lemma melon_list_pop_lone:
  "p \<noteq> NULL \<Longrightarrow> h p = Some x \<Longrightarrow> mem_next M x = NULL \<Longrightarrow> melon_list_pop M p h = Inr (NULL, p, h)"
  by (simp add: melon_list_pop_def) (metis fun_upd_triv set_next_same)

end

sublocale list_member \<subseteq> slist_q: fifo_queue
  "\<lambda>(l, h) xs. slist M h l xs" "\<lambda>p (l, h). p \<noteq> NULL \<and> h p \<noteq> None"
  "\<lambda>p (l, h). melon_list_push M l p h"
  "\<lambda>(l, h). res_bind (melon_list_pop M l h) (\<lambda>(l, x, h). Inr (x, (l, h)))"
proof (unfold_locales, goal_cases)
  case (1 q xs y)
  then show ?case
    by (cases q) (fastforce simp: only_next_def dest: melon_list_push_spec [of _ _ xs y])
next
  case (2 q x xs)
  then show ?case
    by (cases q) (fastforce simp: only_next_def dest: melon_list_pop_spec [of _ _ x xs])
next
  case (3 q)
  then show ?case by (cases q) (simp add: melon_list_pop_empty)
qed

end
