(* ===== verification/Melon_DList.thy ===== *)
theory Melon_DList
  imports Melon_List
begin

text \<open>
  The intrusive doubly linked circular list of \<^verbatim>\<open>src/dlist.h\<close>. The list
  pointer designates the first element. The macros take the prefix of the two link
  members; here they take the two members. The specification of each macro is proved for
  every pair of members, and with it that the list is a first-in first-out queue.
\<close>

section \<open>The macros\<close>

record 'o dmember = "'o smember" +
  mem_prev :: "'o \<Rightarrow> ptr"
  set_prev :: "ptr \<Rightarrow> 'o \<Rightarrow> 'o"

text \<open>
  \<^verbatim>\<open>(Item)->next->prev = (Item); (Item)->prev->next = (Item);\<close>, the last two
  statements of every insertion.
\<close>

definition dlist_relink :: "('o, 'z) dmember_scheme \<Rightarrow> ptr \<Rightarrow> (ptr \<rightharpoonup> 'o) \<Rightarrow> (ptr \<rightharpoonup> 'o) res" where
  "dlist_relink M item h =
    res_bind (load h item) (\<lambda>i.
    res_bind (store h (mem_next M i) (set_prev M item)) (\<lambda>h.
    res_bind (load h item) (\<lambda>i.
    store h (mem_prev M i) (set_next M item))))"

definition melon_dlist_push ::
    "('o, 'z) dmember_scheme \<Rightarrow> ptr \<Rightarrow> ptr \<Rightarrow> (ptr \<rightharpoonup> 'o) \<Rightarrow> (ptr \<times> (ptr \<rightharpoonup> 'o)) res" where
  "melon_dlist_push M list item h =
    (if list = NULL
     then
       res_bind (store h item (set_next M item)) (\<lambda>h.
       res_bind (store h item (set_prev M item)) (\<lambda>h.
       Inr (item, h)))
     else
       res_bind (store h item (set_next M list)) (\<lambda>h.
       res_bind (load h list) (\<lambda>l.
       res_bind (store h item (set_prev M (mem_prev M l))) (\<lambda>h.
       res_bind (dlist_relink M item h) (\<lambda>h.
       Inr (list, h))))))"

definition melon_dlist_insert ::
    "('o, 'z) dmember_scheme \<Rightarrow> ptr \<Rightarrow> ptr \<Rightarrow> ptr \<Rightarrow> (ptr \<rightharpoonup> 'o) \<Rightarrow> (ptr \<times> (ptr \<rightharpoonup> 'o)) res" where
  "melon_dlist_insert M list prev item h =
    (if list = NULL
     then
       res_bind (store h item (set_next M item)) (\<lambda>h.
       res_bind (store h item (set_prev M item)) (\<lambda>h.
       Inr (item, h)))
     else if prev = NULL
     then
       res_bind (store h item (set_next M list)) (\<lambda>h.
       res_bind (load h list) (\<lambda>l.
       res_bind (store h item (set_prev M (mem_prev M l))) (\<lambda>h.
       res_bind (dlist_relink M item h) (\<lambda>h.
       Inr (item, h)))))
     else
       res_bind (load h prev) (\<lambda>p.
       res_bind (store h item (set_next M (mem_next M p))) (\<lambda>h.
       res_bind (store h item (set_prev M prev)) (\<lambda>h.
       res_bind (dlist_relink M item h) (\<lambda>h.
       Inr (list, h))))))"

definition melon_dlist_unlink ::
    "('o, 'z) dmember_scheme \<Rightarrow> ptr \<Rightarrow> ptr \<Rightarrow> (ptr \<rightharpoonup> 'o) \<Rightarrow> (ptr \<times> (ptr \<rightharpoonup> 'o)) res" where
  "melon_dlist_unlink M list item h =
    res_bind (load h list) (\<lambda>l.
    if list = mem_next M l
    then
      res_bind (store h item (set_next M NULL)) (\<lambda>h.
      res_bind (store h item (set_prev M NULL)) (\<lambda>h.
      Inr (NULL, h)))
    else
      res_bind (if list = item then res_bind (load h item) (\<lambda>i. Inr (mem_next M i)) else Inr list) (\<lambda>list.
      res_bind (load h item) (\<lambda>i.
      res_bind (store h (mem_next M i) (set_prev M (mem_prev M i))) (\<lambda>h.
      res_bind (load h item) (\<lambda>i.
      res_bind (store h (mem_prev M i) (set_next M (mem_next M i))) (\<lambda>h.
      res_bind (store h item (set_next M NULL)) (\<lambda>h.
      res_bind (store h item (set_prev M NULL)) (\<lambda>h.
      Inr (list, h)))))))))"

definition melon_dlist_pop ::
    "('o, 'z) dmember_scheme \<Rightarrow> ptr \<Rightarrow> (ptr \<rightharpoonup> 'o) \<Rightarrow> (ptr \<times> ptr \<times> (ptr \<rightharpoonup> 'o)) res" where
  "melon_dlist_pop M list h =
    (let item = list in
     if item \<noteq> NULL
     then res_bind (melon_dlist_unlink M list item h) (\<lambda>(list, h). Inr (list, item, h))
     else Inr (list, item, h))"

section \<open>The list in the heap\<close>

definition prev_map :: "('o, 'z) dmember_scheme \<Rightarrow> (ptr \<rightharpoonup> 'o) \<Rightarrow> ptr \<rightharpoonup> ptr" where
  "prev_map M h = (\<lambda>p. map_option (mem_prev M) (h p))"

definition dlist :: "('o, 'z) dmember_scheme \<Rightarrow> (ptr \<rightharpoonup> 'o) \<Rightarrow> ptr \<Rightarrow> ptr list \<Rightarrow> bool" where
  "dlist M h list xs \<longleftrightarrow> distinct xs \<and> NULL \<notin> set xs \<and> list = (if xs = [] then NULL else hd xs) \<and>
    (\<forall>x\<in>set xs. next_map M h x = Some (cyc_succ xs x) \<and> prev_map M h x = Some (cyc_pred xs x))"

text \<open>The objects of two heaps differ in the two link members only.\<close>

definition only_links :: "('o, 'z) dmember_scheme \<Rightarrow> (ptr \<rightharpoonup> 'o) \<Rightarrow> (ptr \<rightharpoonup> 'o) \<Rightarrow> bool" where
  "only_links M h h' \<longleftrightarrow> (\<forall>p. (h p = None \<longrightarrow> h' p = None) \<and>
     (\<forall>x. h p = Some x \<longrightarrow> (\<exists>n v. h' p = Some (set_prev M v (set_next M n x)))))"

lemma dlist_Nil [simp]: "dlist M h list [] \<longleftrightarrow> list = NULL"
  by (simp add: dlist_def)

lemma dlist_frame:
  "(\<And>x. x \<in> set xs \<Longrightarrow> next_map M h' x = next_map M h x \<and> prev_map M h' x = prev_map M h x) \<Longrightarrow>
    dlist M h' list xs = dlist M h list xs"
  by (auto simp: dlist_def)

lemma dlist_upd_other [simp]: "a \<notin> set xs \<Longrightarrow> dlist M (h(a := v)) list xs = dlist M h list xs"
  by (rule dlist_frame) (auto simp: next_map_def prev_map_def)

lemma dlist_node:
  assumes "dlist M h list xs" and "x \<in> set xs"
  obtains nd where "h x = Some nd" and "mem_next M nd = cyc_succ xs x" and "mem_prev M nd = cyc_pred xs x"
    and "x \<noteq> NULL"
proof -
  from assms have "next_map M h x = Some (cyc_succ xs x)" "prev_map M h x = Some (cyc_pred xs x)" "x \<noteq> NULL"
    by (auto simp: dlist_def)
  then show ?thesis using that by (auto simp: next_map_def prev_map_def)
qed

lemma dlist_distinct: "dlist M h list xs \<Longrightarrow> distinct xs"
  by (simp add: dlist_def)

lemma dlist_head: "dlist M h list (x # xs) \<Longrightarrow> list = x \<and> x \<noteq> NULL"
  by (auto simp: dlist_def)

lemma dlist_head_in: "dlist M h list xs \<Longrightarrow> xs \<noteq> [] \<Longrightarrow> list \<in> set xs \<and> list \<noteq> NULL \<and> list = hd xs"
  by (metis dlist_def hd_in_set)

lemma dlist_NULL_iff: "dlist M h list xs \<Longrightarrow> list = NULL \<longleftrightarrow> xs = []"
  by (metis dlist_head_in dlist_Nil)

locale dlist_member = list_member M for M :: "('o, 'z) dmember_scheme" +
  assumes prev_set_prev [simp]: "mem_prev M (set_prev M p x) = p"
    and set_prev_set_prev [simp]: "set_prev M p (set_prev M q x) = set_prev M p x"
    and set_prev_same [simp]: "set_prev M (mem_prev M x) x = x"
    and next_set_prev [simp]: "mem_next M (set_prev M p x) = mem_next M x"
    and prev_set_next [simp]: "mem_prev M (set_next M p x) = mem_prev M x"
    and set_next_set_prev [simp]: "set_next M p (set_prev M q x) = set_prev M q (set_next M p x)"
begin

lemma link_maps_upd [simp]:
  "prev_map M (h(p \<mapsto> set_prev M n x)) = (prev_map M h)(p \<mapsto> n)"
  "h p = Some x \<Longrightarrow> next_map M (h(p \<mapsto> set_prev M n x)) = next_map M h"
  "h p = Some x \<Longrightarrow> prev_map M (h(p \<mapsto> set_next M n x)) = prev_map M h"
  "next_map M (h(p \<mapsto> set_prev M v (set_next M n x))) = (next_map M h)(p \<mapsto> n)"
  by (auto simp: next_map_def prev_map_def)

lemma only_links_refl [simp]: "only_links M h h"
  unfolding only_links_def by (metis set_next_same set_prev_same)

lemma only_links_set_next: "only_links M h h' \<Longrightarrow> h' p = Some x \<Longrightarrow> only_links M h (h'(p \<mapsto> set_next M n x))"
  unfolding only_links_def
  by (auto simp: fun_upd_apply) (metis option.inject set_next_set_prev set_next_set_next)

lemma only_links_set_prev: "only_links M h h' \<Longrightarrow> h' p = Some x \<Longrightarrow> only_links M h (h'(p \<mapsto> set_prev M n x))"
  unfolding only_links_def by (auto simp: fun_upd_apply) (metis option.inject set_prev_set_prev)

lemma only_links_set_both:
  "only_links M h h' \<Longrightarrow> h' p = Some x \<Longrightarrow> only_links M h (h'(p \<mapsto> set_prev M v (set_next M n x)))"
  using only_links_set_prev [OF only_links_set_next [of h h' p x n], of p "set_next M n x" v] by simp

text \<open>
  The common effect of the insertions: the fresh object \<open>y\<close> is placed between \<open>p\<close>
  and \<open>q\<close>, which may be the same object.
\<close>

lemma dlist_relink_spec:
  assumes "h y = Some z" and "h p = Some op" and "h q = Some oq" and "y \<noteq> p" and "y \<noteq> q"
  shows "\<exists>h'. dlist_relink M y (h(y \<mapsto> set_prev M p (set_next M q z))) = Inr h' \<and>
    next_map M h' = (next_map M h)(y \<mapsto> q, p \<mapsto> y) \<and> prev_map M h' = (prev_map M h)(y \<mapsto> p, q \<mapsto> y) \<and>
    only_links M h h' \<and> (\<forall>r. r \<notin> {y, p, q} \<longrightarrow> h' r = h r)"
proof (cases "p = q")
  case True
  let ?h = "h(y \<mapsto> set_prev M p (set_next M q z), p \<mapsto> set_next M y (set_prev M y op))"
  have "dlist_relink M y (h(y \<mapsto> set_prev M p (set_next M q z))) = Inr ?h"
    using assms True by (simp add: dlist_relink_def)
  moreover have "only_links M h ?h"
    using assms by (auto intro!: only_links_set_both)
  ultimately show ?thesis
    using assms True by (auto simp: next_map_def prev_map_def)
next
  case False
  let ?h = "h(y \<mapsto> set_prev M p (set_next M q z), q \<mapsto> set_prev M y oq, p \<mapsto> set_next M y op)"
  have "dlist_relink M y (h(y \<mapsto> set_prev M p (set_next M q z))) = Inr ?h"
    using assms False by (simp add: dlist_relink_def)
  moreover have "only_links M h ?h"
    using assms False
    by (intro only_links_set_next only_links_set_prev only_links_set_both only_links_refl) auto
  ultimately show ?thesis
    using assms False by (auto simp: next_map_def prev_map_def)
qed

lemma splice_dlist:
  assumes d: "dlist M h list (as @ p # bs)" and y: "y \<notin> set (as @ p # bs)" "y \<noteq> NULL"
    and q: "q = cyc_succ (as @ p # bs) p"
    and h': "next_map M h' = (next_map M h)(y \<mapsto> q, p \<mapsto> y)" "prev_map M h' = (prev_map M h)(y \<mapsto> p, q \<mapsto> y)"
  shows "dlist M h' list (as @ p # y # bs)"
proof -
  let ?xs = "as @ p # bs" and ?ys = "as @ p # y # bs"
  have ds: "distinct ?ys" "distinct ?xs" using dlist_distinct [OF d] y by auto
  have "q \<in> set ?xs" using cyc_succ_in [of p ?xs] ds q by auto
  then have "q \<noteq> y" using y by auto
  have "next_map M h' x = Some (cyc_succ ?ys x) \<and> prev_map M h' x = Some (cyc_pred ?ys x)" if x: "x \<in> set ?ys" for x
  proof -
    have "x \<noteq> y \<Longrightarrow> next_map M h x = Some (cyc_succ ?xs x) \<and> prev_map M h x = Some (cyc_pred ?xs x)"
      using d x by (auto simp: dlist_def)
    then show ?thesis
      using x y \<open>q \<noteq> y\<close> unfolding h' cyc_succ_insert_after [OF ds(1) x] cyc_pred_insert_after [OF ds(1) x] q
      by auto
  qed
  moreover have "list = hd ?ys" "NULL \<notin> set ?ys"
    using d y by (auto simp: dlist_def hd_append split: if_splits)
  ultimately show ?thesis using ds by (simp add: dlist_def)
qed

lemma dlist_singleton:
  "y \<noteq> NULL \<Longrightarrow> h y = Some z \<Longrightarrow> dlist M (h(y \<mapsto> set_prev M y (set_next M y z))) y [y]"
  by (simp add: dlist_def next_map_def prev_map_def)

lemma melon_dlist_push_spec:
  assumes d: "dlist M h list xs" and y: "y \<notin> set xs" "y \<noteq> NULL" "h y = Some z"
  shows "\<exists>h'. melon_dlist_push M list y h = Inr (hd (xs @ [y]), h') \<and> dlist M h' (hd (xs @ [y])) (xs @ [y]) \<and>
    only_links M h h' \<and> (\<forall>p. p \<notin> insert y (set xs) \<longrightarrow> h' p = h p)"
proof (cases xs rule: rev_cases)
  case Nil
  let ?h = "h(y \<mapsto> set_prev M y (set_next M y z))"
  have "melon_dlist_push M list y h = Inr (y, ?h)"
    using Nil d y by (simp add: melon_dlist_push_def)
  moreover have "only_links M h ?h"
    using y by (auto intro!: only_links_set_both)
  ultimately show ?thesis
    using Nil y dlist_singleton by auto
next
  case (snoc as p)
  let ?q = "cyc_succ xs p"
  have dx: "distinct xs" "xs \<noteq> []" using dlist_distinct [OF d] snoc by auto
  have q: "?q = list" "list = hd xs" using cyc_succ_last [OF dx] d snoc by (auto simp: dlist_def)
  obtain ol where ol: "h list = Some ol" "mem_prev M ol = p" "list \<noteq> NULL"
    using dlist_node [OF d, of list] cyc_pred_hd [OF dx] q dx snoc by (metis hd_in_set last_snoc)
  obtain op where op: "h p = Some op" using dlist_node [OF d, of p] snoc by auto
  have ne: "y \<noteq> p" "y \<noteq> list" using y snoc q dx hd_in_set [OF dx(2)] by auto
  obtain h' where h': "dlist_relink M y (h(y \<mapsto> set_prev M p (set_next M list z))) = Inr h'"
    "next_map M h' = (next_map M h)(y \<mapsto> list, p \<mapsto> y)" "prev_map M h' = (prev_map M h)(y \<mapsto> p, list \<mapsto> y)"
    "only_links M h h'" "\<forall>r. r \<notin> {y, p, list} \<longrightarrow> h' r = h r"
    using dlist_relink_spec [OF y(3) op ol(1) ne] by blast
  have "melon_dlist_push M list y h = Inr (list, h')"
    using ol y ne h' by (simp add: melon_dlist_push_def)
  moreover have "dlist M h' list (as @ p # y # [])"
    using d y q h' snoc by (intro splice_dlist [where h = h]) auto
  moreover have hd: "hd (xs @ [y]) = list" using q dx by simp
  moreover have "{p, list} \<subseteq> set xs" using snoc dlist_head_in [OF d dx(2)] by auto
  ultimately show ?thesis unfolding hd using h' snoc by auto
qed

lemma dlist_rotate:
  assumes "dlist M h list (xs @ [y])"
  shows "dlist M h y (y # xs)"
proof -
  have "distinct (xs @ [y])" using dlist_distinct [OF assms] .
  then have "cyc_succ (y # xs) x = cyc_succ (xs @ [y]) x \<and> cyc_pred (y # xs) x = cyc_pred (xs @ [y]) x"
    if "x \<in> set (y # xs)" for x
    using that cyc_succ_rotate [of "[y]" xs x] cyc_pred_rotate [of "[y]" xs x] by auto
  with assms show ?thesis by (auto simp: dlist_def)
qed

lemma insert_front_eq: "list \<noteq> NULL \<Longrightarrow>
    melon_dlist_insert M list NULL y h = res_bind (melon_dlist_push M list y h) (\<lambda>(_, h). Inr (y, h))"
  by (simp add: melon_dlist_insert_def melon_dlist_push_def res_bind_assoc)

lemma melon_dlist_insert_front_spec:
  assumes d: "dlist M h list xs" and y: "y \<notin> set xs" "y \<noteq> NULL" "h y = Some z"
  shows "\<exists>h'. melon_dlist_insert M list NULL y h = Inr (y, h') \<and> dlist M h' y (y # xs) \<and>
    only_links M h h' \<and> (\<forall>p. p \<notin> insert y (set xs) \<longrightarrow> h' p = h p)"
proof -
  obtain h' where h': "melon_dlist_push M list y h = Inr (hd (xs @ [y]), h')" "dlist M h' (hd (xs @ [y])) (xs @ [y])"
    "only_links M h h'" "\<forall>p. p \<notin> insert y (set xs) \<longrightarrow> h' p = h p"
    using melon_dlist_push_spec [OF assms] by blast
  have "melon_dlist_insert M list NULL y h = Inr (y, h')"
  proof (cases "xs = []")
    case True
    with d h'(1) show ?thesis by (simp add: melon_dlist_insert_def melon_dlist_push_def)
  next
    case False
    with d have "list \<noteq> NULL" by (simp add: dlist_NULL_iff)
    with h'(1) show ?thesis by (simp add: insert_front_eq)
  qed
  with h' dlist_rotate show ?thesis by blast
qed

lemma melon_dlist_insert_after_spec:
  assumes d: "dlist M h list (as @ p # bs)" and y: "y \<notin> set (as @ p # bs)" "y \<noteq> NULL" "h y = Some z"
  shows "\<exists>h'. melon_dlist_insert M list p y h = Inr (list, h') \<and> dlist M h' list (as @ p # y # bs) \<and>
    only_links M h h' \<and> (\<forall>r. r \<notin> insert y (set (as @ p # bs)) \<longrightarrow> h' r = h r)"
proof -
  let ?xs = "as @ p # bs" and ?q = "cyc_succ (as @ p # bs) p"
  obtain op where op: "h p = Some op" "mem_next M op = ?q" "p \<noteq> NULL"
    using dlist_node [OF d, of p] by auto
  have qin: "?q \<in> set ?xs" using cyc_succ_in [of p ?xs] dlist_distinct [OF d] by auto
  then obtain oq where oq: "h ?q = Some oq" using dlist_node [OF d] by metis
  have ne: "y \<noteq> p" "y \<noteq> ?q" using y qin by auto
  have ln: "list \<noteq> NULL" using d by (simp add: dlist_NULL_iff)
  obtain h' where h': "dlist_relink M y (h(y \<mapsto> set_prev M p (set_next M ?q z))) = Inr h'"
    "next_map M h' = (next_map M h)(y \<mapsto> ?q, p \<mapsto> y)" "prev_map M h' = (prev_map M h)(y \<mapsto> p, ?q \<mapsto> y)"
    "only_links M h h'" "\<forall>r. r \<notin> {y, p, ?q} \<longrightarrow> h' r = h r"
    using dlist_relink_spec [OF y(3) op(1) oq ne] by blast
  have "melon_dlist_insert M list p y h = Inr (list, h')"
    using ln op y h'(1) by (simp add: melon_dlist_insert_def)
  moreover have "dlist M h' list (as @ p # y # bs)"
    using d y h' by (intro splice_dlist [where h = h]) auto
  ultimately show ?thesis using h' qin by auto
qed

lemma unlink_dlist:
  assumes d: "dlist M h list xs" and y: "y \<in> set xs" and ne: "remove1 y xs \<noteq> []"
    and h': "\<forall>x\<in>set (remove1 y xs). next_map M h' x = (if x = cyc_pred xs y then Some (cyc_succ xs y) else next_map M h x)"
      "\<forall>x\<in>set (remove1 y xs). prev_map M h' x = (if x = cyc_succ xs y then Some (cyc_pred xs y) else prev_map M h x)"
  shows "dlist M h' (if list = y then cyc_succ xs y else list) (remove1 y xs)"
proof -
  have dx: "distinct xs" using dlist_distinct [OF d] .
  have sub: "x \<in> set xs" if "x \<in> set (remove1 y xs)" for x using that set_remove1_subset by fastforce
  have "next_map M h' x = Some (cyc_succ (remove1 y xs) x) \<and> prev_map M h' x = Some (cyc_pred (remove1 y xs) x)"
    if x: "x \<in> set (remove1 y xs)" for x
    using d h' x sub [OF x] cyc_succ_remove [OF dx y x] cyc_pred_remove [OF dx y x] by (auto simp: dlist_def)
  moreover have "(if list = y then cyc_succ xs y else list) = hd (remove1 y xs)"
  proof (cases xs)
    case (Cons x ys)
    with d have "list = x" by (simp add: dlist_def)
    with Cons ne dx show ?thesis by (cases ys) (auto simp: cyc_succ_hd)
  qed (use y in simp)
  moreover have "NULL \<notin> set (remove1 y xs)" using d sub by (auto simp: dlist_def)
  ultimately show ?thesis using ne dx unfolding dlist_def by simp
qed

lemma melon_dlist_unlink_spec:
  assumes d: "dlist M h list xs" and y: "y \<in> set xs"
  shows "\<exists>list' h'. melon_dlist_unlink M list y h = Inr (list', h') \<and> dlist M h' list' (remove1 y xs) \<and>
    next_map M h' y = Some NULL \<and> prev_map M h' y = Some NULL \<and>
    only_links M h h' \<and> (\<forall>p. p \<notin> set xs \<longrightarrow> h' p = h p)"
proof -
  have dx: "distinct xs" using dlist_distinct [OF d] .
  have xne: "xs \<noteq> []" using y by auto
  have hd: "list = hd xs" using d xne by (simp add: dlist_def)
  then obtain ol where ol: "h list = Some ol" "mem_next M ol = cyc_succ xs list"
    using dlist_node [OF d, of list] xne by (metis hd_in_set)
  obtain z where z: "h y = Some z" "mem_next M z = cyc_succ xs y" "mem_prev M z = cyc_pred xs y"
    using dlist_node [OF d y] by metis
  show ?thesis
  proof (cases "remove1 y xs = []")
    case True
    then have xs: "xs = [y]" using y by (cases xs) (auto split: if_splits)
    let ?h = "h(y \<mapsto> set_prev M NULL (set_next M NULL z))"
    have "melon_dlist_unlink M list y h = Inr (NULL, ?h)"
      using hd ol z xs by (simp add: melon_dlist_unlink_def)
    moreover have "only_links M h ?h" using z by (auto intro!: only_links_set_both)
    ultimately show ?thesis using xs by (auto simp: next_map_def prev_map_def)
  next
    case False
    let ?s = "cyc_succ xs y" and ?p = "cyc_pred xs y"
    have many: "cyc_succ xs list \<noteq> list"
      using hd False dx y by (cases xs; cases "tl xs") (auto simp: cyc_succ_hd)
    obtain os op where os: "h ?s = Some os" and op: "h ?p = Some op" 
      using dlist_node [OF d cyc_succ_in [OF y dx]] dlist_node [OF d cyc_pred_in [OF y dx]] by metis
    have sy: "?s \<noteq> y" "?p \<noteq> y"
    proof -
      obtain as bs where s: "xs = as @ y # bs" "remove1 y xs = as @ bs" "y \<notin> set as \<union> set bs"
        using remove1_split [OF dx y] by blast
      with False dx have "?s = hd (bs @ as)" "?p = last (bs @ as)" "bs @ as \<noteq> []"
        by (auto simp: cyc_succ_split cyc_pred_split hd_append last_append)
      then have "?s \<in> set (bs @ as)" "?p \<in> set (bs @ as)"
        by (metis hd_in_set last_in_set)+
      then show "?s \<noteq> y" "?p \<noteq> y" using s by auto
    qed
    let ?h1 = "h(?s \<mapsto> set_prev M ?p os)"
    obtain op' where op': "?h1 ?p = Some op'" "op' = (if ?p = ?s then set_prev M ?p os else op)"
      using op by auto
    let ?h2 = "?h1(?p \<mapsto> set_next M ?s op')"
    let ?h = "?h2(y \<mapsto> set_prev M NULL (set_next M NULL z))"
    have "melon_dlist_unlink M list y h = Inr (if list = y then ?s else list, ?h)"
      using ol z os op' many sy by (auto simp: melon_dlist_unlink_def)
    moreover have "only_links M h ?h"
      using z os op' sy
      by (intro only_links_set_both only_links_set_next only_links_set_prev only_links_refl) auto
    moreover have "next_map M ?h = (next_map M h)(?p \<mapsto> ?s, y \<mapsto> NULL)"
      "prev_map M ?h = (prev_map M h)(?s \<mapsto> ?p, y \<mapsto> NULL)"
      using os op op' sy by (auto simp: next_map_def prev_map_def fun_eq_iff)
    moreover from this have "dlist M ?h (if list = y then ?s else list) (remove1 y xs)"
      using d y False dx by (intro unlink_dlist [where h = h]) auto
    moreover have "?s \<in> set xs" "?p \<in> set xs" using cyc_succ_in [OF y dx] cyc_pred_in [OF y dx] .
    ultimately show ?thesis using y by auto
  qed
qed

lemma melon_dlist_pop_spec:
  assumes d: "dlist M h list (x # xs)"
  shows "\<exists>list' h'. melon_dlist_pop M list h = Inr (list', x, h') \<and> dlist M h' list' xs \<and>
    next_map M h' x = Some NULL \<and> prev_map M h' x = Some NULL \<and>
    only_links M h h' \<and> (\<forall>p. p \<notin> set (x # xs) \<longrightarrow> h' p = h p)"
proof -
  have "list = x" "x \<noteq> NULL" using dlist_head [OF d] by auto
  then show ?thesis
    using melon_dlist_unlink_spec [OF d, of x] by (fastforce simp: melon_dlist_pop_def)
qed

lemma melon_dlist_pop_empty: "melon_dlist_pop M NULL h = Inr (NULL, NULL, h)"
  by (simp add: melon_dlist_pop_def)

text \<open>Unlinking from an empty list dereferences NULL.\<close>

lemma melon_dlist_unlink_NULL: "h NULL = None \<Longrightarrow> melon_dlist_unlink M NULL y h = Inl Null_deref"
  by (simp add: melon_dlist_unlink_def)

end

sublocale dlist_member \<subseteq> dlist_q: fifo_queue
  "\<lambda>(l, h) xs. dlist M h l xs" "\<lambda>p (l, h). p \<noteq> NULL \<and> h p \<noteq> None"
  "\<lambda>p (l, h). melon_dlist_push M l p h"
  "\<lambda>(l, h). res_bind (melon_dlist_pop M l h) (\<lambda>(l, x, h). Inr (x, (l, h)))"
proof (unfold_locales, goal_cases)
  case (1 q xs y)
  then show ?case
    by (cases q) (fastforce simp: only_links_def dest: melon_dlist_push_spec [of _ _ xs y])
next
  case (2 q x xs)
  then show ?case
    by (cases q) (fastforce simp: only_links_def dest: melon_dlist_pop_spec [of _ _ x xs])
next
  case (3 q)
  then show ?case by (cases q) (simp add: melon_dlist_pop_empty)
qed

end
