(* ===== verification/Melon_Spinlock.thy ===== *)
theory Melon_Spinlock
  imports Melon_Prelude
begin

text \<open>
  The spinlock of \<^verbatim>\<open>include/melon/spinlock.h\<close>, in two views. The functional view
  runs one thread: the compare-and-swap loop returns at once on a free lock and never on
  a held one. The concurrent view is a step relation in which any number of threads
  attempt the compare-and-swap, enter and leave their critical section in any order; the
  lock word is 1 exactly when a thread is inside, so no two threads ever are.
\<close>

section \<open>One thread\<close>

definition melon_spin_init :: int where
  "melon_spin_init = 0"

text \<open>The builtin \<^verbatim>\<open>__sync_bool_compare_and_swap\<close>: success and the new value.\<close>

definition sync_bool_compare_and_swap :: "int \<Rightarrow> int \<Rightarrow> int \<Rightarrow> bool \<times> int" where
  "sync_bool_compare_and_swap lock old new = (if lock = old then (True, new) else (False, lock))"

partial_function (option) spin_lock_loop :: "int \<Rightarrow> int res option" where
  [code]: "spin_lock_loop lock =
    (case sync_bool_compare_and_swap lock 0 1 of (ok, lock') \<Rightarrow>
       if ok then Some (Inr lock') else spin_lock_loop lock')"

definition melon_spin_lock :: "int \<Rightarrow> int res" where
  "melon_spin_lock lock = run_loop (spin_lock_loop lock)"

definition melon_spin_unlock :: "int \<Rightarrow> int" where
  "melon_spin_unlock lock = 0"

lemma spin_lock_loop_returns: "spin_lock_loop lock = Some r \<Longrightarrow> lock = 0"
proof (erule spin_lock_loop.raw_induct [where P = "\<lambda>lock r. lock = 0", rotated])
  fix f :: "int \<Rightarrow> int res option" and lock r
  assume IH: "\<And>lock r. f lock = Some r \<Longrightarrow> lock = 0"
    and eq: "(case sync_bool_compare_and_swap lock 0 1 of
      (ok, lock') \<Rightarrow> if ok then Some (Inr lock') else f lock') = Some r"
  show "lock = 0"
  proof (rule ccontr)
    assume "lock \<noteq> 0"
    with eq have "f lock = Some r" by (simp add: sync_bool_compare_and_swap_def)
    with IH \<open>lock \<noteq> 0\<close> show False by blast
  qed
qed

lemma melon_spin_lock_free [simp]: "melon_spin_lock 0 = Inr 1"
  by (simp add: melon_spin_lock_def spin_lock_loop.simps sync_bool_compare_and_swap_def)

lemma melon_spin_lock_held: "lock \<noteq> 0 \<Longrightarrow> melon_spin_lock lock = Inl Diverges"
  using spin_lock_loop_returns [of lock]
  by (cases "spin_lock_loop lock") (auto simp: melon_spin_lock_def run_loop_def)

lemma melon_spin_unlock_0 [simp]: "melon_spin_unlock l = 0"
  by (simp add: melon_spin_unlock_def)

section \<open>Many threads\<close>

datatype spin_pc = Outside | Spinning | Inside

record spin_sys =
  ss_lock :: int
  ss_pc :: "nat \<Rightarrow> spin_pc"

text \<open>
  One step of one thread: it calls \<^verbatim>\<open>melon_spin_lock\<close>, it executes one
  compare-and-swap, it calls \<^verbatim>\<open>melon_spin_unlock\<close>.
\<close>

inductive spin_step :: "spin_sys \<Rightarrow> spin_sys \<Rightarrow> bool" where
  call: "ss_pc s t = Outside \<Longrightarrow> spin_step s (s\<lparr>ss_pc := (ss_pc s)(t := Spinning)\<rparr>)"
| cas: "ss_pc s t = Spinning \<Longrightarrow> sync_bool_compare_and_swap (ss_lock s) 0 1 = (ok, l) \<Longrightarrow>
    spin_step s (s\<lparr>ss_lock := l, ss_pc := (ss_pc s)(t := (if ok then Inside else Spinning))\<rparr>)"
| unlock: "ss_pc s t = Inside \<Longrightarrow>
    spin_step s (s\<lparr>ss_lock := melon_spin_unlock (ss_lock s), ss_pc := (ss_pc s)(t := Outside)\<rparr>)"

definition spin_start :: spin_sys where
  "spin_start = \<lparr>ss_lock = melon_spin_init, ss_pc = (\<lambda>_. Outside)\<rparr>"

inductive spin_reachable :: "spin_sys \<Rightarrow> bool" where
  start: "spin_reachable spin_start"
| step: "spin_reachable s \<Longrightarrow> spin_step s s' \<Longrightarrow> spin_reachable s'"

definition spin_inv :: "spin_sys \<Rightarrow> bool" where
  "spin_inv s \<longleftrightarrow> (ss_lock s = 0 \<and> (\<forall>t. ss_pc s t \<noteq> Inside)) \<or>
     (ss_lock s = 1 \<and> (\<exists>!t. ss_pc s t = Inside))"

lemma spin_inv_step: "spin_step s s' \<Longrightarrow> spin_inv s \<Longrightarrow> spin_inv s'"
proof (induction rule: spin_step.induct)
  case (call s t)
  then have "ss_pc s t \<noteq> Inside" by simp
  then have "((ss_pc s)(t := Spinning)) u = Inside \<longleftrightarrow> ss_pc s u = Inside" for u
    by (cases "u = t") auto
  with call.prems show ?case by (simp add: spin_inv_def)
next
  case (cas s t ok l)
  show ?case
  proof (cases "ss_lock s = 0")
    case True
    with cas have "\<forall>u. ss_pc s u \<noteq> Inside" "ok" "l = 1"
      by (auto simp: spin_inv_def sync_bool_compare_and_swap_def)
    then show ?thesis by (auto simp: spin_inv_def)
  next
    case False
    with cas have "\<not> ok" "l = ss_lock s" by (auto simp: sync_bool_compare_and_swap_def)
    with cas show ?thesis by (simp add: fun_upd_idem)
  qed
next
  case (unlock s t)
  then have "\<And>u. ss_pc s u = Inside \<Longrightarrow> u = t" by (auto simp: spin_inv_def)
  then show ?case by (auto simp: spin_inv_def)
qed

lemma spin_inv_reachable: "spin_reachable s \<Longrightarrow> spin_inv s"
proof (induction rule: spin_reachable.induct)
  case start
  show ?case by (simp add: spin_inv_def spin_start_def melon_spin_init_def)
next
  case (step s s')
  then show ?case using spin_inv_step by blast
qed

section \<open>Properties\<close>

text \<open>
  C17: Mutual exclusion of the spinlock: in every state that any number of threads can
  reach, interleaving their compare-and-swaps in any order, at most one thread is between
  its lock and its unlock.
\<close>

theorem spinlock_mutual_exclusion:
  assumes "spin_reachable s" and "ss_pc s t = Inside" and "ss_pc s u = Inside"
  shows "t = u"
  using spin_inv_reachable [OF assms(1)] assms(2,3) by (auto simp: spin_inv_def)

theorem spinlock_mutual_exclusion_witness:
  "\<exists>s. spin_reachable s \<and> ss_pc s 0 = Inside \<and> (\<forall>u. ss_pc s u = Inside \<longrightarrow> u = 0)"
proof -
  let ?s1 = "\<lparr>ss_lock = 0, ss_pc = (\<lambda>_. Outside)(0 := Spinning)\<rparr>"
  let ?s2 = "\<lparr>ss_lock = 1, ss_pc = (\<lambda>_. Outside)(0 := Inside)\<rparr>"
  have s1: "spin_step spin_start ?s1" using call [of spin_start 0] by (simp add: spin_start_def melon_spin_init_def)
  have s2: "spin_step ?s1 ?s2" using cas [of ?s1 0 True 1] by (simp add: sync_bool_compare_and_swap_def)
  have r: "spin_reachable ?s2"
    by (rule spin_reachable.step [OF spin_reachable.step [OF spin_reachable.start s1] s2])
  moreover have "\<forall>u. ss_pc ?s2 u = Inside \<longrightarrow> u = 0"
    by (intro allI impI, rule spinlock_mutual_exclusion [OF r]) simp_all
  moreover have "ss_pc ?s2 0 = Inside" by simp
  ultimately show ?thesis by (rule_tac x = ?s2 in exI) (intro conjI)
qed

text \<open>
  The loop of \<^verbatim>\<open>melon_spin_lock\<close> returns, with the lock taken, exactly when the
  lock is free; on a lock that its own thread holds it never returns.
\<close>

theorem spin_lock_returns_iff: "melon_spin_lock l = Inr l' \<longleftrightarrow> l = melon_spin_init \<and> l' = 1"
  using melon_spin_lock_held [of l] by (cases "l = 0") (auto simp: melon_spin_init_def)

end
