(* ===== verification/Melon_Stack.thy ===== *)
theory Melon_Stack
  imports Melon_List Melon_Spinlock
begin

text \<open>
  The cache of fiber stacks of \<^verbatim>\<open>src/stack_alloc.c\<close>. A free stack is kept in a
  circular list (\<^verbatim>\<open>src/list.h\<close>) whose link is stored in the first word of the
  stack itself. The static variables of the file are the record \<open>stack_alloc\<close>, with one
  more field for the memory: the first word of every stack that is mapped. \<^verbatim>\<open>mmap\<close>
  is a parameter of \<^verbatim>\<open>melon_stack_alloc\<close>: the address it returns, or None for
  \<^verbatim>\<open>MAP_FAILED\<close>.
\<close>

section \<open>State and operations\<close>

record stack_alloc =
  g_stack_list_lock :: int
  g_stack_list :: ptr
  g_stack_list_nb :: int
  stack_mem :: "ptr \<rightharpoonup> ptr"

text \<open>\<^verbatim>\<open>struct list\<close>: the whole object is its link.\<close>

definition stack_link :: "ptr smember" where
  "stack_link = \<lparr>mem_next = (\<lambda>n. n), set_next = (\<lambda>p _. p)\<rparr>"

interpretation stack_list: list_member stack_link
  by unfold_locales (simp_all add: stack_link_def)

text \<open>\<^verbatim>\<open>SIGSTKSZ\<close> comes from the system's headers.\<close>

definition MELON_STACK_SIZE :: "nat \<Rightarrow> nat" where
  "MELON_STACK_SIZE SIGSTKSZ = (if SIGSTKSZ \<ge> 16 * 1024 then SIGSTKSZ else 16 * 1024)"

definition melon_stack_size :: "nat \<Rightarrow> 32 word" where
  "melon_stack_size SIGSTKSZ = word_of_nat (MELON_STACK_SIZE SIGSTKSZ)"

definition melon_stack_init :: "stack_alloc \<Rightarrow> stack_alloc" where
  "melon_stack_init s = s\<lparr>g_stack_list := NULL, g_stack_list_nb := 0, g_stack_list_lock := melon_spin_init\<rparr>"

definition munmap :: "ptr \<Rightarrow> stack_alloc \<Rightarrow> stack_alloc" where
  "munmap addr s = s\<lparr>stack_mem := (stack_mem s)(addr := None)\<rparr>"

partial_function (option) stack_deinit_loop :: "stack_alloc \<Rightarrow> stack_alloc res option" where
  [code]: "stack_deinit_loop s =
    (case melon_list_pop stack_link (g_stack_list s) (stack_mem s) of
       Inl e \<Rightarrow> Some (Inl e)
     | Inr r \<Rightarrow> (case r of (l, item, h) \<Rightarrow>
         if item = NULL then Some (Inr (s\<lparr>g_stack_list := l, stack_mem := h\<rparr>))
         else stack_deinit_loop (munmap item (s\<lparr>g_stack_list := l, stack_mem := h\<rparr>))))"

definition melon_stack_deinit :: "stack_alloc \<Rightarrow> stack_alloc res" where
  "melon_stack_deinit s =
    res_bind (melon_spin_lock (g_stack_list_lock s)) (\<lambda>l.
    res_bind (run_loop (stack_deinit_loop (s\<lparr>g_stack_list_lock := l\<rparr>))) (\<lambda>s.
    Inr (s\<lparr>g_stack_list_lock := melon_spin_unlock (g_stack_list_lock s)\<rparr>)))"

definition melon_stack_alloc :: "ptr option \<Rightarrow> stack_alloc \<Rightarrow> (ptr \<times> stack_alloc) res" where
  "melon_stack_alloc mmap s =
    res_bind (melon_spin_lock (g_stack_list_lock s)) (\<lambda>l.
    let s = s\<lparr>g_stack_list_lock := l\<rparr> in
    if g_stack_list s = NULL
    then
      let s = s\<lparr>g_stack_list_lock := melon_spin_unlock (g_stack_list_lock s)\<rparr> in
      (case mmap of
         None \<Rightarrow> Inr (NULL, s)
       | Some addr \<Rightarrow> Inr (addr, s\<lparr>stack_mem := (stack_mem s)(addr \<mapsto> NULL)\<rparr>))
    else
      res_bind (melon_list_pop stack_link (g_stack_list s) (stack_mem s)) (\<lambda>(l, item, h).
      res_bind (int_dec (g_stack_list_nb s)) (\<lambda>nb.
      Inr (item, s\<lparr>g_stack_list := l, stack_mem := h, g_stack_list_nb := nb,
        g_stack_list_lock := melon_spin_unlock (g_stack_list_lock s)\<rparr>))))"

definition melon_stack_free :: "ptr \<Rightarrow> stack_alloc \<Rightarrow> stack_alloc res" where
  "melon_stack_free addr s =
    assert_that (addr \<noteq> NULL)
    (if g_stack_list_nb s > 100
     then Inr (munmap addr s)
     else
       res_bind (melon_spin_lock (g_stack_list_lock s)) (\<lambda>l.
       res_bind (int_inc (g_stack_list_nb s)) (\<lambda>nb.
       res_bind (melon_list_push stack_link (g_stack_list s) addr (stack_mem s)) (\<lambda>(list, h).
       Inr (s\<lparr>g_stack_list := list, stack_mem := h, g_stack_list_nb := nb,
         g_stack_list_lock := melon_spin_unlock l\<rparr>)))))"

section \<open>Invariant\<close>

text \<open>
  \<open>xs\<close> are the cached stacks, in the order in which they will be handed out, and
  \<open>used\<close> the stacks in use.
\<close>

definition stack_inv :: "stack_alloc \<Rightarrow> ptr list \<Rightarrow> ptr set \<Rightarrow> bool" where
  "stack_inv s xs used \<longleftrightarrow> slist stack_link (stack_mem s) (g_stack_list s) xs \<and>
     g_stack_list_nb s = int (length xs) \<and> length xs \<le> 101 \<and> g_stack_list_lock s = 0 \<and>
     set xs \<inter> used = {} \<and> dom (stack_mem s) = set xs \<union> used \<and> NULL \<notin> used"

lemma only_next_dom: "only_next M h h' \<Longrightarrow> dom h' = dom h"
  unfolding only_next_def dom_def by (metis option.distinct(1) option.exhaust)

lemma stack_alloc_cached:
  assumes inv: "stack_inv s (x # xs) used"
  shows "\<exists>s'. melon_stack_alloc mmap s = Inr (x, s') \<and> stack_inv s' xs (insert x used)"
proof -
  from inv have l: "slist stack_link (stack_mem s) (g_stack_list s) (x # xs)" by (simp add: stack_inv_def)
  have "g_stack_list s \<noteq> NULL" using slist_head [OF l] by metis
  moreover obtain l' h' where h': "melon_list_pop stack_link (g_stack_list s) (stack_mem s) = Inr (l', x, h')"
    "slist stack_link h' l' xs" "only_next stack_link (stack_mem s) h'"
    using stack_list.melon_list_pop_spec [OF l] by blast
  moreover have "dom h' = dom (stack_mem s)" using only_next_dom [OF h'(3)] .
  moreover have "x \<noteq> NULL" "x \<notin> set xs" using l by (auto simp: slist_def)
  ultimately show ?thesis
    using inv by (auto simp: melon_stack_alloc_def stack_inv_def Let_def)
qed

lemma stack_alloc_fresh:
  assumes "stack_inv s [] used" and "a \<noteq> NULL" and "a \<notin> used"
  shows "\<exists>s'. melon_stack_alloc (Some a) s = Inr (a, s') \<and> stack_inv s' [] (insert a used)"
  using assms by (auto simp: melon_stack_alloc_def stack_inv_def Let_def)

lemma stack_alloc_failed:
  "stack_inv s [] used \<Longrightarrow> melon_stack_alloc None s = Inr (NULL, s)"
  by (cases s) (auto simp: melon_stack_alloc_def stack_inv_def Let_def)

lemma stack_free_cached:
  assumes inv: "stack_inv s xs used" and a: "a \<in> used" and few: "length xs \<le> 100"
  shows "\<exists>s'. melon_stack_free a s = Inr s' \<and> stack_inv s' (xs @ [a]) (used - {a})"
proof -
  from inv a have "a \<noteq> NULL" "a \<notin> set xs" and ex: "a \<in> dom (stack_mem s)"
    and l: "slist stack_link (stack_mem s) (g_stack_list s) xs"
    by (auto simp: stack_inv_def)
  then obtain n h' where "stack_mem s a = Some n"
    and h': "melon_list_push stack_link (g_stack_list s) a (stack_mem s) = Inr (a, h')"
    "slist stack_link h' a (xs @ [a])" "only_next stack_link (stack_mem s) h'"
    using stack_list.melon_list_push_spec [OF l, of a] by auto
  moreover have "dom h' = dom (stack_mem s)" using only_next_dom [OF h'(3)] .
  moreover have "g_stack_list_nb s < INT_MAX" using inv few by (simp add: stack_inv_def INT_MAX_def)
  ultimately show ?thesis
    using inv a few \<open>a \<noteq> NULL\<close> \<open>a \<notin> set xs\<close> by (auto simp: melon_stack_free_def stack_inv_def)
qed

lemma stack_free_full:
  assumes "stack_inv s xs used" and "a \<in> used" and "length xs = 101"
  shows "\<exists>s'. melon_stack_free a s = Inr s' \<and> stack_inv s' xs (used - {a})"
proof -
  have "a \<noteq> NULL" "a \<notin> set xs" using assms by (auto simp: stack_inv_def)
  then show ?thesis
    using assms by (auto simp: melon_stack_free_def stack_inv_def munmap_def)
qed

lemma stack_deinit_loop_unmaps:
  assumes "slist stack_link (stack_mem s) (g_stack_list s) xs"
  shows "\<exists>s'. stack_deinit_loop s = Some (Inr s') \<and> g_stack_list s' = NULL \<and>
    dom (stack_mem s') = dom (stack_mem s) - set xs \<and> g_stack_list_lock s' = g_stack_list_lock s"
  using assms
proof (induction xs arbitrary: s)
  case Nil
  then show ?case
    by (simp add: stack_deinit_loop.simps [of s] melon_list_pop_def)
next
  case (Cons x xs)
  obtain l' h' where h': "melon_list_pop stack_link (g_stack_list s) (stack_mem s) = Inr (l', x, h')"
    "slist stack_link h' l' xs" "only_next stack_link (stack_mem s) h'"
    using stack_list.melon_list_pop_spec [OF Cons.prems] by blast
  let ?s = "munmap x (s\<lparr>g_stack_list := l', stack_mem := h'\<rparr>)"
  have x: "x \<noteq> NULL" "x \<notin> set xs" using Cons.prems by (auto simp: slist_def)
  have "slist stack_link (stack_mem ?s) (g_stack_list ?s) xs"
    using h'(2) x by (simp add: munmap_def)
  from Cons.IH [OF this] obtain s' where "stack_deinit_loop ?s = Some (Inr s')" "g_stack_list s' = NULL"
    "dom (stack_mem s') = dom (stack_mem ?s) - set xs" "g_stack_list_lock s' = g_stack_list_lock ?s"
    by blast
  moreover have "g_stack_list_lock ?s = g_stack_list_lock s" by (simp add: munmap_def)
  moreover have "stack_deinit_loop s = stack_deinit_loop ?s"
    by (subst stack_deinit_loop.simps) (simp add: h' x)
  moreover have "dom (stack_mem ?s) = dom (stack_mem s) - {x}"
    using only_next_dom [OF h'(3)] by (simp add: munmap_def)
  ultimately show ?case by auto
qed

lemma stack_deinit_empties:
  assumes "stack_inv s xs used"
  shows "\<exists>s'. melon_stack_deinit s = Inr s' \<and> g_stack_list s' = NULL \<and> dom (stack_mem s') = used"
proof -
  let ?s = "s\<lparr>g_stack_list_lock := 1\<rparr>"
  have "slist stack_link (stack_mem ?s) (g_stack_list ?s) xs" using assms by (simp add: stack_inv_def)
  from stack_deinit_loop_unmaps [OF this] obtain s' where s': "stack_deinit_loop ?s = Some (Inr s')" "g_stack_list s' = NULL"
    "dom (stack_mem s') = dom (stack_mem ?s) - set xs" by blast
  moreover have "dom (stack_mem s) - set xs = used" using assms by (auto simp: stack_inv_def)
  ultimately show ?thesis using assms by (simp add: melon_stack_deinit_def stack_inv_def)
qed

section \<open>Properties\<close>

text \<open>
  C34: The stack cache keeps its invariant on every path of allocation and release: the
  cached stacks and those in use stay disjoint and mapped, the counter is the length of
  the cache, and the cache never holds more than 101 stacks. An allocation takes the
  stack that was released first, or a fresh mapping when the cache is empty; a release
  puts the stack into the cache, or unmaps it when the cache is full.
\<close>

theorem stack_cache_invariant:
  assumes "stack_inv s xs used"
  shows "(\<forall>y ys. xs = y # ys \<longrightarrow> (\<exists>s'. melon_stack_alloc mmap s = Inr (y, s') \<and> stack_inv s' ys (insert y used))) \<and>
    (xs = [] \<longrightarrow> mmap = None \<longrightarrow> melon_stack_alloc mmap s = Inr (NULL, s)) \<and>
    (\<forall>a. xs = [] \<longrightarrow> mmap = Some a \<longrightarrow> a \<noteq> NULL \<longrightarrow> a \<notin> used \<longrightarrow>
      (\<exists>s'. melon_stack_alloc mmap s = Inr (a, s') \<and> stack_inv s' [] (insert a used))) \<and>
    (\<forall>a\<in>used. \<exists>s'. melon_stack_free a s = Inr s' \<and>
      stack_inv s' (if length xs \<le> 100 then xs @ [a] else xs) (used - {a}))"
proof (intro conjI allI impI ballI)
  fix y ys
  assume "xs = y # ys"
  with assms show "\<exists>s'. melon_stack_alloc mmap s = Inr (y, s') \<and> stack_inv s' ys (insert y used)"
    using stack_alloc_cached by blast
next
  assume "xs = []" "mmap = None"
  with assms show "melon_stack_alloc mmap s = Inr (NULL, s)" using stack_alloc_failed by blast
next
  fix a
  assume "xs = []" "mmap = Some a" "a \<noteq> NULL" "a \<notin> used"
  with assms show "\<exists>s'. melon_stack_alloc mmap s = Inr (a, s') \<and> stack_inv s' [] (insert a used)"
    using stack_alloc_fresh by blast
next
  fix a
  assume a: "a \<in> used"
  have "length xs \<le> 101" using assms by (simp add: stack_inv_def)
  then show "\<exists>s'. melon_stack_free a s = Inr s' \<and> stack_inv s' (if length xs \<le> 100 then xs @ [a] else xs) (used - {a})"
    using stack_free_cached [OF assms a] stack_free_full [OF assms a] by (cases "length xs \<le> 100") auto
qed

lemma stack_inv_start: "stack_inv (melon_stack_init (s\<lparr>stack_mem := Map.empty\<rparr>)) [] {}"
  by (simp add: stack_inv_def melon_stack_init_def melon_spin_init_def)

theorem stack_cache_invariant_witness:
  "\<exists>s. melon_stack_alloc (Some 7) (melon_stack_init \<lparr>g_stack_list_lock = 5, g_stack_list = 9, g_stack_list_nb = 3, stack_mem = Map.empty\<rparr>) =
    Inr (7, s) \<and> stack_inv s [] {7}"
  using stack_cache_invariant [OF stack_inv_start [of "\<lparr>g_stack_list_lock = 5, g_stack_list = 9, g_stack_list_nb = 3, stack_mem = Map.empty\<rparr>"],
      of "Some 7"]
  by simp

text \<open>
  \<^verbatim>\<open>melon_stack_deinit\<close> ends, and unmaps every cached stack and no other: what is
  still mapped afterwards is what is in use.
\<close>

theorem stack_deinit_unmaps:
  assumes "stack_inv s xs used"
  shows "\<exists>s'. melon_stack_deinit s = Inr s' \<and> g_stack_list s' = NULL \<and> dom (stack_mem s') = used"
  using stack_deinit_empties [OF assms] .

theorem stack_deinit_unmaps_witness:
  "\<exists>s. melon_stack_deinit (melon_stack_init \<lparr>g_stack_list_lock = 5, g_stack_list = 9, g_stack_list_nb = 3, stack_mem = Map.empty\<rparr>) =
    Inr s \<and> dom (stack_mem s) = {}"
  using stack_deinit_unmaps [OF stack_inv_start [of "\<lparr>g_stack_list_lock = 5, g_stack_list = 9, g_stack_list_nb = 3, stack_mem = Map.empty\<rparr>"]]
  by auto

end
