(* ===== verification/Melon_Types.thy ===== *)
theory Melon_Types
  imports Melon_DList Melon_Stack
begin

text \<open>
  The data of \<^verbatim>\<open>src/private.h\<close>: one record per struct, with the struct's members
  in their order, and the state of a whole program (\<open>world\<close>): a typed heap per struct,
  the global \<^verbatim>\<open>g_melon\<close>, the running thread's \<^verbatim>\<open>g_current_fiber\<close> and
  \<^verbatim>\<open>errno\<close>, the local variable \<^verbatim>\<open>list\<close> of \<^verbatim>\<open>melon_cond_signalnb\<close>
  (\<open>signal_list\<close>; it is the head of a list that lives on while the function runs), and
  the static variables of the stack allocator. The two pairs of link
  members of \<open>melon_fiber\<close> are interpretations of the list interfaces.
\<close>

unbundle bit_operations_syntax

section \<open>Constants\<close>

type_synonym event = "32 word"

definition kEventNone :: event where "kEventNone = 0"
definition kEventIoRead :: event where "kEventIoRead = 1"
definition kEventIoWrite :: event where "kEventIoWrite = 2"
definition kEventDestroy :: event where "kEventDestroy = 4"
definition kEventTimer :: event where "kEventTimer = 8"

text \<open>The error numbers of the C library that the code uses (Linux values).\<close>

definition ENOENT :: int where "ENOENT = 2"
definition EAGAIN :: int where "EAGAIN = 11"
definition EBUSY :: int where "EBUSY = 16"
definition EEXIST :: int where "EEXIST = 17"
definition EINVAL :: int where "EINVAL = 22"
definition ETIMEDOUT :: int where "ETIMEDOUT = 110"
definition EINPROGRESS :: int where "EINPROGRESS = 115"
definition ECANCELED :: int where "ECANCELED = 125"

lemmas errno_defs = ENOENT_def EAGAIN_def EBUSY_def EEXIST_def EINVAL_def ETIMEDOUT_def
  EINPROGRESS_def ECANCELED_def

section \<open>Callbacks\<close>

text \<open>
  A timer callback is one of the functions the library installs. Its context is a struct
  on the stack of the waiting fiber, to which \<^verbatim>\<open>timer_ctx\<close> points; the struct is
  kept by value in the fiber's record, which only that fiber and its callback use while
  it waits.
\<close>

record lock_ctx =
  lc_mutex :: ptr
  lc_fiber :: ptr
  lc_timeout :: int

record wait_ctx =
  wc_fiber :: ptr
  wc_cond :: ptr
  wc_timeout :: int
  wc_debug :: int

record waitfor_ctx =
  fc_fiber :: ptr
  fc_fildes :: nat
  fc_timeout :: int

datatype timer_context = Ctx_none | Ctx_lock lock_ctx | Ctx_wait wait_ctx | Ctx_waitfor waitfor_ctx | Ctx_fiber ptr

datatype timer_callback = Cb_none | Cb_mutex_timedlock | Cb_cond_timedwait | Cb_waitfor | Cb_usleep

datatype sched_callback = Sched_cb_none | Sched_cb_fiber_destroy

section \<open>The structs\<close>

record melon_mutexattr =
  ma_is_recursive :: int

record melon_mutex =
  m_lock :: int
  m_owner :: ptr
  m_lock_queue :: ptr
  m_lock_count :: int
  m_is_recursive :: int

record melon_rwlock =
  rw_lock :: ptr
  rw_wcond :: ptr
  rw_rcond :: ptr
  rw_lock_count :: int
  rw_is_read :: int
  rw_wowner :: ptr

record melon_cond =
  c_lock :: int
  c_wait_queue :: ptr

record melon_sem =
  s_lock :: ptr
  s_cond :: ptr
  s_queue :: ptr
  s_nb :: "32 word"
  s_left :: "32 word"

record melon_barrier =
  b_lock :: ptr
  b_cond :: ptr
  b_count :: "32 word"

record melon_fiberattr =
  fa_name :: string
  fa_stack_size :: "32 word"

record melon_fiber =
  f_lock :: int
  f_next :: ptr
  f_prev :: ptr
  f_uc_link :: ptr
  f_ss_size :: "32 word"
  f_ss_sp :: ptr
  f_waited_event :: event
  f_io_canceled :: int
  f_start_cb :: ptr
  f_start_ctx :: ptr
  f_timer :: int
  f_timer_next :: ptr
  f_timer_prev :: ptr
  f_timer_cb :: timer_callback
  f_timer_ctx :: timer_context
  f_sched_next_cb :: sched_callback
  f_sched_next_ctx :: ptr
  f_cond_mutex :: ptr
  f_lock_count :: int
  f_sem_nb :: int
  f_join_retval :: ptr
  f_join_mutex :: ptr
  f_join_cond :: ptr
  f_join_is_detached :: int
  f_join_is_finished :: int
  f_name :: string
  f_stack_size :: "32 word"

record melon_fd =
  read_queue :: ptr
  write_queue :: ptr
  is_in_epoll :: int

text \<open>Operations on the condition variables of the kernel threads, in the order they happen.\<close>

datatype os_event = Signal_ready | Broadcast_ready | Signal_timer | Broadcast_fibers_count_zero

text \<open>
  \<open>g_lock\<close> is how many times the running thread holds the recursive
  \<^verbatim>\<open>g_melon.lock\<close>; \<open>g_io\<close> has an entry for every descriptor below the limit
  that \<^verbatim>\<open>melon_init\<close> reads.
\<close>

record melon =
  g_lock :: nat
  g_ready :: ptr
  g_io :: "nat \<rightharpoonup> melon_fd"
  g_epoll_fd :: int
  g_threads_nb :: "32 word"
  g_timer_queue :: ptr
  g_stop :: int
  g_fibers_count :: int
  g_os_log :: "os_event list"

record world =
  fibers :: "ptr \<rightharpoonup> melon_fiber"
  mutexes :: "ptr \<rightharpoonup> melon_mutex"
  conds :: "ptr \<rightharpoonup> melon_cond"
  rwlocks :: "ptr \<rightharpoonup> melon_rwlock"
  sems :: "ptr \<rightharpoonup> melon_sem"
  barriers :: "ptr \<rightharpoonup> melon_barrier"
  g_melon :: melon
  g_current_fiber :: ptr
  errno :: int
  signal_list :: ptr
  stacks :: stack_alloc

section \<open>Access to the state\<close>

definition mod_fiber :: "ptr \<Rightarrow> (melon_fiber \<Rightarrow> melon_fiber) \<Rightarrow> world \<Rightarrow> world res" where
  "mod_fiber p f w = res_bind (store (fibers w) p f) (\<lambda>h. Inr (w\<lparr>fibers := h\<rparr>))"

definition mod_mutex :: "ptr \<Rightarrow> (melon_mutex \<Rightarrow> melon_mutex) \<Rightarrow> world \<Rightarrow> world res" where
  "mod_mutex p f w = res_bind (store (mutexes w) p f) (\<lambda>h. Inr (w\<lparr>mutexes := h\<rparr>))"

definition mod_cond :: "ptr \<Rightarrow> (melon_cond \<Rightarrow> melon_cond) \<Rightarrow> world \<Rightarrow> world res" where
  "mod_cond p f w = res_bind (store (conds w) p f) (\<lambda>h. Inr (w\<lparr>conds := h\<rparr>))"

definition mod_melon :: "(melon \<Rightarrow> melon) \<Rightarrow> world \<Rightarrow> world" where
  "mod_melon f w = w\<lparr>g_melon := f (g_melon w)\<rparr>"

definition os_event :: "os_event \<Rightarrow> world \<Rightarrow> world" where
  "os_event e w = mod_melon (\<lambda>g. g\<lparr>g_os_log := g_os_log g @ [e]\<rparr>) w"

text \<open>The spinlock members.\<close>

definition mutex_spin_lock :: "ptr \<Rightarrow> world \<Rightarrow> world res" where
  "mutex_spin_lock p w =
    res_bind (load (mutexes w) p) (\<lambda>m.
    res_bind (melon_spin_lock (m_lock m)) (\<lambda>l.
    Inr (w\<lparr>mutexes := (mutexes w)(p \<mapsto> m\<lparr>m_lock := l\<rparr>)\<rparr>)))"

definition mutex_spin_unlock :: "ptr \<Rightarrow> world \<Rightarrow> world res" where
  "mutex_spin_unlock p w = mod_mutex p (\<lambda>m. m\<lparr>m_lock := melon_spin_unlock (m_lock m)\<rparr>) w"

definition cond_spin_lock :: "ptr \<Rightarrow> world \<Rightarrow> world res" where
  "cond_spin_lock p w =
    res_bind (load (conds w) p) (\<lambda>c.
    res_bind (melon_spin_lock (c_lock c)) (\<lambda>l.
    Inr (w\<lparr>conds := (conds w)(p \<mapsto> c\<lparr>c_lock := l\<rparr>)\<rparr>)))"

definition cond_spin_unlock :: "ptr \<Rightarrow> world \<Rightarrow> world res" where
  "cond_spin_unlock p w = mod_cond p (\<lambda>c. c\<lparr>c_lock := melon_spin_unlock (c_lock c)\<rparr>) w"

text \<open>\<^verbatim>\<open>g_melon.lock\<close>, a recursive pthread mutex.\<close>

definition glock_lock :: "world \<Rightarrow> world" where
  "glock_lock w = mod_melon (\<lambda>g. g\<lparr>g_lock := Suc (g_lock g)\<rparr>) w"

definition glock_unlock :: "world \<Rightarrow> world" where
  "glock_unlock w = mod_melon (\<lambda>g. g\<lparr>g_lock := g_lock g - 1\<rparr>) w"

section \<open>The link members of a fiber\<close>

definition fiber_link :: "melon_fiber dmember" where
  "fiber_link = \<lparr>mem_next = f_next, set_next = (\<lambda>p f. f\<lparr>f_next := p\<rparr>),
     mem_prev = f_prev, set_prev = (\<lambda>p f. f\<lparr>f_prev := p\<rparr>)\<rparr>"

definition timer_link :: "melon_fiber dmember" where
  "timer_link = \<lparr>mem_next = f_timer_next, set_next = (\<lambda>p f. f\<lparr>f_timer_next := p\<rparr>),
     mem_prev = f_timer_prev, set_prev = (\<lambda>p f. f\<lparr>f_timer_prev := p\<rparr>)\<rparr>"

lemma fiber_link_simps [simp]:
  "mem_next fiber_link = f_next" "set_next fiber_link p f = f\<lparr>f_next := p\<rparr>"
  "mem_prev fiber_link = f_prev" "set_prev fiber_link p f = f\<lparr>f_prev := p\<rparr>"
  by (simp_all add: fiber_link_def)

lemma timer_link_simps [simp]:
  "mem_next timer_link = f_timer_next" "set_next timer_link p f = f\<lparr>f_timer_next := p\<rparr>"
  "mem_prev timer_link = f_timer_prev" "set_prev timer_link p f = f\<lparr>f_timer_prev := p\<rparr>"
  by (simp_all add: timer_link_def)

interpretation fiber_list: dlist_member fiber_link
  by unfold_locales simp_all

interpretation timer_list: dlist_member timer_link
  by unfold_locales simp_all

text \<open>The macros applied to fibers, as state transformers.\<close>

definition fiber_push :: "ptr \<Rightarrow> ptr \<Rightarrow> world \<Rightarrow> (ptr \<times> world) res" where
  "fiber_push list item w = res_bind (melon_dlist_push fiber_link list item (fibers w)) (\<lambda>(l, h). Inr (l, w\<lparr>fibers := h\<rparr>))"

definition fiber_pop :: "ptr \<Rightarrow> world \<Rightarrow> (ptr \<times> ptr \<times> world) res" where
  "fiber_pop list w = res_bind (melon_dlist_pop fiber_link list (fibers w)) (\<lambda>(l, x, h). Inr (l, x, w\<lparr>fibers := h\<rparr>))"

definition fiber_unlink :: "ptr \<Rightarrow> ptr \<Rightarrow> world \<Rightarrow> (ptr \<times> world) res" where
  "fiber_unlink list item w = res_bind (melon_dlist_unlink fiber_link list item (fibers w)) (\<lambda>(l, h). Inr (l, w\<lparr>fibers := h\<rparr>))"

definition melon_fiber_self :: "world \<Rightarrow> ptr" where
  "melon_fiber_self w = g_current_fiber w"

named_theorems world_defs \<open>unfolding of the state access operations\<close>

lemmas [world_defs] = mod_fiber_def mod_mutex_def mod_cond_def mod_melon_def os_event_def
  mutex_spin_lock_def mutex_spin_unlock_def cond_spin_lock_def cond_spin_unlock_def
  glock_lock_def glock_unlock_def fiber_push_def fiber_pop_def fiber_unlink_def melon_fiber_self_def

section \<open>Properties\<close>

text \<open>
  The ready queue's list macros are a first-in first-out queue: fibers that are pushed
  one after the other onto an empty list are popped in the same order, and then the list
  is empty.
\<close>

theorem ready_list_fifo:
  assumes "distinct ys" and "\<forall>y\<in>set ys. y \<noteq> NULL \<and> F y \<noteq> None"
  shows "\<exists>q1 q2. put_all (\<lambda>p (l, h). melon_list_push fiber_link l p h) ys (NULL, F) = Inr q1 \<and>
    take_n (\<lambda>(l, h). res_bind (melon_list_pop fiber_link l h) (\<lambda>(l, x, h). Inr (x, (l, h)))) (length ys) q1 = Inr (ys, q2) \<and>
    (case q2 of (l, h) \<Rightarrow> melon_list_pop fiber_link l h = Inr (l, NULL, h))"
proof -
  from fiber_list.slist_q.fifo_order [of "(NULL, F)" ys] assms obtain q1 q2 where
    "put_all (\<lambda>p (l, h). melon_list_push fiber_link l p h) ys (NULL, F) = Inr q1"
    "take_n (\<lambda>(l, h). res_bind (melon_list_pop fiber_link l h) (\<lambda>(l, x, h). Inr (x, (l, h)))) (length ys) q1 = Inr (ys, q2)"
    "(case q2 of (l, h) \<Rightarrow> res_bind (melon_list_pop fiber_link l h) (\<lambda>(l, x, h). Inr (x, (l, h)))) = Inr (NULL, q2)"
    by auto
  then show ?thesis by (cases q2) (auto simp: res_bind_eq_Inr)
qed

text \<open>
  C18: The same for the doubly linked lists that hold the fibers blocked on a mutex, a
  condition or a descriptor.
\<close>

theorem wait_list_fifo:
  assumes "distinct ys" and "\<forall>y\<in>set ys. y \<noteq> NULL \<and> F y \<noteq> None"
  shows "\<exists>q1 q2. put_all (\<lambda>p (l, h). melon_dlist_push fiber_link l p h) ys (NULL, F) = Inr q1 \<and>
    take_n (\<lambda>(l, h). res_bind (melon_dlist_pop fiber_link l h) (\<lambda>(l, x, h). Inr (x, (l, h)))) (length ys) q1 = Inr (ys, q2) \<and>
    (case q2 of (l, h) \<Rightarrow> melon_dlist_pop fiber_link l h = Inr (l, NULL, h))"
proof -
  from fiber_list.dlist_q.fifo_order [of "(NULL, F)" ys] assms obtain q1 q2 where
    "put_all (\<lambda>p (l, h). melon_dlist_push fiber_link l p h) ys (NULL, F) = Inr q1"
    "take_n (\<lambda>(l, h). res_bind (melon_dlist_pop fiber_link l h) (\<lambda>(l, x, h). Inr (x, (l, h)))) (length ys) q1 = Inr (ys, q2)"
    "(case q2 of (l, h) \<Rightarrow> res_bind (melon_dlist_pop fiber_link l h) (\<lambda>(l, x, h). Inr (x, (l, h)))) = Inr (NULL, q2)"
    by auto
  then show ?thesis by (cases q2) (auto simp: res_bind_eq_Inr)
qed

text \<open>
  A fiber can leave a wait list from any place: unlinking it leaves the other fibers in
  their order in a well-formed list, resets its two links and touches nothing outside the
  list, and nothing but links in it.
\<close>

theorem wait_list_unlink:
  assumes "dlist fiber_link F l xs" and "x \<in> set xs"
  shows "\<exists>l' F'. melon_dlist_unlink fiber_link l x F = Inr (l', F') \<and> dlist fiber_link F' l' (remove1 x xs) \<and>
    (\<exists>f. F' x = Some f \<and> f_next f = NULL \<and> f_prev f = NULL) \<and> only_links fiber_link F F' \<and>
    (\<forall>p. p \<notin> set xs \<longrightarrow> F' p = F p)"
  using fiber_list.melon_dlist_unlink_spec [OF assms]
  by (fastforce simp: next_map_def prev_map_def)

definition three_fibers :: "melon_fiber \<Rightarrow> ptr \<rightharpoonup> melon_fiber" where
  "three_fibers f = [1 \<mapsto> f\<lparr>f_next := 2, f_prev := 3\<rparr>, 2 \<mapsto> f\<lparr>f_next := 3, f_prev := 1\<rparr>, 3 \<mapsto> f\<lparr>f_next := 1, f_prev := 2\<rparr>]"

lemma three_fibers_dlist: "dlist fiber_link (three_fibers f) 1 [1, 2, 3]"
  by (simp add: dlist_def three_fibers_def next_map_def prev_map_def cyc_succ_def cyc_pred_def)

theorem ready_list_fifo_witness:
  "\<forall>f. \<exists>q1 q2. put_all (\<lambda>p (l, h). melon_list_push fiber_link l p h) [3, 1] (NULL, three_fibers f) = Inr q1 \<and>
    take_n (\<lambda>(l, h). res_bind (melon_list_pop fiber_link l h) (\<lambda>(l, x, h). Inr (x, (l, h)))) 2 q1 = Inr ([3, 1], q2)"
proof
  fix f
  show "\<exists>q1 q2. put_all (\<lambda>p (l, h). melon_list_push fiber_link l p h) [3, 1] (NULL, three_fibers f) = Inr q1 \<and>
    take_n (\<lambda>(l, h). res_bind (melon_list_pop fiber_link l h) (\<lambda>(l, x, h). Inr (x, (l, h)))) 2 q1 = Inr ([3, 1], q2)"
    using ready_list_fifo [of "[3, 1]" "three_fibers f"] by (auto simp: three_fibers_def numeral_2_eq_2)
qed

theorem wait_list_fifo_witness:
  "\<forall>f. \<exists>q1 q2. put_all (\<lambda>p (l, h). melon_dlist_push fiber_link l p h) [3, 1] (NULL, three_fibers f) = Inr q1 \<and>
    take_n (\<lambda>(l, h). res_bind (melon_dlist_pop fiber_link l h) (\<lambda>(l, x, h). Inr (x, (l, h)))) 2 q1 = Inr ([3, 1], q2)"
proof
  fix f
  show "\<exists>q1 q2. put_all (\<lambda>p (l, h). melon_dlist_push fiber_link l p h) [3, 1] (NULL, three_fibers f) = Inr q1 \<and>
    take_n (\<lambda>(l, h). res_bind (melon_dlist_pop fiber_link l h) (\<lambda>(l, x, h). Inr (x, (l, h)))) 2 q1 = Inr ([3, 1], q2)"
    using wait_list_fifo [of "[3, 1]" "three_fibers f"] by (auto simp: three_fibers_def numeral_2_eq_2)
qed

theorem wait_list_unlink_witness:
  "\<forall>f. \<exists>l' F'. melon_dlist_unlink fiber_link 1 2 (three_fibers f) = Inr (l', F') \<and> dlist fiber_link F' l' [1, 3]"
proof
  fix f
  show "\<exists>l' F'. melon_dlist_unlink fiber_link 1 2 (three_fibers f) = Inr (l', F') \<and> dlist fiber_link F' l' [1, 3]"
    using wait_list_unlink [OF three_fibers_dlist [of f], of 2] by auto
qed

end
