(* ===== verification/Melon_Queues.thy ===== *)
theory Melon_Queues
  imports Melon_Types
begin

text \<open>
  The abstract view of the fibers' queues. The members \<open>f_next\<close> and \<open>f_prev\<close> of a
  fiber link it into one queue at a time: the ready queue, the lock queue of a mutex, the
  wait queue of a condition, a queue of a file descriptor, or the list that a signal
  function works on. The abstraction of a state
  maps each queue to the list of its fibers; all these lists are disjoint. The members
  \<open>f_timer_next\<close> and \<open>f_timer_prev\<close> link the timer queue, which is sorted. Each list
  operation on the heap is shown to be the corresponding operation on one list of the
  abstraction.
\<close>

datatype qid = Q_ready | Q_lock ptr | Q_wait ptr | Q_read nat | Q_write nat | Q_signal

type_synonym queues = "qid \<Rightarrow> ptr list"

fun qhead :: "world \<Rightarrow> qid \<Rightarrow> ptr" where
  "qhead w Q_ready = g_ready (g_melon w)"
| "qhead w (Q_lock m) = (case mutexes w m of None \<Rightarrow> NULL | Some x \<Rightarrow> m_lock_queue x)"
| "qhead w (Q_wait c) = (case conds w c of None \<Rightarrow> NULL | Some x \<Rightarrow> c_wait_queue x)"
| "qhead w (Q_read fd) = (case g_io (g_melon w) fd of None \<Rightarrow> NULL | Some x \<Rightarrow> read_queue x)"
| "qhead w (Q_write fd) = (case g_io (g_melon w) fd of None \<Rightarrow> NULL | Some x \<Rightarrow> write_queue x)"
| "qhead w Q_signal = signal_list w"

definition queue_at :: "qid \<Rightarrow> (ptr \<rightharpoonup> melon_fiber) \<Rightarrow> ptr \<Rightarrow> ptr list \<Rightarrow> bool" where
  "queue_at q F l xs = (if q = Q_ready then slist fiber_link F l xs else dlist fiber_link F l xs)"

definition qrep :: "(ptr \<rightharpoonup> melon_fiber) \<Rightarrow> (qid \<Rightarrow> ptr) \<Rightarrow> queues \<Rightarrow> bool" where
  "qrep F h qs \<longleftrightarrow> (\<forall>q. queue_at q F (h q) (qs q)) \<and> (\<forall>q r. q \<noteq> r \<longrightarrow> set (qs q) \<inter> set (qs r) = {})"

definition timer_of :: "(ptr \<rightharpoonup> melon_fiber) \<Rightarrow> ptr \<Rightarrow> int" where
  "timer_of F p = (case F p of Some f \<Rightarrow> f_timer f | None \<Rightarrow> 0)"

definition trep :: "(ptr \<rightharpoonup> melon_fiber) \<Rightarrow> ptr \<Rightarrow> ptr list \<Rightarrow> bool" where
  "trep F l ts \<longleftrightarrow> dlist timer_link F l ts \<and> sorted (map (timer_of F) ts)"

text \<open>
  A fiber that is in no queue: it runs, or it is about to be queued. Its \<open>f_next\<close> is
  NULL, which is what \<^verbatim>\<open>melon_sched_ready\<close> relies on.
\<close>

definition unqueued :: "(ptr \<rightharpoonup> melon_fiber) \<Rightarrow> queues \<Rightarrow> ptr \<Rightarrow> bool" where
  "unqueued F qs x \<longleftrightarrow> x \<noteq> NULL \<and> (\<exists>f. F x = Some f \<and> f_next f = NULL) \<and> (\<forall>q. x \<notin> set (qs q))"

definition untimed :: "(ptr \<rightharpoonup> melon_fiber) \<Rightarrow> ptr list \<Rightarrow> ptr \<Rightarrow> bool" where
  "untimed F ts x \<longleftrightarrow> x \<noteq> NULL \<and> F x \<noteq> None \<and> x \<notin> set ts"

section \<open>Frames\<close>

text \<open>The fibers of two heaps differ in the queue links only, or in the timer links only.\<close>

abbreviation same_but_queues :: "(ptr \<rightharpoonup> melon_fiber) \<Rightarrow> (ptr \<rightharpoonup> melon_fiber) \<Rightarrow> bool" where
  "same_but_queues F F' \<equiv> only_links fiber_link F F'"

abbreviation same_but_timers :: "(ptr \<rightharpoonup> melon_fiber) \<Rightarrow> (ptr \<rightharpoonup> melon_fiber) \<Rightarrow> bool" where
  "same_but_timers F F' \<equiv> only_links timer_link F F'"

lemma same_but_queues_None: "same_but_queues F F' \<Longrightarrow> F' p = None \<longleftrightarrow> F p = None"
  unfolding only_links_def by (metis option.distinct(1) option.exhaust)

lemma same_but_timers_None: "same_but_timers F F' \<Longrightarrow> F' p = None \<longleftrightarrow> F p = None"
  unfolding only_links_def by (metis option.distinct(1) option.exhaust)

lemma same_but_queuesE:
  assumes "same_but_queues F F'" and "F p = Some f"
  obtains n v where "F' p = Some (f\<lparr>f_next := n, f_prev := v\<rparr>)"
  using assms unfolding only_links_def by fastforce

lemma same_but_timersE:
  assumes "same_but_timers F F'" and "F p = Some f"
  obtains n v where "F' p = Some (f\<lparr>f_timer_next := n, f_timer_prev := v\<rparr>)"
  using assms unfolding only_links_def by fastforce

lemma same_but_timers_back:
  assumes "same_but_timers F F'" and "F' p = Some f'"
  obtains f n v where "F p = Some f" and "f' = f\<lparr>f_timer_next := n, f_timer_prev := v\<rparr>"
proof -
  obtain f where f: "F p = Some f" using assms same_but_timers_None [OF assms(1), of p] by (cases "F p") auto
  then obtain n v where "F' p = Some (f\<lparr>f_timer_next := n, f_timer_prev := v\<rparr>)"
    using assms(1) by (auto elim: same_but_timersE)
  with f assms(2) show ?thesis by (intro that [of f]) auto
qed

lemma same_but_queues_back:
  assumes "same_but_queues F F'" and "F' p = Some f'"
  obtains f n v where "F p = Some f" and "f' = f\<lparr>f_next := n, f_prev := v\<rparr>"
proof -
  obtain f where f: "F p = Some f" using assms same_but_queues_None [OF assms(1), of p] by (cases "F p") auto
  then obtain n v where "F' p = Some (f\<lparr>f_next := n, f_prev := v\<rparr>)"
    using assms(1) by (auto elim: same_but_queuesE)
  with f assms(2) show ?thesis by (intro that [of f]) auto
qed

lemma same_but_queues_trans: "same_but_queues F G \<Longrightarrow> same_but_queues G H \<Longrightarrow> same_but_queues F H"
  unfolding only_links_def by (fastforce dest: spec)

lemma same_but_timers_trans: "same_but_timers F G \<Longrightarrow> same_but_timers G H \<Longrightarrow> same_but_timers F H"
  unfolding only_links_def by (fastforce dest: spec)

lemma only_next_queues: "only_next fiber_link F F' \<Longrightarrow> same_but_queues F F'"
  unfolding only_next_def only_links_def
proof (intro allI conjI impI)
  fix p x
  assume "\<forall>p. (F p = None \<longrightarrow> F' p = None) \<and> (\<forall>x. F p = Some x \<longrightarrow> (\<exists>n. F' p = Some (set_next fiber_link n x)))"
    and "F p = Some x"
  then obtain n where "F' p = Some (x\<lparr>f_next := n\<rparr>)" by auto
  then have "F' p = Some (set_prev fiber_link (f_prev x) (set_next fiber_link n x))" by simp
  then show "\<exists>n v. F' p = Some (set_prev fiber_link v (set_next fiber_link n x))" by blast
qed auto

lemma trep_queues: "same_but_queues F F' \<Longrightarrow> trep F' l ts = trep F l ts"
proof -
  assume s: "same_but_queues F F'"
  have "next_map timer_link F' p = next_map timer_link F p \<and> prev_map timer_link F' p = prev_map timer_link F p \<and>
      timer_of F' p = timer_of F p" for p
  proof (cases "F p")
    case None
    moreover from None s have "F' p = None" by (simp add: same_but_queues_None)
    ultimately show ?thesis by (simp add: next_map_def prev_map_def timer_of_def)
  next
    case (Some f)
    with s obtain n v where "F' p = Some (f\<lparr>f_next := n, f_prev := v\<rparr>)" by (rule same_but_queuesE)
    with Some show ?thesis by (simp add: next_map_def prev_map_def timer_of_def)
  qed
  then show ?thesis by (simp add: trep_def cong: map_cong) (simp add: dlist_def)
qed

lemma qrep_cong:
  assumes "\<And>p. map_option f_next (F' p) = map_option f_next (F p)"
    and "\<And>p. map_option f_prev (F' p) = map_option f_prev (F p)"
  shows "qrep F' h qs = qrep F h qs"
  using assms by (auto simp: qrep_def queue_at_def slist_def dlist_def next_map_def prev_map_def)

lemma trep_cong:
  assumes "\<And>p. map_option f_timer_next (F' p) = map_option f_timer_next (F p)"
    and "\<And>p. map_option f_timer_prev (F' p) = map_option f_timer_prev (F p)"
    and "\<And>p. p \<in> set ts \<Longrightarrow> timer_of F' p = timer_of F p"
  shows "trep F' l ts = trep F l ts"
  using assms by (auto simp: trep_def dlist_def next_map_def prev_map_def cong: map_cong)

lemma qrep_timers: "same_but_timers F F' \<Longrightarrow> qrep F' h qs = qrep F h qs"
proof (rule qrep_cong)
  fix p
  assume s: "same_but_timers F F'"
  show "map_option f_next (F' p) = map_option f_next (F p)" "map_option f_prev (F' p) = map_option f_prev (F p)"
    by (cases "F p"; use s in \<open>auto simp: same_but_timers_None elim: same_but_timersE\<close>)+
qed

section \<open>The list operations on the abstraction\<close>

lemma qrep_queue: "qrep F h qs \<Longrightarrow> q \<noteq> Q_ready \<Longrightarrow> dlist fiber_link F (h q) (qs q)"
  by (auto simp: qrep_def queue_at_def)

lemma qrep_ready: "qrep F h qs \<Longrightarrow> slist fiber_link F (h Q_ready) (qs Q_ready)"
  unfolding qrep_def queue_at_def by (metis (full_types))

lemma qrep_disjoint: "qrep F h qs \<Longrightarrow> x \<in> set (qs q) \<Longrightarrow> x \<in> set (qs r) \<Longrightarrow> q = r"
  by (auto simp: qrep_def)

lemma qrep_NULL_iff: "qrep F h qs \<Longrightarrow> h q = NULL \<longleftrightarrow> qs q = []"
proof (cases "q = Q_ready")
  case True
  assume "qrep F h qs"
  then have "slist fiber_link F (h q) (qs q)" using True by (simp add: qrep_ready)
  then show ?thesis by (cases "qs q") (auto elim: slist_head)
qed (auto dest!: qrep_queue dlist_NULL_iff)

lemma qrep_member: "qrep F h qs \<Longrightarrow> x \<in> set (qs q) \<Longrightarrow> x \<noteq> NULL \<and> F x \<noteq> None"
proof (cases "q = Q_ready")
  case True
  assume "qrep F h qs" "x \<in> set (qs q)"
  then have "slist fiber_link F (h q) (qs q)" "x \<in> set (qs q)" using True by (simp_all add: qrep_ready)
  then show ?thesis by (auto simp: slist_def next_map_def)
next
  case False
  assume "qrep F h qs" and x: "x \<in> set (qs q)"
  then have "dlist fiber_link F (h q) (qs q)" using False by (simp add: qrep_queue)
  then show ?thesis using x by (auto elim: dlist_node)
qed

lemma qrep_update:
  assumes r: "qrep F h qs" and q: "queue_at q F' l ys"
    and sub: "set ys \<subseteq> set (qs q) \<union> S" and new: "\<And>r x. r \<noteq> q \<Longrightarrow> x \<in> S \<Longrightarrow> x \<notin> set (qs r)"
    and frame: "\<And>p. p \<notin> set (qs q) \<union> S \<Longrightarrow> F' p = F p"
  shows "qrep F' (h(q := l)) (qs(q := ys))"
proof -
  have off: "p \<notin> set (qs q) \<union> S" if "r \<noteq> q" "p \<in> set (qs r)" for p r
    using new that qrep_disjoint [OF r, of p r q] by auto
  have "queue_at r F' (h r) (qs r)" if "r \<noteq> q" for r
  proof -
    have eq: "F' p = F p" if "p \<in> set (qs r)" for p using frame off [OF \<open>r \<noteq> q\<close> that] by blast
    have "slist fiber_link F' (h r) (qs r) = slist fiber_link F (h r) (qs r)"
      "dlist fiber_link F' (h r) (qs r) = dlist fiber_link F (h r) (qs r)"
      using eq by (intro slist_frame dlist_frame; simp add: next_map_def prev_map_def)+
    with r show ?thesis by (auto simp: qrep_def queue_at_def)
  qed
  moreover have "set ys \<inter> set (qs r) = {}" if "r \<noteq> q" for r
    using sub off [OF that] by fastforce
  ultimately show ?thesis using q r by (auto simp: qrep_def)
qed

lemma qrep_push:
  assumes r: "qrep F h qs" and q: "q \<noteq> Q_ready" and x: "\<And>r. x \<notin> set (qs r)" "x \<noteq> NULL" "F x = Some f"
  shows "\<exists>F'. melon_dlist_push fiber_link (h q) x F = Inr (hd (qs q @ [x]), F') \<and>
    qrep F' (h(q := hd (qs q @ [x]))) (qs(q := qs q @ [x])) \<and> same_but_queues F F' \<and>
    (\<forall>p. p \<noteq> x \<longrightarrow> p \<notin> set (qs q) \<longrightarrow> F' p = F p)"
proof -
  obtain F' where F': "melon_dlist_push fiber_link (h q) x F = Inr (hd (qs q @ [x]), F')"
    "dlist fiber_link F' (hd (qs q @ [x])) (qs q @ [x])" "same_but_queues F F'"
    "\<forall>p. p \<notin> insert x (set (qs q)) \<longrightarrow> F' p = F p"
    using fiber_list.melon_dlist_push_spec [OF qrep_queue [OF r q] x(1,2,3)] by blast
  moreover have "qrep F' (h(q := hd (qs q @ [x]))) (qs(q := qs q @ [x]))"
    by (rule qrep_update [OF r, where S = "{x}"]) (use F' q x in \<open>auto simp: queue_at_def\<close>)
  ultimately show ?thesis by auto
qed

lemma qrep_unlink:
  assumes r: "qrep F h qs" and q: "q \<noteq> Q_ready" and x: "x \<in> set (qs q)"
  shows "\<exists>l F'. melon_dlist_unlink fiber_link (h q) x F = Inr (l, F') \<and>
    qrep F' (h(q := l)) (qs(q := remove1 x (qs q))) \<and> same_but_queues F F' \<and>
    unqueued F' (qs(q := remove1 x (qs q))) x \<and> (\<forall>p. p \<notin> set (qs q) \<longrightarrow> F' p = F p)"
proof -
  note d = qrep_queue [OF r q]
  obtain l F' where F': "melon_dlist_unlink fiber_link (h q) x F = Inr (l, F')"
    "dlist fiber_link F' l (remove1 x (qs q))" "next_map fiber_link F' x = Some NULL" "same_but_queues F F'"
    "\<forall>p. p \<notin> set (qs q) \<longrightarrow> F' p = F p"
    using fiber_list.melon_dlist_unlink_spec [OF d x] by blast
  have "qrep F' (h(q := l)) (qs(q := remove1 x (qs q)))"
    by (rule qrep_update [OF r, where S = "{}"])
      (use F' q set_remove1_subset [of x "qs q"] in \<open>auto simp: queue_at_def\<close>)
  moreover have "unqueued F' (qs(q := remove1 x (qs q))) x"
    using F'(3) qrep_member [OF r x] qrep_disjoint [OF r x] dlist_distinct [OF d]
    by (auto simp: unqueued_def next_map_def)
  ultimately show ?thesis using F' by blast
qed

lemma qrep_pop:
  assumes r: "qrep F h qs" and q: "q \<noteq> Q_ready" and x: "qs q = x # xs"
  shows "\<exists>l F'. melon_dlist_pop fiber_link (h q) F = Inr (l, x, F') \<and>
    qrep F' (h(q := l)) (qs(q := xs)) \<and> same_but_queues F F' \<and> unqueued F' (qs(q := xs)) x \<and>
    (\<forall>p. p \<notin> set (qs q) \<longrightarrow> F' p = F p)"
proof -
  have "h q = x" "x \<noteq> NULL" using dlist_head [of fiber_link F "h q" x xs] qrep_queue [OF r q] x by auto
  then show ?thesis
    using qrep_unlink [OF r q, of x] x by (auto simp: melon_dlist_pop_def)
qed

lemma qrep_ready_push:
  assumes r: "qrep F h qs" and x: "\<And>r. x \<notin> set (qs r)" "x \<noteq> NULL" "F x = Some f"
  shows "\<exists>F'. melon_list_push fiber_link (h Q_ready) x F = Inr (x, F') \<and>
    qrep F' (h(Q_ready := x)) (qs(Q_ready := qs Q_ready @ [x])) \<and> same_but_queues F F' \<and>
    (\<forall>p. p \<noteq> x \<longrightarrow> p \<notin> set (qs Q_ready) \<longrightarrow> F' p = F p)"
proof -
  obtain F' where F': "melon_list_push fiber_link (h Q_ready) x F = Inr (x, F')"
    "slist fiber_link F' x (qs Q_ready @ [x])" "only_next fiber_link F F'"
    "\<forall>p. p \<notin> insert x (set (qs Q_ready)) \<longrightarrow> F' p = F p"
    using fiber_list.melon_list_push_spec [OF qrep_ready [OF r] x(1,2,3)] by blast
  moreover have "qrep F' (h(Q_ready := x)) (qs(Q_ready := qs Q_ready @ [x]))"
    by (rule qrep_update [OF r, where S = "{x}"]) (use F' x in \<open>auto simp: queue_at_def\<close>)
  ultimately show ?thesis using only_next_queues by auto
qed

lemma qrep_ready_pop:
  assumes r: "qrep F h qs" and x: "qs Q_ready = x # xs"
  shows "\<exists>l F'. melon_list_pop fiber_link (h Q_ready) F = Inr (l, x, F') \<and>
    qrep F' (h(Q_ready := l)) (qs(Q_ready := xs)) \<and> same_but_queues F F' \<and> unqueued F' (qs(Q_ready := xs)) x \<and>
    (\<forall>p. p \<notin> set (qs Q_ready) \<longrightarrow> F' p = F p)"
proof -
  have s: "slist fiber_link F (h Q_ready) (x # xs)" using qrep_ready [OF r] x by simp
  obtain l F' where F': "melon_list_pop fiber_link (h Q_ready) F = Inr (l, x, F')"
    "slist fiber_link F' l xs" "next_map fiber_link F' x = Some NULL" "only_next fiber_link F F'"
    "\<forall>p. p \<notin> set (x # xs) \<longrightarrow> F' p = F p"
    using fiber_list.melon_list_pop_spec [OF s] by blast
  have "qrep F' (h(Q_ready := l)) (qs(Q_ready := xs))"
    by (rule qrep_update [OF r, where S = "{}"]) (use F' x in \<open>auto simp: queue_at_def\<close>)
  moreover have "unqueued F' (qs(Q_ready := xs)) x"
    using F'(3) s qrep_member [OF r, of x Q_ready] qrep_disjoint [OF r, of x Q_ready] x
    by (auto simp: unqueued_def next_map_def slist_def)
  ultimately show ?thesis using F' x only_next_queues by auto
qed

end
