(* ===== verification/Melon_Spec.thy ===== *)
theory Melon_Spec
  imports Melon_Queues
begin

text \<open>
  The specification state and the refinement relation. A specification state keeps the
  queues and the timer queue as lists, and the rest of the world with every list pointer
  erased. \<open>rep w s\<close> relates a world to its specification. Each primitive of the code
  (a write to a member that is no link, a push, a pop, an unlink) is related here to its
  counterpart on specification states; the components compose these steps.
\<close>

section \<open>Erasing the list pointers\<close>

definition core :: "melon_fiber \<Rightarrow> melon_fiber" where
  "core f = f\<lparr>f_next := NULL, f_prev := NULL, f_timer_next := NULL, f_timer_prev := NULL\<rparr>"

definition cores :: "(ptr \<rightharpoonup> melon_fiber) \<Rightarrow> ptr \<rightharpoonup> melon_fiber" where
  "cores F = (\<lambda>p. map_option core (F p))"

definition bare_mutex :: "melon_mutex \<Rightarrow> melon_mutex" where
  "bare_mutex m = m\<lparr>m_lock_queue := NULL\<rparr>"

definition bare_cond :: "melon_cond \<Rightarrow> melon_cond" where
  "bare_cond c = c\<lparr>c_wait_queue := NULL\<rparr>"

definition bare_fd :: "melon_fd \<Rightarrow> melon_fd" where
  "bare_fd d = d\<lparr>read_queue := NULL, write_queue := NULL\<rparr>"

definition bare_mutexes :: "(ptr \<rightharpoonup> melon_mutex) \<Rightarrow> ptr \<rightharpoonup> melon_mutex" where
  "bare_mutexes M = (\<lambda>m. map_option bare_mutex (M m))"

definition bare_conds :: "(ptr \<rightharpoonup> melon_cond) \<Rightarrow> ptr \<rightharpoonup> melon_cond" where
  "bare_conds C = (\<lambda>c. map_option bare_cond (C c))"

definition bare_io :: "(nat \<rightharpoonup> melon_fd) \<Rightarrow> nat \<rightharpoonup> melon_fd" where
  "bare_io io = (\<lambda>i. map_option bare_fd (io i))"

definition bare_melon :: "melon \<Rightarrow> melon" where
  "bare_melon g = g\<lparr>g_ready := NULL, g_timer_queue := NULL, g_io := bare_io (g_io g)\<rparr>"

definition erase :: "world \<Rightarrow> world" where
  "erase w = w\<lparr>fibers := cores (fibers w), mutexes := bare_mutexes (mutexes w),
     conds := bare_conds (conds w), g_melon := bare_melon (g_melon w), signal_list := NULL\<rparr>"

record spec =
  sp_world :: world
  sp_queues :: queues
  sp_timers :: "ptr list"

definition wrep :: "world \<Rightarrow> queues \<Rightarrow> ptr list \<Rightarrow> bool" where
  "wrep w qs ts \<longleftrightarrow> qrep (fibers w) (qhead w) qs \<and> trep (fibers w) (g_timer_queue (g_melon w)) ts \<and>
     fibers w NULL = None \<and>
     (\<forall>x f. fibers w x = Some f \<longrightarrow> (\<forall>q. x \<notin> set (qs q)) \<longrightarrow> f_next f = NULL)"

definition rep :: "world \<Rightarrow> spec \<Rightarrow> bool" where
  "rep w s \<longleftrightarrow> sp_world s = erase w \<and> wrep w (sp_queues s) (sp_timers s)"

text \<open>No queue of the specification holds the fiber.\<close>

definition idle :: "spec \<Rightarrow> ptr \<Rightarrow> bool" where
  "idle s x \<longleftrightarrow> x \<noteq> NULL \<and> fibers (sp_world s) x \<noteq> None \<and> (\<forall>q. x \<notin> set (sp_queues s q))"

lemma idleD: "rep w s \<Longrightarrow> idle s x \<Longrightarrow> unqueued (fibers w) (sp_queues s) x"
  by (auto simp: rep_def idle_def unqueued_def wrep_def erase_def cores_def)

lemma core_simps [simp]:
  "f_next (core f) = NULL" "f_prev (core f) = NULL" "f_timer_next (core f) = NULL" "f_timer_prev (core f) = NULL"
  "f_timer (core f) = f_timer f" "f_timer_cb (core f) = f_timer_cb f" "f_timer_ctx (core f) = f_timer_ctx f"
  "f_lock_count (core f) = f_lock_count f" "f_cond_mutex (core f) = f_cond_mutex f"
  "f_waited_event (core f) = f_waited_event f" "f_lock (core f) = f_lock f" "f_io_canceled (core f) = f_io_canceled f"
  "f_join_mutex (core f) = f_join_mutex f" "f_join_cond (core f) = f_join_cond f" "f_sem_nb (core f) = f_sem_nb f"
  "f_join_is_finished (core f) = f_join_is_finished f" "f_join_is_detached (core f) = f_join_is_detached f"
  "f_join_retval (core f) = f_join_retval f"
  by (simp_all add: core_def)

lemma cores_queues: "same_but_queues F F' \<Longrightarrow> cores F' = cores F"
proof
  fix p
  assume s: "same_but_queues F F'"
  show "cores F' p = cores F p"
    by (cases "F p"; use s in \<open>auto simp: cores_def core_def same_but_queues_None elim: same_but_queuesE\<close>)
qed

lemma cores_timers: "same_but_timers F F' \<Longrightarrow> cores F' = cores F"
proof
  fix p
  assume s: "same_but_timers F F'"
  show "cores F' p = cores F p"
    by (cases "F p"; use s in \<open>auto simp: cores_def core_def same_but_timers_None elim: same_but_timersE\<close>)
qed

lemma cores_upd: "cores (F(p \<mapsto> f)) = (cores F)(p \<mapsto> core f)"
  by (auto simp: cores_def)

lemma bare_upd:
  "bare_mutexes (M(p \<mapsto> x)) = (bare_mutexes M)(p \<mapsto> bare_mutex x)"
  "bare_conds (C(p \<mapsto> y)) = (bare_conds C)(p \<mapsto> bare_cond y)"
  "bare_io (I(i \<mapsto> d)) = (bare_io I)(i \<mapsto> bare_fd d)"
  by (auto simp: bare_mutexes_def bare_conds_def bare_io_def)

lemma bare_same:
  "M p = Some x \<Longrightarrow> bare_mutexes (M(p \<mapsto> x\<lparr>m_lock_queue := l\<rparr>)) = bare_mutexes M"
  "C p = Some y \<Longrightarrow> bare_conds (C(p \<mapsto> y\<lparr>c_wait_queue := l\<rparr>)) = bare_conds C"
  "I i = Some d \<Longrightarrow> bare_io (I(i \<mapsto> d\<lparr>read_queue := l\<rparr>)) = bare_io I"
  "I i = Some d \<Longrightarrow> bare_io (I(i \<mapsto> d\<lparr>write_queue := l\<rparr>)) = bare_io I"
  by (auto simp: bare_mutexes_def bare_conds_def bare_io_def bare_mutex_def bare_cond_def bare_fd_def)

section \<open>Looking through the relation\<close>

lemma rep_fiber: "rep w s \<Longrightarrow> fibers w p = Some f \<Longrightarrow> fibers (sp_world s) p = Some (core f)"
  by (simp add: rep_def erase_def cores_def)

lemma rep_fiberE:
  assumes "rep w s" and "fibers (sp_world s) p = Some g"
  obtains f where "fibers w p = Some f" and "g = core f"
  using assms by (auto simp: rep_def erase_def cores_def)

lemma rep_mutexE:
  assumes "rep w s" and "mutexes (sp_world s) m = Some y"
  obtains x where "mutexes w m = Some x" and "y = bare_mutex x"
  using assms by (auto simp: rep_def erase_def bare_mutexes_def)

lemma rep_condE:
  assumes "rep w s" and "conds (sp_world s) c = Some y"
  obtains x where "conds w c = Some x" and "y = bare_cond x"
  using assms by (auto simp: rep_def erase_def bare_conds_def)

lemma bare_simps [simp]:
  "m_owner (bare_mutex m) = m_owner m" "m_lock_count (bare_mutex m) = m_lock_count m"
  "m_is_recursive (bare_mutex m) = m_is_recursive m" "m_lock (bare_mutex m) = m_lock m"
  "m_lock_queue (bare_mutex m) = NULL" "c_lock (bare_cond c) = c_lock c" "c_wait_queue (bare_cond c) = NULL"
  by (simp_all add: bare_mutex_def bare_cond_def)

lemma rep_current: "rep w s \<Longrightarrow> g_current_fiber (sp_world s) = g_current_fiber w"
  by (simp add: rep_def erase_def)

lemma rep_qrep: "rep w s \<Longrightarrow> qrep (fibers w) (qhead w) (sp_queues s)"
  by (simp add: rep_def wrep_def)

lemma rep_lock_queue: "rep w s \<Longrightarrow> mutexes w m = Some x \<Longrightarrow> m_lock_queue x = NULL \<longleftrightarrow> sp_queues s (Q_lock m) = []"
  using qrep_NULL_iff [OF rep_qrep, of w s "Q_lock m"] by simp

lemma rep_wait_queue: "rep w s \<Longrightarrow> conds w c = Some x \<Longrightarrow> c_wait_queue x = NULL \<longleftrightarrow> sp_queues s (Q_wait c) = []"
  using qrep_NULL_iff [OF rep_qrep, of w s "Q_wait c"] by simp

section \<open>Writes that change no list\<close>

lemma rep_mutex_upd:
  assumes "rep w s" and "mutexes w m = Some x" and "m_lock_queue x' = m_lock_queue x"
  shows "rep (w\<lparr>mutexes := (mutexes w)(m \<mapsto> x')\<rparr>)
    (s\<lparr>sp_world := (sp_world s)\<lparr>mutexes := (mutexes (sp_world s))(m \<mapsto> bare_mutex x')\<rparr>\<rparr>)"
proof -
  have "qhead (w\<lparr>mutexes := (mutexes w)(m \<mapsto> x')\<rparr>) q = qhead w q" for q
    using assms(2,3) by (cases q) auto
  then have "qhead (w\<lparr>mutexes := (mutexes w)(m \<mapsto> x')\<rparr>) = qhead w" by auto
  then show ?thesis using assms(1)
    by (simp add: rep_def wrep_def erase_def bare_upd)
qed

lemma rep_cond_upd:
  assumes "rep w s" and "conds w c = Some x" and "c_wait_queue x' = c_wait_queue x"
  shows "rep (w\<lparr>conds := (conds w)(c \<mapsto> x')\<rparr>)
    (s\<lparr>sp_world := (sp_world s)\<lparr>conds := (conds (sp_world s))(c \<mapsto> bare_cond x')\<rparr>\<rparr>)"
proof -
  have "qhead (w\<lparr>conds := (conds w)(c \<mapsto> x')\<rparr>) q = qhead w q" for q
    using assms(2,3) by (cases q) auto
  then have "qhead (w\<lparr>conds := (conds w)(c \<mapsto> x')\<rparr>) = qhead w" by auto
  then show ?thesis using assms(1)
    by (simp add: rep_def wrep_def erase_def bare_upd)
qed

lemma rep_fiber_upd:
  assumes r: "rep w s" and f: "fibers w p = Some f"
    and l: "f_next f' = f_next f" "f_prev f' = f_prev f" "f_timer_next f' = f_timer_next f" "f_timer_prev f' = f_timer_prev f"
    and t: "f_timer f' = f_timer f \<or> p \<notin> set (sp_timers s)"
  shows "rep (w\<lparr>fibers := (fibers w)(p \<mapsto> f')\<rparr>)
    (s\<lparr>sp_world := (sp_world s)\<lparr>fibers := (fibers (sp_world s))(p \<mapsto> core f')\<rparr>\<rparr>)"
proof -
  let ?w = "w\<lparr>fibers := (fibers w)(p \<mapsto> f')\<rparr>"
  have "qhead ?w q = qhead w q" for q by (cases q) auto
  then have h: "qhead ?w = qhead w" by auto
  have "qrep (fibers ?w) (qhead w) (sp_queues s)" "trep (fibers ?w) (g_timer_queue (g_melon w)) (sp_timers s)"
    using r f l t
    by (auto simp: rep_def wrep_def timer_of_def intro!: qrep_cong [THEN iffD2, of _ "fibers w"] trep_cong [THEN iffD2, of _ "fibers w"])
  then show ?thesis using r f l
    by (auto simp: rep_def wrep_def h erase_def cores_upd)
qed

text \<open>A write to \<^verbatim>\<open>g_melon\<close> that leaves its lists alone.\<close>

lemma rep_melon_upd:
  assumes r: "rep w s" and g: "g_ready g' = g_ready (g_melon w)" "g_timer_queue g' = g_timer_queue (g_melon w)"
    "g_io g' = g_io (g_melon w)"
  shows "rep (w\<lparr>g_melon := g'\<rparr>) (s\<lparr>sp_world := (sp_world s)\<lparr>g_melon := bare_melon g'\<rparr>\<rparr>)"
proof -
  have "qhead (w\<lparr>g_melon := g'\<rparr>) q = qhead w q" for q using g by (cases q) auto
  then have "qhead (w\<lparr>g_melon := g'\<rparr>) = qhead w" by auto
  then show ?thesis using r g by (simp add: rep_def wrep_def erase_def)
qed

lemma rep_other_upd:
  assumes "rep w s"
  shows "rep (w\<lparr>errno := e\<rparr>) (s\<lparr>sp_world := (sp_world s)\<lparr>errno := e\<rparr>\<rparr>)"
    and "rep (w\<lparr>g_current_fiber := x\<rparr>) (s\<lparr>sp_world := (sp_world s)\<lparr>g_current_fiber := x\<rparr>\<rparr>)"
    and "rep (w\<lparr>rwlocks := rw\<rparr>) (s\<lparr>sp_world := (sp_world s)\<lparr>rwlocks := rw\<rparr>\<rparr>)"
    and "rep (w\<lparr>sems := ss\<rparr>) (s\<lparr>sp_world := (sp_world s)\<lparr>sems := ss\<rparr>\<rparr>)"
    and "rep (w\<lparr>barriers := bs\<rparr>) (s\<lparr>sp_world := (sp_world s)\<lparr>barriers := bs\<rparr>\<rparr>)"
    and "rep (w\<lparr>stacks := st\<rparr>) (s\<lparr>sp_world := (sp_world s)\<lparr>stacks := st\<rparr>\<rparr>)"
proof -
  have "qhead (w\<lparr>errno := e\<rparr>) q = qhead w q" "qhead (w\<lparr>g_current_fiber := x\<rparr>) q = qhead w q"
    "qhead (w\<lparr>rwlocks := rw\<rparr>) q = qhead w q" "qhead (w\<lparr>sems := ss\<rparr>) q = qhead w q"
    "qhead (w\<lparr>barriers := bs\<rparr>) q = qhead w q" "qhead (w\<lparr>stacks := st\<rparr>) q = qhead w q" for q
    by (cases q; simp)+
  then have "qhead (w\<lparr>errno := e\<rparr>) = qhead w" "qhead (w\<lparr>g_current_fiber := x\<rparr>) = qhead w"
    "qhead (w\<lparr>rwlocks := rw\<rparr>) = qhead w" "qhead (w\<lparr>sems := ss\<rparr>) = qhead w"
    "qhead (w\<lparr>barriers := bs\<rparr>) = qhead w" "qhead (w\<lparr>stacks := st\<rparr>) = qhead w"
    by blast+
  then show "rep (w\<lparr>errno := e\<rparr>) (s\<lparr>sp_world := (sp_world s)\<lparr>errno := e\<rparr>\<rparr>)"
    and "rep (w\<lparr>g_current_fiber := x\<rparr>) (s\<lparr>sp_world := (sp_world s)\<lparr>g_current_fiber := x\<rparr>\<rparr>)"
    and "rep (w\<lparr>rwlocks := rw\<rparr>) (s\<lparr>sp_world := (sp_world s)\<lparr>rwlocks := rw\<rparr>\<rparr>)"
    and "rep (w\<lparr>sems := ss\<rparr>) (s\<lparr>sp_world := (sp_world s)\<lparr>sems := ss\<rparr>\<rparr>)"
    and "rep (w\<lparr>barriers := bs\<rparr>) (s\<lparr>sp_world := (sp_world s)\<lparr>barriers := bs\<rparr>\<rparr>)"
    and "rep (w\<lparr>stacks := st\<rparr>) (s\<lparr>sp_world := (sp_world s)\<lparr>stacks := st\<rparr>\<rparr>)"
    using assms by (simp_all add: rep_def wrep_def erase_def)
qed

section \<open>Queue operations\<close>

text \<open>The assignment to the pointer of a queue.\<close>

fun set_qhead :: "qid \<Rightarrow> ptr \<Rightarrow> world \<Rightarrow> world" where
  "set_qhead Q_ready l w = w\<lparr>g_melon := (g_melon w)\<lparr>g_ready := l\<rparr>\<rparr>"
| "set_qhead (Q_lock m) l w = w\<lparr>mutexes := (mutexes w)(m \<mapsto> (the (mutexes w m))\<lparr>m_lock_queue := l\<rparr>)\<rparr>"
| "set_qhead (Q_wait c) l w = w\<lparr>conds := (conds w)(c \<mapsto> (the (conds w c))\<lparr>c_wait_queue := l\<rparr>)\<rparr>"
| "set_qhead (Q_read i) l w = w\<lparr>g_melon := (g_melon w)\<lparr>g_io := (g_io (g_melon w))(i \<mapsto> (the (g_io (g_melon w) i))\<lparr>read_queue := l\<rparr>)\<rparr>\<rparr>"
| "set_qhead (Q_write i) l w = w\<lparr>g_melon := (g_melon w)\<lparr>g_io := (g_io (g_melon w))(i \<mapsto> (the (g_io (g_melon w) i))\<lparr>write_queue := l\<rparr>)\<rparr>\<rparr>"
| "set_qhead Q_signal l w = w\<lparr>signal_list := l\<rparr>"

fun has_queue :: "world \<Rightarrow> qid \<Rightarrow> bool" where
  "has_queue w Q_ready = True"
| "has_queue w (Q_lock m) = (mutexes w m \<noteq> None)"
| "has_queue w (Q_wait c) = (conds w c \<noteq> None)"
| "has_queue w (Q_read i) = (g_io (g_melon w) i \<noteq> None)"
| "has_queue w (Q_write i) = (g_io (g_melon w) i \<noteq> None)"
| "has_queue w Q_signal = True"

lemma qhead_set_qhead:
  assumes "has_queue w q"
  shows "qhead (set_qhead q l (w\<lparr>fibers := F\<rparr>)) = (qhead w)(q := l)"
proof
  fix r
  show "qhead (set_qhead q l (w\<lparr>fibers := F\<rparr>)) r = ((qhead w)(q := l)) r"
    using assms by (cases q; cases r) (auto split: option.splits)
qed

lemma fibers_set_qhead [simp]: "fibers (set_qhead q l w) = fibers w"
  by (cases q) auto

lemma timer_queue_set_qhead [simp]: "g_timer_queue (g_melon (set_qhead q l w)) = g_timer_queue (g_melon w)"
  by (cases q) auto

lemma erase_set_qhead: "has_queue w q \<Longrightarrow> erase (set_qhead q l w) = erase w"
  by (cases q) (auto simp: erase_def bare_melon_def bare_same)

lemma rep_queue_step:
  assumes r: "rep w s" and q: "has_queue w q"
    and F: "qrep F' ((qhead w)(q := l)) qs'" "same_but_queues (fibers w) F'"
    and n: "\<And>x f. F' x = Some f \<Longrightarrow> (\<forall>r. x \<notin> set (qs' r)) \<Longrightarrow> f_next f = NULL"
  shows "rep (set_qhead q l (w\<lparr>fibers := F'\<rparr>)) (s\<lparr>sp_queues := qs'\<rparr>)"
proof -
  have "has_queue (w\<lparr>fibers := F'\<rparr>) q" using q by (cases q) auto
  then have "erase (set_qhead q l (w\<lparr>fibers := F'\<rparr>)) = erase w"
    using cores_queues [OF F(2)] by (simp add: erase_set_qhead) (simp add: erase_def)
  moreover have "fibers w NULL = None" "trep (fibers w) (g_timer_queue (g_melon w)) (sp_timers s)"
    using r by (auto simp: rep_def wrep_def)
  ultimately show ?thesis
    using r F n q by (simp add: rep_def wrep_def qhead_set_qhead trep_queues same_but_queues_None)
qed

lemma rep_lone:
  assumes "rep w s" and "fibers w x = Some f" and "\<forall>q. x \<notin> set (sp_queues s q)"
  shows "f_next f = NULL"
  using assms by (auto simp: rep_def wrep_def)

text \<open>The operations on one queue of the specification.\<close>

definition sp_enq :: "qid \<Rightarrow> ptr \<Rightarrow> spec \<Rightarrow> spec" where
  "sp_enq q x s = s\<lparr>sp_queues := (sp_queues s)(q := sp_queues s q @ [x])\<rparr>"

definition sp_deq :: "qid \<Rightarrow> spec \<Rightarrow> spec" where
  "sp_deq q s = s\<lparr>sp_queues := (sp_queues s)(q := tl (sp_queues s q))\<rparr>"

definition sp_del :: "qid \<Rightarrow> ptr \<Rightarrow> spec \<Rightarrow> spec" where
  "sp_del q x s = s\<lparr>sp_queues := (sp_queues s)(q := remove1 x (sp_queues s q))\<rparr>"

lemma sp_ops_world [simp]:
  "sp_world (sp_enq q x s) = sp_world s" "sp_timers (sp_enq q x s) = sp_timers s"
  "sp_world (sp_deq q s) = sp_world s" "sp_timers (sp_deq q s) = sp_timers s"
  "sp_world (sp_del q x s) = sp_world s" "sp_timers (sp_del q x s) = sp_timers s"
  by (simp_all add: sp_enq_def sp_deq_def sp_del_def)

lemma sp_ops_queues:
  "sp_queues (sp_enq q x s) = (sp_queues s)(q := sp_queues s q @ [x])"
  "sp_queues (sp_deq q s) = (sp_queues s)(q := tl (sp_queues s q))"
  "sp_queues (sp_del q x s) = (sp_queues s)(q := remove1 x (sp_queues s q))"
  by (simp_all add: sp_enq_def sp_deq_def sp_del_def)

lemma rep_push:
  assumes r: "rep w s" and q: "has_queue w q" "q \<noteq> Q_ready" and x: "idle s x"
  shows "\<exists>l F'. fiber_push (qhead w q) x w = Inr (l, w\<lparr>fibers := F'\<rparr>) \<and>
    rep (set_qhead q l (w\<lparr>fibers := F'\<rparr>)) (sp_enq q x s) \<and> same_but_queues (fibers w) F'"
proof -
  have u: "unqueued (fibers w) (sp_queues s) x" using idleD [OF r x] .
  then obtain f where f: "\<And>q. x \<notin> set (sp_queues s q)" "x \<noteq> NULL" "fibers w x = Some f" by (auto simp: unqueued_def)
  obtain F' where F': "melon_dlist_push fiber_link (qhead w q) x (fibers w) = Inr (hd (sp_queues s q @ [x]), F')"
    "qrep F' ((qhead w)(q := hd (sp_queues s q @ [x]))) ((sp_queues s)(q := sp_queues s q @ [x]))"
    "same_but_queues (fibers w) F'" "\<forall>p. p \<noteq> x \<longrightarrow> p \<notin> set (sp_queues s q) \<longrightarrow> F' p = fibers w p"
    using qrep_push [OF rep_qrep [OF r] q(2) f] by blast
  have "rep (set_qhead q (hd (sp_queues s q @ [x])) (w\<lparr>fibers := F'\<rparr>)) (sp_enq q x s)"
    unfolding sp_enq_def
  proof (rule rep_queue_step [OF r q(1) F'(2,3)])
    fix y g
    assume "F' y = Some g" and y: "\<forall>r. y \<notin> set (((sp_queues s)(q := sp_queues s q @ [x])) r)"
    moreover have "y \<notin> set (sp_queues s r)" for r using y [rule_format, of r] by (auto split: if_splits)
    moreover have "y \<noteq> x" using y [rule_format, of q] by auto
    ultimately show "f_next g = NULL" using F'(4) rep_lone [OF r] by metis
  qed
  with F' show ?thesis by (auto simp: fiber_push_def)
qed

lemma rep_unlink:
  assumes r: "rep w s" and q: "has_queue w q" "q \<noteq> Q_ready" and x: "x \<in> set (sp_queues s q)"
  shows "\<exists>l F'. fiber_unlink (qhead w q) x w = Inr (l, w\<lparr>fibers := F'\<rparr>) \<and>
    rep (set_qhead q l (w\<lparr>fibers := F'\<rparr>)) (sp_del q x s) \<and> same_but_queues (fibers w) F' \<and> idle (sp_del q x s) x"
proof -
  let ?qs = "(sp_queues s)(q := remove1 x (sp_queues s q))"
  obtain l F' where F': "melon_dlist_unlink fiber_link (qhead w q) x (fibers w) = Inr (l, F')"
    "qrep F' ((qhead w)(q := l)) ?qs" "same_but_queues (fibers w) F'" "unqueued F' ?qs x"
    "\<forall>p. p \<notin> set (sp_queues s q) \<longrightarrow> F' p = fibers w p"
    using qrep_unlink [OF rep_qrep [OF r] q(2) x] by blast
  have "rep (set_qhead q l (w\<lparr>fibers := F'\<rparr>)) (sp_del q x s)"
    unfolding sp_del_def
  proof (rule rep_queue_step [OF r q(1) F'(2,3)])
    fix y g
    assume g: "F' y = Some g" and y: "\<forall>r. y \<notin> set (?qs r)"
    show "f_next g = NULL"
    proof (cases "y = x")
      case True
      with g F'(4) show ?thesis by (auto simp: unqueued_def)
    next
      case False
      then have "y \<notin> set (sp_queues s r)" for r using y [rule_format, of r] by (auto split: if_splits)
      then show ?thesis using F'(5) g rep_lone [OF r] by metis
    qed
  qed
  moreover have "idle (sp_del q x s) x"
    using F'(4) qrep_member [OF rep_qrep [OF r] x] r
    by (auto simp: idle_def unqueued_def sp_ops_queues rep_def erase_def cores_def)
  ultimately show ?thesis using F' by (auto simp: fiber_unlink_def)
qed

lemma rep_pop:
  assumes r: "rep w s" and q: "has_queue w q" "q \<noteq> Q_ready" and x: "sp_queues s q = x # xs"
  shows "\<exists>l F'. fiber_pop (qhead w q) w = Inr (l, x, w\<lparr>fibers := F'\<rparr>) \<and>
    rep (set_qhead q l (w\<lparr>fibers := F'\<rparr>)) (sp_deq q s) \<and> same_but_queues (fibers w) F' \<and> idle (sp_deq q s) x"
proof -
  have "qhead w q = x" "x \<noteq> NULL"
    using dlist_head [of fiber_link "fibers w" "qhead w q" x xs] qrep_queue [OF rep_qrep [OF r] q(2)] x by auto
  moreover have "sp_del q x s = sp_deq q s" using x by (simp add: sp_del_def sp_deq_def)
  ultimately show ?thesis
    using rep_unlink [OF r q, of x] x
    by (auto simp: fiber_pop_def melon_dlist_pop_def fiber_unlink_def res_bind_eq_Inr)
qed

lemma rep_pop_empty:
  assumes r: "rep w s" and x: "sp_queues s q = []"
  shows "fiber_pop (qhead w q) w = Inr (NULL, NULL, w)"
proof -
  have "qhead w q = NULL" using qrep_NULL_iff [OF rep_qrep [OF r]] x by blast
  then show ?thesis by (simp add: fiber_pop_def melon_dlist_pop_def)
qed

lemma idle_sp_enq [simp]: "idle (sp_enq q x s) y \<longleftrightarrow> idle s y \<and> y \<noteq> x"
  by (auto simp: idle_def sp_ops_queues)

end
