(* ===== verification/Melon_Examples.thy ===== *)
theory Melon_Examples
  imports Melon_Spec
begin

text \<open>
  States with nothing queued, in which every specification has an easy representation,
  and one such state with three fibers, a plain mutex, a recursive mutex, a condition and
  a descriptor. The concrete instances of the properties start from it.
\<close>

definition quiet :: "world \<Rightarrow> bool" where
  "quiet w \<longleftrightarrow> (\<forall>q. qhead w q = NULL) \<and> g_timer_queue (g_melon w) = NULL \<and> fibers w NULL = None \<and>
     (\<forall>x f. fibers w x = Some f \<longrightarrow> f_next f = NULL)"

definition abs0 :: "world \<Rightarrow> spec" where
  "abs0 w = \<lparr>sp_world = erase w, sp_queues = (\<lambda>q. []), sp_timers = []\<rparr>"

lemma rep_abs0: "quiet w \<Longrightarrow> rep w (abs0 w)"
  by (auto simp: quiet_def abs0_def rep_def wrep_def qrep_def queue_at_def trep_def)

definition a_fiber :: melon_fiber where
  "a_fiber = \<lparr>f_lock = 0, f_next = NULL, f_prev = NULL, f_uc_link = NULL, f_ss_size = 0, f_ss_sp = NULL,
     f_waited_event = kEventNone, f_io_canceled = 0, f_start_cb = 1, f_start_ctx = NULL, f_timer = 0,
     f_timer_next = NULL, f_timer_prev = NULL, f_timer_cb = Cb_none, f_timer_ctx = Ctx_none,
     f_sched_next_cb = Sched_cb_none, f_sched_next_ctx = NULL, f_cond_mutex = NULL, f_lock_count = 0,
     f_sem_nb = 0, f_join_retval = NULL, f_join_mutex = NULL, f_join_cond = NULL, f_join_is_detached = 0,
     f_join_is_finished = 0, f_name = ''a'', f_stack_size = 0\<rparr>"

definition ex_world :: world where
  "ex_world = \<lparr>fibers = [1 \<mapsto> a_fiber, 2 \<mapsto> a_fiber, 3 \<mapsto> a_fiber],
     mutexes = [10 \<mapsto> \<lparr>m_lock = 0, m_owner = NULL, m_lock_queue = NULL, m_lock_count = 0, m_is_recursive = 0\<rparr>,
       11 \<mapsto> \<lparr>m_lock = 0, m_owner = 1, m_lock_queue = NULL, m_lock_count = 2, m_is_recursive = 1\<rparr>],
     conds = [20 \<mapsto> \<lparr>c_lock = 0, c_wait_queue = NULL\<rparr>],
     rwlocks = Map.empty, sems = Map.empty, barriers = Map.empty,
     g_melon = \<lparr>g_lock = 0, g_ready = NULL, g_io = [5 \<mapsto> \<lparr>read_queue = NULL, write_queue = NULL, is_in_epoll = 0\<rparr>],
       g_epoll_fd = 3, g_threads_nb = 1, g_timer_queue = NULL, g_stop = 0, g_fibers_count = 3, g_os_log = []\<rparr>,
     g_current_fiber = 1, errno = 0, signal_list = NULL,
     stacks = \<lparr>g_stack_list_lock = 0, g_stack_list = NULL, g_stack_list_nb = 0, stack_mem = Map.empty\<rparr>\<rparr>"

text \<open>The same state with another running fiber.\<close>

abbreviation on_fiber :: "ptr \<Rightarrow> world \<Rightarrow> world" where
  "on_fiber x w \<equiv> w\<lparr>g_current_fiber := x\<rparr>"

lemma core_a_fiber [simp]: "core a_fiber = a_fiber"
  by (simp add: core_def a_fiber_def)

lemma a_fiber_simps [simp]:
  "f_lock a_fiber = 0" "f_timer a_fiber = 0" "f_lock_count a_fiber = 0" "f_next a_fiber = NULL"
  by (simp_all add: a_fiber_def)

lemma quiet_ex_world: "quiet ex_world"
proof -
  have "qhead ex_world q = NULL" for q by (cases q) (auto simp: ex_world_def)
  then show ?thesis by (auto simp: quiet_def ex_world_def a_fiber_def NULL_def split: if_splits)
qed

lemma ex_spec_simps [simp]:
  "fibers (sp_world (abs0 ex_world)) = [1 \<mapsto> a_fiber, 2 \<mapsto> a_fiber, 3 \<mapsto> a_fiber]"
  "mutexes (sp_world (abs0 ex_world)) = mutexes ex_world" "conds (sp_world (abs0 ex_world)) = conds ex_world"
  "sp_queues (abs0 ex_world) q = []" "sp_timers (abs0 ex_world) = []"
  by (auto simp: abs0_def erase_def ex_world_def cores_def bare_mutexes_def bare_conds_def bare_mutex_def bare_cond_def)

lemma idle_ex_world: "x \<in> {1, 2, 3} \<Longrightarrow> idle (abs0 ex_world) x"
  by (auto simp: idle_def)

end
