(* ===== verification/Melon_Sched.thy ===== *)
theory Melon_Sched
  imports Melon_Examples
begin

text \<open>
  The scheduler of \<^verbatim>\<open>src/sched.c\<close>: fibers become ready at the tail of the ready
  queue and kernel threads take them from its head. \<^verbatim>\<open>melon_sched_next\<close> swaps to
  the thread's root context: in the model a function that reaches it returns
  \<open>Suspended k\<close>, with the rest of the function named by \<open>k\<close>.
\<close>

section \<open>Operations\<close>

datatype 'k outcome = Returned int | Suspended 'k

text \<open>
  A call followed by the rest of the caller: when the call suspends the fiber, the rest
  \<open>next\<close> waits under the name \<open>k\<close>.
\<close>

definition chain :: "('j outcome \<times> world) res \<Rightarrow> 'k \<Rightarrow> (world \<Rightarrow> ('k outcome \<times> world) res) \<Rightarrow> ('k outcome \<times> world) res" where
  "chain r k next = res_bind r (\<lambda>(p, w). case p of Returned _ \<Rightarrow> next w | Suspended _ \<Rightarrow> Inr (Suspended k, w))"

text \<open>The loop that moves a list of fibers to the ready queue, and counts them.\<close>

partial_function (option) sched_ready_loop :: "ptr \<Rightarrow> int \<Rightarrow> world \<Rightarrow> (int \<times> world) res option" where
  [code]: "sched_ready_loop list nb w =
    (case melon_list_pop fiber_link list (fibers w) of
       Inl e \<Rightarrow> Some (Inl e)
     | Inr r \<Rightarrow> (case r of (list, fiber, h) \<Rightarrow>
         if fiber = NULL then Some (Inr (nb, w\<lparr>fibers := h\<rparr>))
         else (case mod_fiber fiber (\<lambda>f. f\<lparr>f_waited_event := kEventNone\<rparr>) (w\<lparr>fibers := h\<rparr>) of
             Inl e \<Rightarrow> Some (Inl e)
           | Inr w \<Rightarrow> (case melon_list_push fiber_link (g_ready (g_melon w)) fiber (fibers w) of
                 Inl e \<Rightarrow> Some (Inl e)
               | Inr r \<Rightarrow> (case r of (ready, h) \<Rightarrow>
                   sched_ready_loop list (nb + 1)
                     (mod_melon (\<lambda>g. g\<lparr>g_ready := ready\<rparr>) (w\<lparr>fibers := h\<rparr>)))))))"

definition melon_sched_ready_locked :: "ptr \<Rightarrow> world \<Rightarrow> world res" where
  "melon_sched_ready_locked list w =
    res_bind (run_loop (sched_ready_loop list 0 w)) (\<lambda>(nb, w).
    if nb > 1 then Inr (os_event Broadcast_ready w)
    else if nb = 1 then Inr (os_event Signal_ready w)
    else Inr w)"

definition melon_sched_ready :: "ptr \<Rightarrow> world \<Rightarrow> world res" where
  "melon_sched_ready list w =
    res_bind (melon_sched_ready_locked list (glock_lock w)) (\<lambda>w. Inr (glock_unlock w))"

text \<open>The swap to the root context, up to the point where the fiber is no longer running.\<close>

definition melon_sched_next :: "world \<Rightarrow> world res" where
  "melon_sched_next w = assert_that (g_current_fiber w \<noteq> NULL) (Inr w)"

text \<open>
  One pass of the loop of \<^verbatim>\<open>sched_next\<close>: the runtime stops, the thread goes to
  sleep on \<^verbatim>\<open>ready_cond\<close>, or it takes a fiber, locks it and swaps to it.
\<close>

datatype sched_outcome = Sched_stopped | Sched_sleeps | Sched_runs

definition sched_next :: "world \<Rightarrow> (sched_outcome \<times> world) res" where
  "sched_next w =
    (let w = glock_lock (w\<lparr>g_current_fiber := NULL\<rparr>) in
     if g_stop (g_melon w) \<noteq> 0 then Inr (Sched_stopped, glock_unlock w)
     else
       res_bind (melon_list_pop fiber_link (g_ready (g_melon w)) (fibers w)) (\<lambda>(ready, fiber, h).
       let w = mod_melon (\<lambda>g. g\<lparr>g_ready := ready\<rparr>) (w\<lparr>fibers := h, g_current_fiber := fiber\<rparr>) in
       if fiber = NULL then Inr (Sched_sleeps, w)
       else
         let w = glock_unlock w in
         res_bind (load (fibers w) (g_current_fiber w)) (\<lambda>f.
         res_bind (melon_spin_lock (f_lock f)) (\<lambda>l.
         res_bind (mod_fiber (g_current_fiber w) (\<lambda>f. f\<lparr>f_lock := l\<rparr>) w) (\<lambda>w.
         Inr (Sched_runs, w))))))"

text \<open>The end of \<^verbatim>\<open>sched_next\<close>, when the fiber has swapped back.\<close>

definition sched_next_back :: "world \<Rightarrow> world res" where
  "sched_next_back w = mod_fiber (g_current_fiber w) (\<lambda>f. f\<lparr>f_lock := melon_spin_unlock (f_lock f)\<rparr>) w"

text \<open>
  The rest of the body of the loop of \<^verbatim>\<open>melon_sched_run\<close>; \<open>call\<close> calls the
  callback that the fiber left.
\<close>

definition sched_run_callback :: "(sched_callback \<Rightarrow> ptr \<Rightarrow> world \<Rightarrow> world res) \<Rightarrow> world \<Rightarrow> world res" where
  "sched_run_callback call w =
    (if g_current_fiber w = NULL then Inr w
     else
       res_bind (load (fibers w) (g_current_fiber w)) (\<lambda>f.
       if f_sched_next_cb f = Sched_cb_none then Inr w
       else
         let cb = f_sched_next_cb f; ctx = f_sched_next_ctx f in
         res_bind (mod_fiber (g_current_fiber w)
           (\<lambda>f. f\<lparr>f_sched_next_cb := Sched_cb_none, f_sched_next_ctx := NULL\<rparr>) w) (\<lambda>w.
         call cb ctx w)))"

section \<open>Specification\<close>

definition sp_os_event :: "os_event \<Rightarrow> spec \<Rightarrow> spec" where
  "sp_os_event e s = s\<lparr>sp_world := os_event e (sp_world s)\<rparr>"

definition sp_mod_fiber :: "ptr \<Rightarrow> (melon_fiber \<Rightarrow> melon_fiber) \<Rightarrow> spec \<Rightarrow> spec" where
  "sp_mod_fiber x f s =
    s\<lparr>sp_world := (sp_world s)\<lparr>fibers := (fibers (sp_world s))(x := map_option f (fibers (sp_world s) x))\<rparr>\<rparr>"

definition sp_ready :: "ptr \<Rightarrow> spec \<Rightarrow> spec" where
  "sp_ready x s =
    sp_os_event Signal_ready (sp_enq Q_ready x (sp_mod_fiber x (\<lambda>f. f\<lparr>f_waited_event := kEventNone\<rparr>) s))"

lemma rep_os_event: "rep w s \<Longrightarrow> rep (os_event e w) (sp_os_event e s)"
  using rep_melon_upd [of w s "(g_melon w)\<lparr>g_os_log := g_os_log (g_melon w) @ [e]\<rparr>"]
  by (simp add: os_event_def mod_melon_def sp_os_event_def rep_def erase_def bare_melon_def)

lemma rep_glock_lock: "rep w s \<Longrightarrow> rep (glock_lock w) (s\<lparr>sp_world := glock_lock (sp_world s)\<rparr>)"
  using rep_melon_upd [of w s "(g_melon w)\<lparr>g_lock := Suc (g_lock (g_melon w))\<rparr>"]
  by (simp add: glock_lock_def mod_melon_def rep_def erase_def bare_melon_def)

lemma rep_glock_unlock: "rep w s \<Longrightarrow> rep (glock_unlock w) (s\<lparr>sp_world := glock_unlock (sp_world s)\<rparr>)"
  using rep_melon_upd [of w s "(g_melon w)\<lparr>g_lock := g_lock (g_melon w) - 1\<rparr>"]
  by (simp add: glock_unlock_def mod_melon_def rep_def erase_def bare_melon_def)

lemma glock_cancel [simp]: "glock_unlock (glock_lock w) = w"
  by (simp add: glock_unlock_def glock_lock_def mod_melon_def)

lemma rep_mod_fiber:
  assumes r: "rep w s" and f: "fibers w x = Some f"
    and l: "f_next (g f) = f_next f" "f_prev (g f) = f_prev f" "f_timer_next (g f) = f_timer_next f" "f_timer_prev (g f) = f_timer_prev f"
    and t: "f_timer (g f) = f_timer f \<or> x \<notin> set (sp_timers s)" and c: "core (g f) = g (core f)"
  shows "rep (w\<lparr>fibers := (fibers w)(x \<mapsto> g f)\<rparr>) (sp_mod_fiber x g s)"
  using rep_fiber_upd [OF r f l t] rep_fiber [OF r f] c by (simp add: sp_mod_fiber_def)

lemma rep_ready_push:
  assumes r: "rep w s" and x: "idle s x"
  shows "\<exists>F'. melon_list_push fiber_link (g_ready (g_melon w)) x (fibers w) = Inr (x, F') \<and>
    rep (w\<lparr>fibers := F', g_melon := (g_melon w)\<lparr>g_ready := x\<rparr>\<rparr>) (sp_enq Q_ready x s)"
proof -
  have u: "unqueued (fibers w) (sp_queues s) x" using idleD [OF r x] .
  then obtain f where f: "\<And>q. x \<notin> set (sp_queues s q)" "x \<noteq> NULL" "fibers w x = Some f" by (auto simp: unqueued_def)
  let ?qs = "(sp_queues s)(Q_ready := sp_queues s Q_ready @ [x])"
  obtain F' where F': "melon_list_push fiber_link (qhead w Q_ready) x (fibers w) = Inr (x, F')"
    "qrep F' ((qhead w)(Q_ready := x)) ?qs" "same_but_queues (fibers w) F'"
    "\<forall>p. p \<noteq> x \<longrightarrow> p \<notin> set (sp_queues s Q_ready) \<longrightarrow> F' p = fibers w p"
    using qrep_ready_push [OF rep_qrep [OF r] f] by blast
  have "rep (set_qhead Q_ready x (w\<lparr>fibers := F'\<rparr>)) (sp_enq Q_ready x s)"
    unfolding sp_enq_def
  proof (rule rep_queue_step [OF r _ F'(2,3)])
    fix y g
    assume "F' y = Some g" and y: "\<forall>r. y \<notin> set (?qs r)"
    moreover have "y \<notin> set (sp_queues s r)" for r using y [rule_format, of r] by (auto split: if_splits)
    moreover have "y \<noteq> x" using y [rule_format, of Q_ready] by auto
    ultimately show "f_next g = NULL" using F'(4) rep_lone [OF r] by metis
  qed simp
  with F' show ?thesis by auto
qed

text \<open>
  Making one fiber ready refines \<open>sp_ready\<close>: the loop takes the fiber, appends it to
  the ready queue, and the second turn finds nothing more.
\<close>

lemma sched_ready_locked_refines:
  assumes r: "rep w s" and x: "idle s x"
  shows "\<exists>w'. melon_sched_ready_locked x w = Inr w' \<and> rep w' (sp_ready x s)"
proof -
  have u: "unqueued (fibers w) (sp_queues s) x" using idleD [OF r x] .
  then obtain f where f: "\<And>q. x \<notin> set (sp_queues s q)" "x \<noteq> NULL" "fibers w x = Some f" "f_next f = NULL"
    by (auto simp: unqueued_def)
  let ?g = "\<lambda>f. f\<lparr>f_waited_event := kEventNone\<rparr>"
  let ?w = "w\<lparr>fibers := (fibers w)(x \<mapsto> ?g f)\<rparr>" and ?s = "sp_mod_fiber x ?g s"
  have pop: "melon_list_pop fiber_link x (fibers w) = Inr (NULL, x, fibers w)"
    using f fiber_list.melon_list_pop_lone [of x "fibers w" f] by simp
  have rw: "rep ?w ?s" using rep_mod_fiber [OF r f(3), of ?g] by (simp add: core_def)
  moreover have "idle ?s x" using x by (auto simp: idle_def sp_mod_fiber_def)
  ultimately obtain F' where F': "melon_list_push fiber_link (g_ready (g_melon w)) x (fibers ?w) = Inr (x, F')"
    "rep (?w\<lparr>fibers := F', g_melon := (g_melon w)\<lparr>g_ready := x\<rparr>\<rparr>) (sp_enq Q_ready x ?s)"
    using rep_ready_push [of ?w ?s x] by auto
  let ?w' = "w\<lparr>fibers := F', g_melon := (g_melon w)\<lparr>g_ready := x\<rparr>\<rparr>"
  have "sched_ready_loop x 0 w = sched_ready_loop NULL 1 ?w'"
    using pop F' f by (subst sched_ready_loop.simps) (simp add: mod_fiber_def mod_melon_def)
  also have "\<dots> = Some (Inr (1, ?w'))"
    by (subst sched_ready_loop.simps) (simp add: fiber_list.melon_list_pop_empty)
  finally have "melon_sched_ready_locked x w = Inr (os_event Signal_ready ?w')"
    by (simp add: melon_sched_ready_locked_def)
  then show ?thesis using rep_os_event [OF F'(2), of Signal_ready] by (simp add: sp_ready_def)
qed

lemma sp_glock: "sp_world (sp_ready x (s\<lparr>sp_world := glock_lock (sp_world s)\<rparr>)) = glock_lock (sp_world (sp_ready x s))"
  by (simp add: sp_ready_def sp_os_event_def sp_mod_fiber_def sp_enq_def os_event_def mod_melon_def glock_lock_def)

lemma sched_ready_refines:
  assumes r: "rep w s" and x: "idle s x"
  shows "\<exists>w'. melon_sched_ready x w = Inr w' \<and> rep w' (sp_ready x s)"
proof -
  let ?s = "s\<lparr>sp_world := glock_lock (sp_world s)\<rparr>"
  have "idle ?s x" using x by (simp add: idle_def glock_lock_def mod_melon_def)
  then obtain w' where w': "melon_sched_ready_locked x (glock_lock w) = Inr w'" "rep w' (sp_ready x ?s)"
    using sched_ready_locked_refines [OF rep_glock_lock [OF r]] by blast
  have "(sp_ready x ?s)\<lparr>sp_world := glock_unlock (sp_world (sp_ready x ?s))\<rparr> = sp_ready x s"
    unfolding sp_glock glock_cancel
    by (simp add: sp_ready_def sp_os_event_def sp_mod_fiber_def sp_enq_def)
  with rep_glock_unlock [OF w'(2)] w'(1) show ?thesis by (simp add: melon_sched_ready_def)
qed

end
