(* ===== verification/Melon_Timer.thy ===== *)
theory Melon_Timer
  imports Melon_Sched "HOL-Library.Signed_Division"
begin

text \<open>
  The timer manager of \<^verbatim>\<open>src/timer_manager.c\<close>: the timer queue, a doubly linked
  list of fibers sorted by the absolute time of their timer, the pass of the manager's
  thread that expires the fibers whose time has come, and the sleeping functions. The
  callbacks live in other components, so the pass takes the function that calls them.
\<close>

section \<open>Time\<close>

text \<open>
  \<^verbatim>\<open>melon_time_t\<close> is a signed 64-bit count of nanoseconds, kept here as an integer.
  A time stamp of the monotonic clock is a pair of seconds and nanoseconds.
\<close>

definition in_int64 :: "int \<Rightarrow> bool" where
  "in_int64 t \<longleftrightarrow> - (2 ^ 63) \<le> t \<and> t < 2 ^ 63"

definition melon_time :: "int \<times> int \<Rightarrow> int res" where
  "melon_time tp = (let t = snd tp + fst tp * 1000 * 1000 * 1000 in
     if in_int64 (fst tp * 1000 * 1000 * 1000) \<and> in_int64 t then Inr t else Inl Signed_overflow)"

text \<open>The time stamp until which the manager sleeps; the divisions of C truncate.\<close>

definition timer_deadline :: "int \<Rightarrow> int \<times> int" where
  "timer_deadline t = (((t sdiv 1000) sdiv 1000) sdiv 1000, t smod (1000 * 1000 * 1000))"

section \<open>The timer queue\<close>

text \<open>The search for the place of a timer: the last fiber whose timer is smaller, or NULL.\<close>

partial_function (option) timer_find_loop :: "ptr \<Rightarrow> int \<Rightarrow> ptr \<Rightarrow> ptr \<Rightarrow> (ptr \<rightharpoonup> melon_fiber) \<Rightarrow> ptr res option" where
  [code]: "timer_find_loop queue timer prev cur h =
    (if cur = NULL then Some (Inr prev)
     else (case load h cur of
         Inl e \<Rightarrow> Some (Inl e)
       | Inr c \<Rightarrow>
           if timer \<le> f_timer c then Some (Inr prev)
           else if f_timer_next c = queue then Some (Inr cur)
           else timer_find_loop queue timer cur (f_timer_next c) h))"

definition melon_timer_push_locked :: "world \<Rightarrow> world res" where
  "melon_timer_push_locked w =
    (let fiber = melon_fiber_self w in
     res_bind (mod_fiber fiber (\<lambda>f. f\<lparr>f_timer_next := NULL\<rparr>) w) (\<lambda>w.
     res_bind (load (fibers w) fiber) (\<lambda>f.
     res_bind (run_loop (timer_find_loop (g_timer_queue (g_melon w)) (f_timer f) NULL
       (g_timer_queue (g_melon w)) (fibers w))) (\<lambda>prev.
     res_bind (melon_dlist_insert timer_link (g_timer_queue (g_melon w)) prev fiber (fibers w)) (\<lambda>(q, h).
     let w = mod_melon (\<lambda>g. g\<lparr>g_timer_queue := q\<rparr>) (w\<lparr>fibers := h\<rparr>) in
     Inr (if prev = NULL then os_event Signal_timer w else w))))))"

definition melon_timer_push :: "world \<Rightarrow> (unit outcome \<times> world) res" where
  "melon_timer_push w =
    res_bind (melon_timer_push_locked (glock_lock w)) (\<lambda>w.
    res_bind (melon_sched_next (glock_unlock w)) (\<lambda>w.
    Inr (Suspended (), w)))"

definition timer_unlink :: "ptr \<Rightarrow> world \<Rightarrow> world res" where
  "timer_unlink fiber w =
    res_bind (melon_dlist_unlink timer_link (g_timer_queue (g_melon w)) fiber (fibers w)) (\<lambda>(q, h).
    Inr (mod_melon (\<lambda>g. g\<lparr>g_timer_queue := q\<rparr>) (w\<lparr>fibers := h\<rparr>)))"

definition melon_timer_remove_locked :: "ptr \<Rightarrow> world \<Rightarrow> world res" where
  "melon_timer_remove_locked fiber w =
    res_bind (load (fibers w) fiber) (\<lambda>f.
    assert_that (f_timer_next f \<noteq> NULL) (
    assert_that (f_timer_prev f \<noteq> NULL) (
    timer_unlink fiber w)))"

section \<open>The manager's thread\<close>

partial_function (option) timer_expire_loop :: "(ptr \<Rightarrow> world \<Rightarrow> world res) \<Rightarrow> int \<Rightarrow> world \<Rightarrow> world res option" where
  [code]: "timer_expire_loop call time w =
    (if g_timer_queue (g_melon w) = NULL then Some (Inr w)
     else (case load (fibers w) (g_timer_queue (g_melon w)) of
         Inl e \<Rightarrow> Some (Inl e)
       | Inr c \<Rightarrow>
           if \<not> f_timer c \<le> time then Some (Inr w)
           else (case timer_unlink (g_timer_queue (g_melon w)) w of
               Inl e \<Rightarrow> Some (Inl e)
             | Inr w1 \<Rightarrow>
                 if f_timer_cb c = Cb_none then Some (Inl Assert_failed)
                 else (case call (g_timer_queue (g_melon w)) w1 of
                     Inl e \<Rightarrow> Some (Inl e)
                   | Inr w2 \<Rightarrow> timer_expire_loop call time w2))))"

datatype timer_wait = Wait_forever | Wait_until "int \<times> int"

text \<open>
  One turn of the loop of \<^verbatim>\<open>melon_timer_manager_loop\<close> at the time \<open>time\<close>, up
  to the wait on \<^verbatim>\<open>timer_cond\<close>.
\<close>

definition melon_timer_manager_pass :: "(ptr \<Rightarrow> world \<Rightarrow> world res) \<Rightarrow> int \<Rightarrow> world \<Rightarrow> (timer_wait \<times> world) res" where
  "melon_timer_manager_pass call time w =
    res_bind (run_loop (timer_expire_loop call time w)) (\<lambda>w.
    if g_timer_queue (g_melon w) \<noteq> NULL
    then res_bind (load (fibers w) (g_timer_queue (g_melon w))) (\<lambda>f. Inr (Wait_until (timer_deadline (f_timer f)), w))
    else Inr (Wait_forever, w))"

section \<open>Sleeping\<close>

definition melon_usleep_cb :: "ptr \<Rightarrow> world \<Rightarrow> world res" where
  "melon_usleep_cb fiber w = melon_sched_ready_locked fiber w"

text \<open>
  The sum \<^verbatim>\<open>melon_time() + usecs * 1000\<close> is computed on unsigned 64-bit values and
  stored in a signed one.
\<close>

definition usleep_timer :: "int \<Rightarrow> 64 word \<Rightarrow> int" where
  "usleep_timer now usecs = sint (word_of_int now + usecs * 1000)"

definition melon_usleep :: "int \<times> int \<Rightarrow> 64 word \<Rightarrow> world \<Rightarrow> (unit outcome \<times> world) res" where
  "melon_usleep clock usecs w =
    (let self = melon_fiber_self w in
     res_bind (mod_fiber self (\<lambda>f. f\<lparr>f_waited_event := kEventTimer\<rparr>) w) (\<lambda>w.
     res_bind (melon_time clock) (\<lambda>now.
     res_bind (mod_fiber self (\<lambda>f. f\<lparr>f_timer := usleep_timer now usecs, f_timer_cb := Cb_usleep,
       f_timer_ctx := Ctx_fiber self\<rparr>) w) (\<lambda>w.
     melon_timer_push w))))"

text \<open>The number of microseconds that \<^verbatim>\<open>melon_sleep\<close> passes on: a 32-bit product.\<close>

definition sleep_usecs :: "32 word \<Rightarrow> 64 word" where
  "sleep_usecs secs = ucast (secs * 1000 * 1000)"

definition melon_sleep :: "int \<times> int \<Rightarrow> 32 word \<Rightarrow> world \<Rightarrow> (unit outcome \<times> world) res" where
  "melon_sleep clock secs w = melon_usleep clock (sleep_usecs secs) w"

section \<open>Facts on time\<close>

lemma sdiv_nonneg: "0 \<le> a \<Longrightarrow> 0 < n \<Longrightarrow> a sdiv n = a div n" "0 \<le> a \<Longrightarrow> 0 < n \<Longrightarrow> (- a) sdiv n = - (a div n)"
  for a n :: int
  by (auto simp: signed_divide_int_def sgn_if)

lemma sdiv_thousand: "((t sdiv 1000) sdiv 1000) sdiv 1000 = (t::int) sdiv 1000000000"
proof (cases "0 \<le> t")
  case True
  then show ?thesis by (simp add: sdiv_nonneg pos_imp_zdiv_nonneg_iff zdiv_zmult2_eq [symmetric])
next
  case False
  then obtain a where "t = - a" "0 \<le> a" by (metis minus_minus neg_0_le_iff_le linear)
  then show ?thesis by (simp add: sdiv_nonneg pos_imp_zdiv_nonneg_iff zdiv_zmult2_eq [symmetric])
qed

section \<open>Specification\<close>

definition timer_insert :: "(ptr \<Rightarrow> int) \<Rightarrow> ptr \<Rightarrow> ptr list \<Rightarrow> ptr list" where
  "timer_insert t x ts = takeWhile (\<lambda>y. t y < t x) ts @ x # dropWhile (\<lambda>y. t y < t x) ts"

lemma set_timer_insert [simp]: "set (timer_insert t x ts) = insert x (set ts)"
  unfolding timer_insert_def by (metis Un_insert_right list.simps(15) set_append takeWhile_dropWhile_id)

lemma sorted_timer_insert: "sorted (map t ts) \<Longrightarrow> sorted (map t (timer_insert t x ts))"
proof (induction ts)
  case (Cons y ts)
  then show ?case
    by (auto simp: timer_insert_def dest: set_takeWhileD set_dropWhileD)
qed (simp add: timer_insert_def)

text \<open>The search stops at the first timer that is not smaller, or at the end of the circle.\<close>

lemma timer_find_loop_spec:
  assumes "dlist timer_link F queue (as @ ys)" and "ys \<noteq> []"
  shows "timer_find_loop queue t prev (hd ys) F =
    Some (Inr (last (prev # takeWhile (\<lambda>y. timer_of F y < t) ys)))"
  using assms
proof (induction ys arbitrary: as prev)
  case (Cons y ys)
  let ?xs = "as @ y # ys"
  have d: "distinct ?xs" using dlist_distinct [OF Cons.prems(1)] .
  obtain f where f: "F y = Some f" "f_timer_next f = cyc_succ ?xs y" "y \<noteq> NULL"
    using dlist_node [OF Cons.prems(1), of y] by auto
  have succ: "cyc_succ ?xs y = hd (ys @ as @ [y])" using cyc_succ_split [OF d] .
  have queue: "queue = hd ?xs" using dlist_head_in [OF Cons.prems(1)] by simp
  show ?case
  proof (cases "t \<le> f_timer f")
    case True
    with f show ?thesis by (subst timer_find_loop.simps) (simp add: timer_of_def)
  next
    case False
    show ?thesis
    proof (cases ys)
      case Nil
      with succ queue have "f_timer_next f = queue" using f by (cases as) auto
      with f False Nil show ?thesis by (subst timer_find_loop.simps) (simp add: timer_of_def)
    next
      case (Cons z zs)
      then have z: "f_timer_next f = z" using f succ by simp
      have "z \<noteq> queue" using d queue Cons by (cases as) auto
      then have "timer_find_loop queue t prev y F = timer_find_loop queue t y z F"
        using f z False by (subst timer_find_loop.simps) simp
      also have "\<dots> = Some (Inr (last (y # takeWhile (\<lambda>y. timer_of F y < t) ys)))"
        using Cons.IH [of "as @ [y]" y] Cons.prems Cons by simp
      finally show ?thesis using f False by (simp add: timer_of_def)
    qed
  qed
qed simp

lemma rep_timer_step:
  assumes r: "rep w s" and F: "trep F' l ts'" "same_but_timers (fibers w) F'"
  shows "rep (w\<lparr>fibers := F', g_melon := (g_melon w)\<lparr>g_timer_queue := l\<rparr>\<rparr>) (s\<lparr>sp_timers := ts'\<rparr>)"
proof -
  let ?w = "w\<lparr>fibers := F', g_melon := (g_melon w)\<lparr>g_timer_queue := l\<rparr>\<rparr>"
  have "qhead ?w q = qhead w q" for q by (cases q) auto
  then have h: "qhead ?w = qhead w" by auto
  have "F' x = Some f \<Longrightarrow> \<exists>g. fibers w x = Some g \<and> f_next f = f_next g" for x f
    using same_but_timers_back [OF F(2)] by fastforce
  then have "\<forall>x f. F' x = Some f \<longrightarrow> (\<forall>q. x \<notin> set (sp_queues s q)) \<longrightarrow> f_next f = NULL"
    using rep_lone [OF r] by metis
  then show ?thesis
    using r F cores_timers [OF F(2)] qrep_timers [OF F(2)] same_but_timers_None [OF F(2)]
    by (simp add: rep_def wrep_def h erase_def bare_melon_def)
qed

lemma timer_of_cores: "rep w s \<Longrightarrow> timer_of (fibers (sp_world s)) = timer_of (fibers w)"
  by (auto simp: rep_def erase_def cores_def timer_of_def fun_eq_iff split: option.splits)

lemma timer_of_same: "same_but_timers F F' \<Longrightarrow> timer_of F' = timer_of F"
proof
  fix p
  assume s: "same_but_timers F F'"
  show "timer_of F' p = timer_of F p"
    by (cases "F p"; use s in \<open>auto simp: timer_of_def elim: same_but_timersE\<close>)
      (metis s same_but_timers_None option.simps(4))
qed

definition timed :: "spec \<Rightarrow> ptr \<Rightarrow> bool" where
  "timed s x \<longleftrightarrow> x \<in> set (sp_timers s)"

definition sp_timer_add :: "ptr \<Rightarrow> spec \<Rightarrow> spec" where
  "sp_timer_add x s = s\<lparr>sp_timers := timer_insert (timer_of (fibers (sp_world s))) x (sp_timers s)\<rparr>"

definition sp_timer_del :: "ptr \<Rightarrow> spec \<Rightarrow> spec" where
  "sp_timer_del x s = s\<lparr>sp_timers := remove1 x (sp_timers s)\<rparr>"

text \<open>The timer thread is woken when the new timer is the first to expire.\<close>

definition sp_timer_push :: "ptr \<Rightarrow> spec \<Rightarrow> spec" where
  "sp_timer_push x s = (let s' = sp_timer_add x s in
     if hd (sp_timers s') = x then sp_os_event Signal_timer s' else s')"

lemma timer_insert_cases:
  "timer_insert t x ts = (if takeWhile (\<lambda>y. t y < t x) ts = [] then x # ts
     else butlast (takeWhile (\<lambda>y. t y < t x) ts) @ last (takeWhile (\<lambda>y. t y < t x) ts) #
       x # dropWhile (\<lambda>y. t y < t x) ts)"
  (is "_ = (if ?a = [] then _ else _)")
proof (cases "?a = []")
  case True
  then have "dropWhile (\<lambda>y. t y < t x) ts = ts" by (metis append_Nil takeWhile_dropWhile_id)
  with True show ?thesis by (simp add: timer_insert_def)
next
  case False
  then have "butlast ?a @ [last ?a] = ?a" by simp
  then have "butlast ?a @ last ?a # x # dropWhile (\<lambda>y. t y < t x) ts = ?a @ x # dropWhile (\<lambda>y. t y < t x) ts"
    by (metis append.assoc append_Cons append_Nil)
  with False show ?thesis by (simp add: timer_insert_def)
qed

lemma hd_timer_insert: "x \<notin> set ts \<Longrightarrow> hd (timer_insert t x ts) = x \<longleftrightarrow> takeWhile (\<lambda>y. t y < t x) ts = []"
  by (cases ts) (auto simp: timer_insert_def)

lemma trep_insert:
  assumes t: "trep F l ts" and x: "x \<notin> set ts" "x \<noteq> NULL" "F x = Some f"
  shows "\<exists>prev l' F'. run_loop (timer_find_loop l (f_timer f) NULL l F) = Inr prev \<and>
    melon_dlist_insert timer_link l prev x F = Inr (l', F') \<and> trep F' l' (timer_insert (timer_of F) x ts) \<and>
    same_but_timers F F' \<and> (prev = NULL \<longleftrightarrow> hd (timer_insert (timer_of F) x ts) = x)"
proof -
  from t have d: "dlist timer_link F l ts" and so: "sorted (map (timer_of F) ts)" by (auto simp: trep_def)
  let ?a = "takeWhile (\<lambda>y. timer_of F y < timer_of F x) ts"
  let ?b = "dropWhile (\<lambda>y. timer_of F y < timer_of F x) ts"
  have tx: "timer_of F x = f_timer f" using x by (simp add: timer_of_def)
  have find: "timer_find_loop l (f_timer f) NULL l F = Some (Inr (last (NULL # ?a)))"
  proof (cases "ts = []")
    case True
    with d show ?thesis by (subst timer_find_loop.simps) simp
  next
    case False
    then have "l = hd ts" using d by (simp add: dlist_def)
    with timer_find_loop_spec [of F l "[]" ts "f_timer f" NULL] d False tx show ?thesis by simp
  qed
  have nn: "NULL \<notin> set ts" using d by (simp add: dlist_def)
  have "\<exists>l' F'. melon_dlist_insert timer_link l (last (NULL # ?a)) x F = Inr (l', F') \<and>
    dlist timer_link F' l' (timer_insert (timer_of F) x ts) \<and> same_but_timers F F'"
  proof (cases "?a = []")
    case True
    then have "timer_insert (timer_of F) x ts = x # ts" by (simp add: timer_insert_cases)
    with True timer_list.melon_dlist_insert_front_spec [OF d x] show ?thesis by auto
  next
    case False
    have eq: "butlast ?a @ last ?a # ?b = ts"
      using False by (metis append.assoc append_Cons append_Nil append_butlast_last_id takeWhile_dropWhile_id)
    then have "dlist timer_link F l (butlast ?a @ last ?a # ?b)" "x \<notin> set (butlast ?a @ last ?a # ?b)"
      using d x by simp_all
    from timer_list.melon_dlist_insert_after_spec [OF this x(2,3)] False show ?thesis
      by (auto simp: timer_insert_cases)
  qed
  then obtain l' F' where F': "melon_dlist_insert timer_link l (last (NULL # ?a)) x F = Inr (l', F')"
    "dlist timer_link F' l' (timer_insert (timer_of F) x ts)" "same_but_timers F F'" by blast
  have "trep F' l' (timer_insert (timer_of F) x ts)"
    using F' so sorted_timer_insert timer_of_same [OF F'(3)] by (simp add: trep_def)
  moreover have "last (NULL # ?a) = NULL \<longleftrightarrow> ?a = []"
    using nn by (auto dest: set_takeWhileD) (metis last_in_set set_takeWhileD)
  ultimately show ?thesis using find F' x(1) by (simp add: hd_timer_insert)
qed

lemma timer_push_locked_refines:
  assumes r: "rep w s" and x: "g_current_fiber w = x" "x \<noteq> NULL" "fibers w x = Some f" "\<not> timed s x"
  shows "\<exists>w'. melon_timer_push_locked w = Inr w' \<and> rep w' (sp_timer_push x s)"
proof -
  let ?f = "f\<lparr>f_timer_next := NULL\<rparr>"
  let ?F = "(fibers w)(x \<mapsto> ?f)" and ?l = "g_timer_queue (g_melon w)"
  have st: "same_but_timers (fibers w) ?F"
    using timer_list.only_links_set_next [of "fibers w" "fibers w" x f NULL] x by simp
  have tt: "trep (fibers w) ?l (sp_timers s)" using r by (simp add: rep_def wrep_def)
  have tF: "trep ?F ?l (sp_timers s)"
    using tt x timer_of_same [OF st] by (simp add: trep_def timed_def)
  obtain prev l' F' where F': "run_loop (timer_find_loop ?l (f_timer f) NULL ?l ?F) = Inr prev"
    "melon_dlist_insert timer_link ?l prev x ?F = Inr (l', F')"
    "trep F' l' (timer_insert (timer_of ?F) x (sp_timers s))" "same_but_timers ?F F'"
    "prev = NULL \<longleftrightarrow> hd (timer_insert (timer_of ?F) x (sp_timers s)) = x"
    using trep_insert [OF tF, of x ?f] x by (auto simp: timed_def)
  let ?w = "w\<lparr>fibers := F', g_melon := (g_melon w)\<lparr>g_timer_queue := l'\<rparr>\<rparr>"
  have rw: "rep ?w (sp_timer_add x s)"
    unfolding sp_timer_add_def timer_of_cores [OF r] timer_of_same [OF st, symmetric]
    by (rule rep_timer_step [OF r F'(3) same_but_timers_trans [OF st F'(4)]])
  have "melon_timer_push_locked w = Inr (if prev = NULL then os_event Signal_timer ?w else ?w)"
    using x F'(1,2) by (simp add: melon_timer_push_locked_def melon_fiber_self_def mod_fiber_def mod_melon_def)
  moreover have "prev = NULL \<longleftrightarrow> hd (sp_timers (sp_timer_add x s)) = x"
    using F'(5) by (simp add: sp_timer_add_def timer_of_cores [OF r] timer_of_same [OF st])
  ultimately show ?thesis
    using rw rep_os_event [OF rw, of Signal_timer] by (auto simp: sp_timer_push_def Let_def)
qed

lemma timer_unlink_refines:
  assumes r: "rep w s" and x: "timed s x"
  shows "\<exists>w'. timer_unlink x w = Inr w' \<and> rep w' (sp_timer_del x s)"
proof -
  let ?ts = "sp_timers s" and ?l = "g_timer_queue (g_melon w)"
  have t: "trep (fibers w) ?l ?ts" and xs: "x \<in> set ?ts" using r x by (auto simp: rep_def wrep_def timed_def)
  then have d: "dlist timer_link (fibers w) ?l ?ts" by (simp add: trep_def)
  obtain l' F' where F': "melon_dlist_unlink timer_link ?l x (fibers w) = Inr (l', F')"
    "dlist timer_link F' l' (remove1 x ?ts)" "same_but_timers (fibers w) F'"
    using timer_list.melon_dlist_unlink_spec [OF d xs] by blast
  have "sorted (map (timer_of F') (remove1 x ?ts))"
    using t timer_of_same [OF F'(3)] by (simp add: trep_def sorted_map_remove1)
  then have "rep (w\<lparr>fibers := F', g_melon := (g_melon w)\<lparr>g_timer_queue := l'\<rparr>\<rparr>) (sp_timer_del x s)"
    unfolding sp_timer_del_def using rep_timer_step [OF r _ F'(3)] F' by (simp add: trep_def)
  then show ?thesis using F' by (simp add: timer_unlink_def mod_melon_def)
qed

lemma timer_remove_locked_refines:
  assumes r: "rep w s" and x: "timed s x"
  shows "\<exists>w'. melon_timer_remove_locked x w = Inr w' \<and> rep w' (sp_timer_del x s)"
proof -
  have d: "dlist timer_link (fibers w) (g_timer_queue (g_melon w)) (sp_timers s)" and xs: "x \<in> set (sp_timers s)"
    using r x by (auto simp: rep_def wrep_def trep_def timed_def)
  obtain f where f: "fibers w x = Some f" "f_timer_next f = cyc_succ (sp_timers s) x" "f_timer_prev f = cyc_pred (sp_timers s) x"
    using dlist_node [OF d xs] by auto
  have "cyc_succ (sp_timers s) x \<noteq> NULL" "cyc_pred (sp_timers s) x \<noteq> NULL"
    using cyc_succ_in [OF xs dlist_distinct [OF d]] cyc_pred_in [OF xs dlist_distinct [OF d]] d
    by (auto simp: dlist_def)
  then show ?thesis
    using timer_unlink_refines [OF r x] f by (simp add: melon_timer_remove_locked_def)
qed

section \<open>Properties\<close>

text \<open>
  C15: \<^verbatim>\<open>melon_timer_push_locked\<close> ends and puts the running fiber into the timer
  queue at its place: the queue stays sorted by deadline, gains exactly that fiber and
  keeps the order of the others; the timer thread is signalled exactly when the fiber is
  the first to expire.
\<close>

theorem timer_push_sorted:
  assumes r: "rep w s" and x: "g_current_fiber w = x" "x \<noteq> NULL" "fibers w x = Some f" "\<not> timed s x"
  shows "\<exists>w' ts'. melon_timer_push_locked w = Inr w' \<and> rep w' (sp_timer_push x s) \<and>
    ts' = sp_timers (sp_timer_push x s) \<and> sorted (map (timer_of (fibers w')) ts') \<and> set ts' = insert x (set (sp_timers s)) \<and>
    remove1 x ts' = sp_timers s \<and>
    g_os_log (g_melon w') = g_os_log (g_melon w) @ (if hd ts' = x then [Signal_timer] else [])"
proof -
  let ?t = "sp_timer_push x s"
  obtain w' where w': "melon_timer_push_locked w = Inr w'" "rep w' ?t" using timer_push_locked_refines [OF r x] by blast
  have ts: "sp_timers ?t = timer_insert (timer_of (fibers (sp_world s))) x (sp_timers s)"
    by (simp add: sp_timer_push_def sp_timer_add_def sp_os_event_def Let_def)
  have "x \<notin> set (takeWhile P (sp_timers s))" for P using x(4) by (auto simp: timed_def dest: set_takeWhileD)
  then have "remove1 x (sp_timers ?t) = sp_timers s"
    by (simp add: ts timer_insert_def remove1_append)
  moreover have "set (sp_timers ?t) = insert x (set (sp_timers s))" by (simp add: ts)
  moreover have "sorted (map (timer_of (fibers w')) (sp_timers ?t))" using w'(2) by (simp add: rep_def wrep_def trep_def)
  moreover have "g_os_log (g_melon w') = g_os_log (g_melon w) @ (if hd (sp_timers ?t) = x then [Signal_timer] else [])"
  proof -
    have "g_os_log (g_melon w') = g_os_log (g_melon (sp_world ?t))" "g_os_log (g_melon w) = g_os_log (g_melon (sp_world s))"
      using w'(2) r by (simp_all add: rep_def erase_def bare_melon_def)
    then show ?thesis by (simp add: ts sp_timer_push_def sp_timer_add_def sp_os_event_def os_event_def mod_melon_def Let_def)
  qed
  ultimately show ?thesis using w' by blast
qed

theorem timer_push_sorted_witness:
  "\<exists>w'. melon_timer_push_locked ex_world = Inr w' \<and> sorted (map (timer_of (fibers w')) [1])"
proof -
  have "fibers ex_world 1 = Some a_fiber" "g_current_fiber ex_world = 1" by (simp_all add: ex_world_def)
  from timer_push_sorted [OF rep_abs0 [OF quiet_ex_world] this(2) _ this(1)] show ?thesis
    by (auto simp: timed_def sp_timer_push_def sp_timer_add_def sp_os_event_def timer_insert_def Let_def)
qed

text \<open>
  The manager sleeps until the deadline it was given: reading the clock at the time
  stamp computed from a timer gives the timer back, and the stamp is well formed.
\<close>

theorem timer_deadline_roundtrip:
  assumes "0 \<le> t" and "t < 2 ^ 63"
  shows "melon_time (timer_deadline t) = Inr t \<and> 0 \<le> snd (timer_deadline t) \<and> snd (timer_deadline t) < 1000000000"
proof -
  have "t sdiv 1000000000 = t div 1000000000" using assms by (simp add: sdiv_nonneg)
  moreover have "t smod 1000000000 = t mod 1000000000" using assms by (cases "t = 0") (simp_all add: signed_modulo_int_def)
  moreover have "0 \<le> t div 1000000000 * 1000000000" using assms by simp
  moreover have "t div 1000000000 * 1000000000 \<le> t" using assms by simp
  ultimately show ?thesis
    using assms by (simp add: melon_time_def timer_deadline_def sdiv_thousand in_int64_def)
qed

theorem timer_deadline_roundtrip_witness: "melon_time (timer_deadline 1500000000) = Inr 1500000000"
  using timer_deadline_roundtrip [of 1500000000] by simp

text \<open>
  \<^verbatim>\<open>melon_sleep\<close> multiplies in 32 bits: the number of microseconds is right up to
  4294 seconds and wraps beyond, so that 4295 seconds become less than a second.
\<close>

theorem sleep_wraps:
  "unat (sleep_usecs secs) = unat secs * 1000000 mod 2 ^ 32 \<and> (unat secs \<le> 4294 \<longleftrightarrow> unat (sleep_usecs secs) = unat secs * 1000000)"
proof -
  have "unat (sleep_usecs secs) = take_bit 64 (unat (secs * 1000 * 1000))" by (simp add: sleep_usecs_def unsigned_ucast_eq)
  also have "\<dots> = unat (secs * 1000 * 1000)"
  proof (rule take_bit_nat_eq_self)
    have "unat (secs * 1000 * 1000) < 2 ^ LENGTH(32)" by (rule unsigned_less)
    then show "unat (secs * 1000 * 1000) < 2 ^ 64" by simp
  qed
  also have "\<dots> = unat (secs * 1000000)" by (simp add: mult.assoc)
  also have "\<dots> = unat secs * 1000000 mod 2 ^ 32" by (simp add: unat_word_ariths)
  finally have u: "unat (sleep_usecs secs) = unat secs * 1000000 mod 2 ^ 32" .
  have "unat secs \<le> 4294 \<longleftrightarrow> unat secs * 1000000 < 2 ^ 32" by auto
  also have "\<dots> \<longleftrightarrow> unat secs * 1000000 mod 2 ^ 32 = unat secs * 1000000"
    using mod_less_divisor [of "2 ^ 32" "unat secs * 1000000"] by (metis mod_less zero_less_numeral zero_less_power)
  finally show ?thesis using u by simp
qed

end
