(* ===== verification/Melon_Refine.thy ===== *)
theory Melon_Refine
  imports Melon_Timer
begin

text \<open>
  The calculus of the refinement proofs. \<open>wp r Q\<close> says that the run \<open>r\<close> ends
  without a fault and that its result satisfies \<open>Q\<close>. The rules of the collection
  \<open>wp\<close> run the code symbolically: each primitive (a load, a write, a spinlock, a queue
  operation) takes a world that represents a specification state to one that represents
  the next, so that a component proof only compares specification states.
\<close>

section \<open>Runs that end without a fault\<close>

definition wp :: "'a res \<Rightarrow> ('a \<Rightarrow> bool) \<Rightarrow> bool" where
  "wp r Q \<longleftrightarrow> (\<exists>v. r = Inr v \<and> Q v)"

named_theorems wp \<open>rules of the control structures\<close>
named_theorems step \<open>rules of the primitives, with the representation as the major premise\<close>

lemma wp_Inr [simp]: "wp (Inr v) Q = Q v"
  by (simp add: wp_def)

lemma wp_Inl [simp]: "wp (Inl e) Q = False"
  by (simp add: wp_def)

lemma wp_bind: "wp (res_bind r k) Q = wp r (\<lambda>v. wp (k v) Q)"
  by (cases r) auto

lemma wp_bindI [wp]: "wp r (\<lambda>v. wp (k v) Q) \<Longrightarrow> wp (res_bind r k) Q"
  by (simp add: wp_bind)

lemma wp_assertI [wp]: "b \<Longrightarrow> wp r Q \<Longrightarrow> wp (assert_that b r) Q"
  by simp

lemma wp_ifI [wp]: "(b \<Longrightarrow> wp r Q) \<Longrightarrow> (\<not> b \<Longrightarrow> wp r' Q) \<Longrightarrow> wp (if b then r else r') Q"
  by simp

lemma wp_InrI [wp]: "Q v \<Longrightarrow> wp (Inr v) Q"
  by simp

lemma wp_int_inc [wp]: "n < INT_MAX \<Longrightarrow> Q (n + 1) \<Longrightarrow> wp (int_inc n) Q"
  by simp

lemma wp_int_dec [wp]: "INT_MIN < n \<Longrightarrow> Q (n - 1) \<Longrightarrow> wp (int_dec n) Q"
  by simp

lemma rep_eq: "rep w s \<Longrightarrow> s = t \<Longrightarrow> rep w t"
  by simp

lemma wp_conseq: "wp r P \<Longrightarrow> (\<And>v. P v \<Longrightarrow> Q v) \<Longrightarrow> wp r Q"
  by (auto simp: wp_def)

lemma wp_refines: "\<exists>w'. r = Inr w' \<and> rep w' s \<Longrightarrow> (\<And>w'. rep w' s \<Longrightarrow> Q w') \<Longrightarrow> wp r Q"
  by (auto simp: wp_def)

text \<open>A run that returns a value represents a pair of that value and a specification state.\<close>

definition yields :: "'a \<times> spec \<Rightarrow> 'a \<times> world \<Rightarrow> bool" where
  "yields p r \<longleftrightarrow> fst r = fst p \<and> rep (snd r) (snd p)"

lemma yieldsI [step]: "rep w s \<Longrightarrow> p = (v, s) \<Longrightarrow> yields p (v, w)"
  by (simp add: yields_def)

lemma wp_yields: "wp r (yields p) \<longleftrightarrow> (\<exists>w'. r = Inr (fst p, w') \<and> rep w' (snd p))"
  by (auto simp: wp_def yields_def)

lemma wp_yieldsE: "wp r (yields p) \<Longrightarrow> (\<And>w'. rep w' (snd p) \<Longrightarrow> Q (fst p, w')) \<Longrightarrow> wp r Q"
  by (auto simp: wp_def yields_def)

section \<open>Specification states\<close>

definition sp_mod_mutex :: "ptr \<Rightarrow> (melon_mutex \<Rightarrow> melon_mutex) \<Rightarrow> spec \<Rightarrow> spec" where
  "sp_mod_mutex m g s =
    s\<lparr>sp_world := (sp_world s)\<lparr>mutexes := (mutexes (sp_world s))(m := map_option g (mutexes (sp_world s) m))\<rparr>\<rparr>"

definition sp_mod_cond :: "ptr \<Rightarrow> (melon_cond \<Rightarrow> melon_cond) \<Rightarrow> spec \<Rightarrow> spec" where
  "sp_mod_cond c g s =
    s\<lparr>sp_world := (sp_world s)\<lparr>conds := (conds (sp_world s))(c := map_option g (conds (sp_world s) c))\<rparr>\<rparr>"

text \<open>The spinlock of a mutex or of a condition set to a value.\<close>

definition sp_spin :: "ptr \<Rightarrow> int \<Rightarrow> spec \<Rightarrow> spec" where
  "sp_spin m v s = sp_mod_mutex m (\<lambda>x. x\<lparr>m_lock := v\<rparr>) s"

definition sp_cspin :: "ptr \<Rightarrow> int \<Rightarrow> spec \<Rightarrow> spec" where
  "sp_cspin c v s = sp_mod_cond c (\<lambda>x. x\<lparr>c_lock := v\<rparr>) s"

text \<open>A change of the rest of the world.\<close>

definition sp_lift :: "(world \<Rightarrow> world) \<Rightarrow> spec \<Rightarrow> spec" where
  "sp_lift h s = s\<lparr>sp_world := h (sp_world s)\<rparr>"

definition sp_errno :: "int \<Rightarrow> spec \<Rightarrow> spec" where
  "sp_errno n s = sp_lift (\<lambda>w. w\<lparr>errno := n\<rparr>) s"

abbreviation sp_self :: "spec \<Rightarrow> ptr" where
  "sp_self s \<equiv> g_current_fiber (sp_world s)"

abbreviation sp_mutex :: "spec \<Rightarrow> ptr \<Rightarrow> melon_mutex option" where
  "sp_mutex s \<equiv> mutexes (sp_world s)"

abbreviation sp_cond :: "spec \<Rightarrow> ptr \<Rightarrow> melon_cond option" where
  "sp_cond s \<equiv> conds (sp_world s)"

abbreviation sp_fiber :: "spec \<Rightarrow> ptr \<Rightarrow> melon_fiber option" where
  "sp_fiber s \<equiv> fibers (sp_world s)"

named_theorems sp_defs \<open>unfolding of the operations on specification states\<close>

lemmas [sp_defs] = sp_spin_def sp_cspin_def sp_errno_def sp_mod_mutex_def sp_mod_cond_def sp_mod_fiber_def sp_lift_def sp_enq_def sp_deq_def
  sp_del_def sp_os_event_def sp_timer_add_def sp_timer_del_def os_event_def mod_melon_def
  glock_lock_def glock_unlock_def

definition timer_signal :: "ptr \<Rightarrow> ptr list \<Rightarrow> os_event list" where
  "timer_signal x ts = (if hd ts = x then [Signal_timer] else [])"

lemma sp_timer_push_alt:
  "sp_timer_push x s = s\<lparr>sp_timers := timer_insert (timer_of (fibers (sp_world s))) x (sp_timers s),
     sp_world := (sp_world s)\<lparr>g_melon := (g_melon (sp_world s))\<lparr>g_os_log := g_os_log (g_melon (sp_world s)) @
       timer_signal x (timer_insert (timer_of (fibers (sp_world s))) x (sp_timers s))\<rparr>\<rparr>\<rparr>"
  by (simp add: sp_timer_push_def timer_signal_def sp_defs Let_def)

lemma sp_mutex_simps [simp]:
  "sp_mutex (sp_spin m v s) = (sp_mutex s)(m := map_option (\<lambda>x. x\<lparr>m_lock := v\<rparr>) (sp_mutex s m))" "sp_mutex (sp_cspin c v s) = sp_mutex s"
  "sp_mutex (sp_errno n s) = sp_mutex s"
  "sp_mutex (sp_mod_mutex m g s) = (sp_mutex s)(m := map_option g (sp_mutex s m))"
  "sp_mutex (sp_mod_cond c h s) = sp_mutex s" "sp_mutex (sp_mod_fiber x k s) = sp_mutex s"
  "sp_mutex (sp_os_event e s) = sp_mutex s" "sp_mutex (sp_ready x s) = sp_mutex s"
  "sp_mutex (sp_timer_add x s) = sp_mutex s" "sp_mutex (sp_timer_del x s) = sp_mutex s"
  "sp_mutex (sp_timer_push x s) = sp_mutex s" "sp_mutex (sp_lift glock_lock s) = sp_mutex s"
  "sp_mutex (sp_lift glock_unlock s) = sp_mutex s"
  by (simp_all add: sp_defs sp_ready_def sp_timer_push_def Let_def)

lemma sp_cond_simps [simp]:
  "sp_cond (sp_spin m v s) = sp_cond s" "sp_cond (sp_cspin c v s) = (sp_cond s)(c := map_option (\<lambda>x. x\<lparr>c_lock := v\<rparr>) (sp_cond s c))"
  "sp_cond (sp_errno n s) = sp_cond s"
  "sp_cond (sp_mod_mutex m g s) = sp_cond s"
  "sp_cond (sp_mod_cond c h s) = (sp_cond s)(c := map_option h (sp_cond s c))" "sp_cond (sp_mod_fiber x k s) = sp_cond s"
  "sp_cond (sp_os_event e s) = sp_cond s" "sp_cond (sp_ready x s) = sp_cond s"
  "sp_cond (sp_timer_add x s) = sp_cond s" "sp_cond (sp_timer_del x s) = sp_cond s"
  "sp_cond (sp_timer_push x s) = sp_cond s" "sp_cond (sp_lift glock_lock s) = sp_cond s"
  "sp_cond (sp_lift glock_unlock s) = sp_cond s"
  by (simp_all add: sp_defs sp_ready_def sp_timer_push_def Let_def)

lemma sp_fiber_simps [simp]:
  "sp_fiber (sp_spin m v s) = sp_fiber s" "sp_fiber (sp_cspin c v s) = sp_fiber s"
  "sp_fiber (sp_errno n s) = sp_fiber s"
  "sp_fiber (sp_mod_mutex m g s) = sp_fiber s" "sp_fiber (sp_mod_cond c h s) = sp_fiber s"
  "sp_fiber (sp_mod_fiber x k s) = (sp_fiber s)(x := map_option k (sp_fiber s x))"
  "sp_fiber (sp_os_event e s) = sp_fiber s"
  "sp_fiber (sp_ready x s) = (sp_fiber s)(x := map_option (\<lambda>f. f\<lparr>f_waited_event := kEventNone\<rparr>) (sp_fiber s x))"
  "sp_fiber (sp_timer_add x s) = sp_fiber s" "sp_fiber (sp_timer_del x s) = sp_fiber s"
  "sp_fiber (sp_timer_push x s) = sp_fiber s" "sp_fiber (sp_lift glock_lock s) = sp_fiber s"
  "sp_fiber (sp_lift glock_unlock s) = sp_fiber s"
  by (simp_all add: sp_defs sp_ready_def sp_timer_push_def Let_def)

lemma sp_queues_simps [simp]:
  "sp_queues (sp_spin m v s) = sp_queues s" "sp_queues (sp_cspin c v s) = sp_queues s"
  "sp_queues (sp_errno n s) = sp_queues s"
  "sp_queues (sp_mod_mutex m g s) = sp_queues s" "sp_queues (sp_mod_cond c h s) = sp_queues s"
  "sp_queues (sp_mod_fiber x k s) = sp_queues s" "sp_queues (sp_os_event e s) = sp_queues s"
  "sp_queues (sp_ready x s) = (sp_queues s)(Q_ready := sp_queues s Q_ready @ [x])"
  "sp_queues (sp_timer_add x s) = sp_queues s" "sp_queues (sp_timer_del x s) = sp_queues s"
  "sp_queues (sp_timer_push x s) = sp_queues s" "sp_queues (sp_lift k' s) = sp_queues s"
  "sp_queues (sp_enq q x s) = (sp_queues s)(q := sp_queues s q @ [x])"
  "sp_queues (sp_deq q s) = (sp_queues s)(q := tl (sp_queues s q))"
  "sp_queues (sp_del q x s) = (sp_queues s)(q := remove1 x (sp_queues s q))"
  by (simp_all add: sp_defs sp_ready_def sp_timer_push_def Let_def)

lemma sp_timers_simps [simp]:
  "sp_timers (sp_spin m v s) = sp_timers s" "sp_timers (sp_cspin c v s) = sp_timers s"
  "sp_timers (sp_errno n s) = sp_timers s"
  "sp_timers (sp_mod_mutex m g s) = sp_timers s" "sp_timers (sp_mod_cond c h s) = sp_timers s"
  "sp_timers (sp_mod_fiber x k s) = sp_timers s" "sp_timers (sp_os_event e s) = sp_timers s"
  "sp_timers (sp_ready x s) = sp_timers s" "sp_timers (sp_timer_del x s) = remove1 x (sp_timers s)"
  "sp_timers (sp_timer_add x s) = timer_insert (timer_of (sp_fiber s)) x (sp_timers s)"
  "sp_timers (sp_timer_push x s) = timer_insert (timer_of (sp_fiber s)) x (sp_timers s)"
  "sp_timers (sp_lift k' s) = sp_timers s"
  by (simp_all add: sp_defs sp_ready_def sp_timer_push_def Let_def)

lemma sp_self_simps [simp]:
  "sp_self (sp_spin m v s) = sp_self s" "sp_self (sp_cspin c v s) = sp_self s"
  "sp_self (sp_errno n s) = sp_self s"
  "sp_self (sp_mod_mutex m g s) = sp_self s" "sp_self (sp_mod_cond c h s) = sp_self s"
  "sp_self (sp_mod_fiber x k s) = sp_self s" "sp_self (sp_os_event e s) = sp_self s"
  "sp_self (sp_ready x s) = sp_self s" "sp_self (sp_timer_add x s) = sp_self s"
  "sp_self (sp_timer_del x s) = sp_self s" "sp_self (sp_timer_push x s) = sp_self s"
  "sp_self (sp_lift glock_lock s) = sp_self s" "sp_self (sp_lift glock_unlock s) = sp_self s"
  by (simp_all add: sp_defs sp_ready_def sp_timer_push_def Let_def)

lemma idle_cong: "(\<And>q. x \<in> set (sp_queues s q) \<longleftrightarrow> x \<in> set (sp_queues t q)) \<Longrightarrow> sp_fiber s x = None \<longleftrightarrow> sp_fiber t x = None \<Longrightarrow> idle s x = idle t x"
  by (simp add: idle_def)

lemma idle_simps [simp]:
  "idle (sp_spin m v s) x = idle s x" "idle (sp_cspin c v s) x = idle s x" "idle (sp_errno n s) x = idle s x"
  "idle (sp_mod_mutex m g s) x = idle s x" "idle (sp_mod_cond c h s) x = idle s x"
  "idle (sp_mod_fiber y k s) x = idle s x" "idle (sp_os_event e s) x = idle s x"
  "idle (sp_timer_add y s) x = idle s x" "idle (sp_timer_del y s) x = idle s x"
  "idle (sp_timer_push y s) x = idle s x" "idle (sp_lift glock_lock s) x = idle s x"
  "idle (sp_lift glock_unlock s) x = idle s x"
  by (auto intro!: idle_cong split: if_splits)

lemma idle_deq_simps [simp]:
  "idle (sp_deq q (sp_spin m v s)) x = idle (sp_deq q s) x" "idle (sp_deq q (sp_cspin c v s)) x = idle (sp_deq q s) x"
  "idle (sp_deq q (sp_mod_mutex m g s)) x = idle (sp_deq q s) x" "idle (sp_deq q (sp_mod_cond c h s)) x = idle (sp_deq q s) x"
  "idle (sp_deq q (sp_mod_fiber y k s)) x = idle (sp_deq q s) x" "idle (sp_deq q (sp_timer_del y s)) x = idle (sp_deq q s) x"
  "idle (sp_deq q (sp_lift glock_lock s)) x = idle (sp_deq q s) x" "idle (sp_deq q (sp_lift glock_unlock s)) x = idle (sp_deq q s) x"
  by (auto intro!: idle_cong split: if_splits)

lemma idle_del_simps [simp]:
  "idle (sp_del q z (sp_spin m v s)) x = idle (sp_del q z s) x" "idle (sp_del q z (sp_cspin c v s)) x = idle (sp_del q z s) x"
  "idle (sp_del q z (sp_mod_mutex m g s)) x = idle (sp_del q z s) x" "idle (sp_del q z (sp_mod_cond c h s)) x = idle (sp_del q z s) x"
  "idle (sp_del q z (sp_mod_fiber y k s)) x = idle (sp_del q z s) x" "idle (sp_del q z (sp_timer_del y s)) x = idle (sp_del q z s) x"
  "idle (sp_del q z (sp_lift glock_lock s)) x = idle (sp_del q z s) x" "idle (sp_del q z (sp_lift glock_unlock s)) x = idle (sp_del q z s) x"
  by (auto intro!: idle_cong split: if_splits)

lemma idle_sp_ready [simp]: "idle (sp_ready y s) x \<longleftrightarrow> idle s x \<and> x \<noteq> y"
  by (auto simp: idle_def)

text \<open>The head of a queue is in no queue once it is taken off.\<close>

lemma rep_member: "rep w s \<Longrightarrow> x \<in> set (sp_queues s q) \<Longrightarrow> x \<noteq> NULL \<and> (\<exists>f. sp_fiber s x = Some f)"
  using qrep_member [OF rep_qrep, of w s x q] by (auto simp: rep_def erase_def cores_def)

lemma rep_distinct: "rep w s \<Longrightarrow> distinct (sp_queues s q)"
  using rep_qrep [of w s] by (cases "q = Q_ready") (auto simp: slist_def dest: qrep_queue qrep_ready dlist_distinct)

lemma idle_sp_deq:
  assumes r: "rep w s" and x: "sp_queues s q = x # xs"
  shows "idle (sp_deq q s) x"
proof -
  have "x \<noteq> NULL" "sp_fiber s x \<noteq> None" using rep_member [OF r, of x q] x by auto
  moreover have "x \<notin> set (sp_queues (sp_deq q s) r)" for r
    using qrep_disjoint [OF rep_qrep [OF r], of x q r] rep_distinct [OF r, of q] x by auto
  ultimately show ?thesis by (simp add: idle_def)
qed

lemma idle_sp_del:
  assumes r: "rep w s" and x: "x \<in> set (sp_queues s q)"
  shows "idle (sp_del q x s) x"
proof -
  have "x \<noteq> NULL" "sp_fiber s x \<noteq> None" using rep_member [OF r x] by auto
  moreover have "x \<notin> set (sp_queues (sp_del q x s) r)" for r
    using qrep_disjoint [OF rep_qrep [OF r] x, of r] rep_distinct [OF r, of q] by auto
  ultimately show ?thesis by (simp add: idle_def)
qed

lemma timed_simps [simp]:
  "timed (sp_spin m v s) x = timed s x" "timed (sp_cspin c v s) x = timed s x" "timed (sp_errno n s) x = timed s x"
  "timed (sp_mod_mutex m g s) x = timed s x" "timed (sp_mod_cond c h s) x = timed s x"
  "timed (sp_mod_fiber y k s) x = timed s x" "timed (sp_os_event e s) x = timed s x"
  "timed (sp_enq q y s) x = timed s x" "timed (sp_deq q s) x = timed s x" "timed (sp_del q y s) x = timed s x"
  "timed (sp_ready y s) x = timed s x" "timed (sp_lift k' s) x = timed s x"
  "timed (sp_timer_add y s) x = (x = y \<or> timed s x)" "timed (sp_timer_push y s) x = (x = y \<or> timed s x)"
  by (auto simp: timed_def)

section \<open>Algebra of specification states\<close>

text \<open>
  Normal form: the locks taken and released around an operation move outwards and
  cancel, and the changes of one mutex are collected.
\<close>

named_theorems sp_comm \<open>normal form of specification states\<close>

lemma sp_lock_comm [sp_comm]:
  "sp_enq q z (sp_lift glock_lock s) = sp_lift glock_lock (sp_enq q z s)"
  "sp_deq q (sp_lift glock_lock s) = sp_lift glock_lock (sp_deq q s)"
  "sp_del q z (sp_lift glock_lock s) = sp_lift glock_lock (sp_del q z s)"
  "sp_mod_fiber z k (sp_lift glock_lock s) = sp_lift glock_lock (sp_mod_fiber z k s)"
  "sp_ready z (sp_lift glock_lock s) = sp_lift glock_lock (sp_ready z s)"
  "sp_timer_push z (sp_lift glock_lock s) = sp_lift glock_lock (sp_timer_push z s)"
  "sp_timer_del z (sp_lift glock_lock s) = sp_lift glock_lock (sp_timer_del z s)"
  "sp_os_event e (sp_lift glock_lock s) = sp_lift glock_lock (sp_os_event e s)"
  "sp_errno n (sp_lift glock_lock s) = sp_lift glock_lock (sp_errno n s)"
  "sp_mod_mutex m g (sp_lift glock_lock s) = sp_lift glock_lock (sp_mod_mutex m g s)"
  "sp_mod_cond c h (sp_lift glock_lock s) = sp_lift glock_lock (sp_mod_cond c h s)"
  "sp_spin m v (sp_lift glock_lock s) = sp_lift glock_lock (sp_spin m v s)"
  "sp_cspin c v (sp_lift glock_lock s) = sp_lift glock_lock (sp_cspin c v s)"
  by (simp_all add: sp_defs sp_ready_def sp_timer_push_alt)

lemma sp_spin_comm [sp_comm]:
  "sp_enq q z (sp_spin m v s) = sp_spin m v (sp_enq q z s)"
  "sp_deq q (sp_spin m v s) = sp_spin m v (sp_deq q s)"
  "sp_del q z (sp_spin m v s) = sp_spin m v (sp_del q z s)"
  "sp_mod_fiber z k (sp_spin m v s) = sp_spin m v (sp_mod_fiber z k s)"
  "sp_ready z (sp_spin m v s) = sp_spin m v (sp_ready z s)"
  "sp_timer_push z (sp_spin m v s) = sp_spin m v (sp_timer_push z s)"
  "sp_timer_del z (sp_spin m v s) = sp_spin m v (sp_timer_del z s)"
  "sp_os_event e (sp_spin m v s) = sp_spin m v (sp_os_event e s)"
  "sp_errno n (sp_spin m v s) = sp_spin m v (sp_errno n s)"
  "sp_mod_cond c h (sp_spin m v s) = sp_spin m v (sp_mod_cond c h s)"
  "sp_lift glock_unlock (sp_spin m v s) = sp_spin m v (sp_lift glock_unlock s)"
  "sp_cspin c u (sp_spin m v s) = sp_spin m v (sp_cspin c u s)"
  by (simp_all add: sp_defs sp_ready_def sp_timer_push_alt)

lemma sp_cspin_comm [sp_comm]:
  "sp_enq q z (sp_cspin c v s) = sp_cspin c v (sp_enq q z s)"
  "sp_deq q (sp_cspin c v s) = sp_cspin c v (sp_deq q s)"
  "sp_del q z (sp_cspin c v s) = sp_cspin c v (sp_del q z s)"
  "sp_mod_fiber z k (sp_cspin c v s) = sp_cspin c v (sp_mod_fiber z k s)"
  "sp_ready z (sp_cspin c v s) = sp_cspin c v (sp_ready z s)"
  "sp_timer_push z (sp_cspin c v s) = sp_cspin c v (sp_timer_push z s)"
  "sp_timer_del z (sp_cspin c v s) = sp_cspin c v (sp_timer_del z s)"
  "sp_os_event e (sp_cspin c v s) = sp_cspin c v (sp_os_event e s)"
  "sp_errno n (sp_cspin c v s) = sp_cspin c v (sp_errno n s)"
  "sp_mod_mutex m h (sp_cspin c v s) = sp_cspin c v (sp_mod_mutex m h s)"
  "sp_lift glock_unlock (sp_cspin c v s) = sp_cspin c v (sp_lift glock_unlock s)"
  by (simp_all add: sp_defs sp_ready_def sp_timer_push_alt)

lemma sp_mod_mutex_comm [sp_comm]:
  "sp_enq q z (sp_mod_mutex m g s) = sp_mod_mutex m g (sp_enq q z s)"
  "sp_deq q (sp_mod_mutex m g s) = sp_mod_mutex m g (sp_deq q s)"
  "sp_del q z (sp_mod_mutex m g s) = sp_mod_mutex m g (sp_del q z s)"
  "sp_mod_fiber z k (sp_mod_mutex m g s) = sp_mod_mutex m g (sp_mod_fiber z k s)"
  "sp_ready z (sp_mod_mutex m g s) = sp_mod_mutex m g (sp_ready z s)"
  "sp_timer_push z (sp_mod_mutex m g s) = sp_mod_mutex m g (sp_timer_push z s)"
  "sp_timer_del z (sp_mod_mutex m g s) = sp_mod_mutex m g (sp_timer_del z s)"
  "sp_os_event e (sp_mod_mutex m g s) = sp_mod_mutex m g (sp_os_event e s)"
  "sp_errno n (sp_mod_mutex m g s) = sp_mod_mutex m g (sp_errno n s)"
  "sp_mod_cond c h (sp_mod_mutex m g s) = sp_mod_mutex m g (sp_mod_cond c h s)"
  by (simp_all add: sp_defs sp_ready_def sp_timer_push_alt)

lemma sp_spin_mod_mutex [sp_comm]:
  "(\<And>x. g (x\<lparr>m_lock := v\<rparr>) = (g x)\<lparr>m_lock := v\<rparr>) \<Longrightarrow> sp_mod_mutex m' g (sp_spin m v s) = sp_spin m v (sp_mod_mutex m' g s)"
  by (cases "sp_mutex s m") (auto simp: sp_defs fun_upd_twist)

lemma sp_mod_mutex_collect [sp_comm]: "sp_mod_mutex m g (sp_mod_mutex m h s) = sp_mod_mutex m (\<lambda>x. g (h x)) s"
  by (simp add: sp_defs option.map_comp o_def)

lemma sp_mod_fiber_comm [sp_comm]:
  "sp_enq q z (sp_mod_fiber x k s) = sp_mod_fiber x k (sp_enq q z s)"
  "sp_deq q (sp_mod_fiber x k s) = sp_mod_fiber x k (sp_deq q s)"
  "sp_del q z (sp_mod_fiber x k s) = sp_mod_fiber x k (sp_del q z s)"
  by (simp_all add: sp_defs)

lemma sp_mod_fiber_collect [sp_comm]: "sp_mod_fiber z g (sp_mod_fiber z h s) = sp_mod_fiber z (\<lambda>x. g (h x)) s"
  by (simp add: sp_defs option.map_comp o_def)

lemma sp_spin_spin [sp_comm]: "sp_spin m v (sp_spin m u s) = sp_spin m v s"
  by (simp add: sp_defs option.map_comp o_def)

lemma sp_cspin_cspin [sp_comm]: "sp_cspin c v (sp_cspin c u s) = sp_cspin c v s"
  by (simp add: sp_defs option.map_comp o_def)

lemma sp_lock_cancel [sp_comm]: "sp_lift glock_unlock (sp_lift glock_lock s) = s"
  by (simp add: sp_lift_def)

lemma sp_spin_same [sp_comm]: "m_lock (the (sp_mutex s m)) = v \<Longrightarrow> sp_spin m v s = s"
  by (cases "sp_mutex s m") (auto simp: sp_spin_def sp_mod_mutex_def fun_upd_idem)

lemma sp_cspin_same [sp_comm]: "c_lock (the (sp_cond s c)) = v \<Longrightarrow> sp_cspin c v s = s"
  by (cases "sp_cond s c") (auto simp: sp_cspin_def sp_mod_cond_def fun_upd_idem)

section \<open>Rules of the primitives\<close>

lemma self_eq: "rep w s \<Longrightarrow> melon_fiber_self w = sp_self s"
  by (simp add: melon_fiber_self_def rep_current)

lemma wp_load_mutex [step]:
  assumes "rep w s" and "sp_mutex s m = Some y"
    and "\<And>x. m_owner x = m_owner y \<Longrightarrow> m_lock_count x = m_lock_count y \<Longrightarrow> m_is_recursive x = m_is_recursive y \<Longrightarrow>
      (m_lock_queue x = NULL \<longleftrightarrow> sp_queues s (Q_lock m) = []) \<Longrightarrow> mutexes w m = Some x \<Longrightarrow>
      melon_fiber_self w = sp_self s \<Longrightarrow> g_current_fiber w = sp_self s \<Longrightarrow> rep w s \<Longrightarrow> Q x"
  shows "wp (load (mutexes w) m) Q"
proof -
  obtain x where x: "mutexes w m = Some x" "y = bare_mutex x" using rep_mutexE [OF assms(1,2)] .
  have "Q x"
    by (rule assms(3)) (simp_all add: x assms(1) self_eq [OF assms(1)] rep_current [OF assms(1)] rep_lock_queue [OF assms(1) x(1)])
  with x(1) show ?thesis by simp
qed

lemma wp_load_fiber [step]:
  assumes "rep w s" and "sp_fiber s p = Some g"
    and "\<And>f. f_timer f = f_timer g \<Longrightarrow> f_lock_count f = f_lock_count g \<Longrightarrow> f_cond_mutex f = f_cond_mutex g \<Longrightarrow>
      f_timer_ctx f = f_timer_ctx g \<Longrightarrow> f_waited_event f = f_waited_event g \<Longrightarrow> f_io_canceled f = f_io_canceled g \<Longrightarrow>
      f_join_mutex f = f_join_mutex g \<Longrightarrow> f_join_cond f = f_join_cond g \<Longrightarrow> f_join_retval f = f_join_retval g \<Longrightarrow>
      f_join_is_finished f = f_join_is_finished g \<Longrightarrow> f_join_is_detached f = f_join_is_detached g \<Longrightarrow>
      fibers w p = Some f \<Longrightarrow> rep w s \<Longrightarrow> Q f"
  shows "wp (load (fibers w) p) Q"
proof -
  obtain f where f: "fibers w p = Some f" "g = core f" using rep_fiberE [OF assms(1,2)] .
  have "Q f" by (rule assms(3)) (simp_all add: f assms(1))
  with f(1) show ?thesis by simp
qed

lemma rep_mod_mutex:
  assumes "rep w s" and "mutexes w m = Some x" and "m_lock_queue (g x) = m_lock_queue x"
    and "bare_mutex (g x) = g (bare_mutex x)"
  shows "rep (w\<lparr>mutexes := (mutexes w)(m \<mapsto> g x)\<rparr>) (sp_mod_mutex m g s)"
proof -
  have "sp_mutex s m = Some (bare_mutex x)"
    using assms by (simp add: rep_def erase_def bare_mutexes_def)
  with rep_mutex_upd [OF assms(1,2), of "g x"] assms show ?thesis by (simp add: sp_mod_mutex_def)
qed

lemma rep_mod_cond:
  assumes "rep w s" and "conds w c = Some x" and "c_wait_queue (g x) = c_wait_queue x"
    and "bare_cond (g x) = g (bare_cond x)"
  shows "rep (w\<lparr>conds := (conds w)(c \<mapsto> g x)\<rparr>) (sp_mod_cond c g s)"
proof -
  have "sp_cond s c = Some (bare_cond x)"
    using assms by (simp add: rep_def erase_def bare_conds_def)
  with rep_cond_upd [OF assms(1,2), of "g x"] assms show ?thesis by (simp add: sp_mod_cond_def)
qed

lemma wp_mod_mutex [step]:
  assumes "rep w s" and "sp_mutex s m \<noteq> None"
    and "\<And>x. m_lock_queue (g x) = m_lock_queue x" and "\<And>x. bare_mutex (g x) = g (bare_mutex x)"
    and "\<And>w'. rep w' (sp_mod_mutex m g s) \<Longrightarrow> Q w'"
  shows "wp (mod_mutex m g w) Q"
proof -
  obtain x where "mutexes w m = Some x" using rep_mutexE [OF assms(1)] assms(2) by blast
  with rep_mod_mutex [OF assms(1), of m x g] assms(3-5) show ?thesis by (simp add: mod_mutex_def)
qed

lemma wp_mod_fiber [step]:
  assumes "rep w s" and "sp_fiber s p \<noteq> None"
    and "\<And>f. f_next (g f) = f_next f" "\<And>f. f_prev (g f) = f_prev f"
    and "\<And>f. f_timer_next (g f) = f_timer_next f" "\<And>f. f_timer_prev (g f) = f_timer_prev f"
    and "(\<forall>f. f_timer (g f) = f_timer f) \<or> \<not> timed s p" and "\<And>f. core (g f) = g (core f)"
    and "\<And>w'. rep w' (sp_mod_fiber p g s) \<Longrightarrow> Q w'"
  shows "wp (mod_fiber p g w) Q"
proof -
  obtain f where "fibers w p = Some f" using rep_fiberE [OF assms(1)] assms(2) by blast
  with rep_mod_fiber [OF assms(1), of p f g] assms show ?thesis by (auto simp: mod_fiber_def timed_def)
qed

lemma wp_mutex_spin_lock [step]:
  assumes "rep w s" and "sp_mutex s m = Some y" and "m_lock y = 0"
    and "\<And>w'. rep w' (sp_spin m 1 s) \<Longrightarrow> Q w'"
  shows "wp (mutex_spin_lock m w) Q"
proof -
  obtain x where x: "mutexes w m = Some x" "y = bare_mutex x" using rep_mutexE [OF assms(1,2)] .
  then have "mutex_spin_lock m w = Inr (w\<lparr>mutexes := (mutexes w)(m \<mapsto> x\<lparr>m_lock := 1\<rparr>)\<rparr>)"
    using assms(3) by (simp add: mutex_spin_lock_def)
  moreover have "rep (w\<lparr>mutexes := (mutexes w)(m \<mapsto> x\<lparr>m_lock := 1\<rparr>)\<rparr>) (sp_mod_mutex m (\<lambda>x. x\<lparr>m_lock := 1\<rparr>) s)"
    using rep_mod_mutex [OF assms(1) x(1), of "\<lambda>x. x\<lparr>m_lock := 1\<rparr>"] by (simp add: bare_mutex_def)
  ultimately show ?thesis using assms(4) by (simp add: sp_spin_def)
qed

lemma wp_mutex_spin_unlock [step]:
  assumes "rep w s" and "sp_mutex s m \<noteq> None"
    and "\<And>w'. rep w' (sp_spin m 0 s) \<Longrightarrow> Q w'"
  shows "wp (mutex_spin_unlock m w) Q"
  unfolding mutex_spin_unlock_def melon_spin_unlock_def
  by (rule wp_mod_mutex [OF assms(1,2)]) (simp_all add: bare_mutex_def assms(3) sp_spin_def)

lemma wp_cond_spin_lock [step]:
  assumes "rep w s" and "sp_cond s c = Some y" and "c_lock y = 0"
    and "\<And>w'. rep w' (sp_cspin c 1 s) \<Longrightarrow> Q w'"
  shows "wp (cond_spin_lock c w) Q"
proof -
  obtain x where x: "conds w c = Some x" "y = bare_cond x" using rep_condE [OF assms(1,2)] .
  then have "cond_spin_lock c w = Inr (w\<lparr>conds := (conds w)(c \<mapsto> x\<lparr>c_lock := 1\<rparr>)\<rparr>)"
    using assms(3) by (simp add: cond_spin_lock_def)
  moreover have "rep (w\<lparr>conds := (conds w)(c \<mapsto> x\<lparr>c_lock := 1\<rparr>)\<rparr>) (sp_mod_cond c (\<lambda>x. x\<lparr>c_lock := 1\<rparr>) s)"
    using rep_mod_cond [OF assms(1) x(1), of "\<lambda>x. x\<lparr>c_lock := 1\<rparr>"] by (simp add: bare_cond_def)
  ultimately show ?thesis using assms(4) by (simp add: sp_cspin_def)
qed

lemma wp_cond_spin_unlock [step]:
  assumes "rep w s" and "sp_cond s c \<noteq> None"
    and "\<And>w'. rep w' (sp_cspin c 0 s) \<Longrightarrow> Q w'"
  shows "wp (cond_spin_unlock c w) Q"
proof -
  obtain x where x: "conds w c = Some x" using rep_condE [OF assms(1)] assms(2) by blast
  with rep_mod_cond [OF assms(1) x, of "\<lambda>x. x\<lparr>c_lock := 0\<rparr>"] assms(3) show ?thesis
    by (simp add: cond_spin_unlock_def mod_cond_def melon_spin_unlock_def bare_cond_def sp_cspin_def)
qed

lemma rep_lock_lift [step]: "rep w s \<Longrightarrow> rep (glock_lock w) (sp_lift glock_lock s)"
  using rep_glock_lock by (simp add: sp_lift_def)

lemma rep_unlock_lift [step]: "rep w s \<Longrightarrow> rep (glock_unlock w) (sp_lift glock_unlock s)"
  using rep_glock_unlock by (simp add: sp_lift_def)

lemma rep_errno [step]: "rep w s \<Longrightarrow> rep (w\<lparr>errno := n\<rparr>) (sp_errno n s)"
  using rep_other_upd(1) by (simp add: sp_errno_def sp_lift_def)

lemma wp_sched_ready_locked [step]:
  "rep w s \<Longrightarrow> idle s x \<Longrightarrow> (\<And>w'. rep w' (sp_ready x s) \<Longrightarrow> Q w') \<Longrightarrow> wp (melon_sched_ready_locked x w) Q"
  using sched_ready_locked_refines by (rule wp_refines)

lemma wp_sched_ready [step]:
  "rep w s \<Longrightarrow> idle s x \<Longrightarrow> (\<And>w'. rep w' (sp_ready x s) \<Longrightarrow> Q w') \<Longrightarrow> wp (melon_sched_ready x w) Q"
  using sched_ready_refines by (rule wp_refines)

lemma wp_sched_next [step]:
  "rep w s \<Longrightarrow> sp_self s \<noteq> NULL \<Longrightarrow> (rep w s \<Longrightarrow> Q w) \<Longrightarrow> wp (melon_sched_next w) Q"
  by (simp add: melon_sched_next_def rep_current)

lemma wp_timer_remove_locked [step]:
  "rep w s \<Longrightarrow> timed s x \<Longrightarrow> (\<And>w'. rep w' (sp_timer_del x s) \<Longrightarrow> Q w') \<Longrightarrow> wp (melon_timer_remove_locked x w) Q"
  using timer_remove_locked_refines by (rule wp_refines)

lemma wp_timer_push_locked [step]:
  assumes "rep w s" and "sp_fiber s (sp_self s) \<noteq> None" and "sp_self s \<noteq> NULL" and "\<not> timed s (sp_self s)"
    and "\<And>w'. rep w' (sp_timer_push (sp_self s) s) \<Longrightarrow> Q w'"
  shows "wp (melon_timer_push_locked w) Q"
proof -
  obtain f where "fibers w (sp_self s) = Some f" using rep_fiberE [OF assms(1)] assms(2) by blast
  from wp_refines [OF timer_push_locked_refines [OF assms(1) _ assms(3) this assms(4)]] assms(1,5)
  show ?thesis by (simp add: rep_current)
qed

end
