(* ===== verification/Melon_Run.thy ===== *)
theory Melon_Run
  imports Melon_Refine
begin

text \<open>
  The loop of a scheduler thread (\<^verbatim>\<open>sched_next\<close> of \<^verbatim>\<open>src/sched.c\<close>) refines
  taking the head of the ready queue.
\<close>

definition sp_current :: "ptr \<Rightarrow> spec \<Rightarrow> spec" where
  "sp_current x s = sp_lift (\<lambda>w. w\<lparr>g_current_fiber := x\<rparr>) s"

definition sp_sched_next :: "spec \<Rightarrow> sched_outcome \<times> spec" where
  "sp_sched_next s =
    (if g_stop (g_melon (sp_world s)) \<noteq> 0 then (Sched_stopped, sp_current NULL s)
     else case sp_queues s Q_ready of
         [] \<Rightarrow> (Sched_sleeps, sp_lift glock_lock (sp_current NULL s))
       | x # xs \<Rightarrow> (Sched_runs, sp_mod_fiber x (\<lambda>f. f\<lparr>f_lock := 1\<rparr>) (sp_current x (sp_deq Q_ready s))))"

lemma rep_current_upd: "rep w s \<Longrightarrow> rep (w\<lparr>g_current_fiber := x\<rparr>) (sp_current x s)"
  using rep_other_upd(2) by (simp add: sp_current_def sp_lift_def)

lemma rep_ready_pop:
  assumes r: "rep w s" and x: "sp_queues s Q_ready = x # xs"
  shows "\<exists>l F'. melon_list_pop fiber_link (g_ready (g_melon w)) (fibers w) = Inr (l, x, F') \<and>
    rep (w\<lparr>fibers := F', g_melon := (g_melon w)\<lparr>g_ready := l\<rparr>\<rparr>) (sp_deq Q_ready s) \<and> x \<noteq> NULL"
proof -
  let ?qs = "(sp_queues s)(Q_ready := xs)"
  obtain l F' where F': "melon_list_pop fiber_link (qhead w Q_ready) (fibers w) = Inr (l, x, F')"
    "qrep F' ((qhead w)(Q_ready := l)) ?qs" "same_but_queues (fibers w) F'" "unqueued F' ?qs x"
    "\<forall>p. p \<notin> set (sp_queues s Q_ready) \<longrightarrow> F' p = fibers w p"
    using qrep_ready_pop [OF rep_qrep [OF r] x] by blast
  have "rep (set_qhead Q_ready l (w\<lparr>fibers := F'\<rparr>)) (s\<lparr>sp_queues := ?qs\<rparr>)"
  proof (rule rep_queue_step [OF r _ F'(2,3)])
    fix y g
    assume g: "F' y = Some g" and y: "\<forall>r. y \<notin> set (?qs r)"
    show "f_next g = NULL"
    proof (cases "y = x")
      case True
      with g F'(4) show ?thesis by (auto simp: unqueued_def)
    next
      case False
      then have "y \<notin> set (sp_queues s r)" for r using y [rule_format, of r] x by (auto split: if_splits)
      then show ?thesis using F'(5) g rep_lone [OF r] by metis
    qed
  qed simp
  moreover have "s\<lparr>sp_queues := ?qs\<rparr> = sp_deq Q_ready s" using x by (simp add: sp_deq_def)
  ultimately show ?thesis using F' by (auto simp: unqueued_def)
qed

lemma rep_ready_empty:
  assumes r: "rep w s" and x: "sp_queues s Q_ready = []"
  shows "g_ready (g_melon w) = NULL"
  using qrep_NULL_iff [OF rep_qrep [OF r], of Q_ready] x by simp

lemma sched_next_refines:
  assumes r: "rep w s"
    and free: "\<And>x xs f. sp_queues s Q_ready = x # xs \<Longrightarrow> sp_fiber s x = Some f \<Longrightarrow> f_lock f = 0"
  shows "wp (sched_next w) (yields (sp_sched_next s))"
proof -
  have stop: "g_stop (g_melon (sp_world s)) = g_stop (g_melon w)"
    using r by (simp add: rep_def erase_def bare_melon_def)
  have g: "g_melon (glock_lock (w\<lparr>g_current_fiber := NULL\<rparr>)) = (g_melon w)\<lparr>g_lock := Suc (g_lock (g_melon w))\<rparr>"
    by (simp add: world_defs)
  consider (stop) "g_stop (g_melon w) \<noteq> 0" | (sleep) "g_stop (g_melon w) = 0" "sp_queues s Q_ready = []"
    | (run) x xs where "g_stop (g_melon w) = 0" "sp_queues s Q_ready = x # xs" by (cases "sp_queues s Q_ready") auto
  then show ?thesis
  proof cases
    case stop
    then show ?thesis using rep_current_upd [OF r, of NULL] \<open>g_stop (g_melon (sp_world s)) = _\<close>
      by (simp add: sched_next_def sp_sched_next_def g yields_def)
  next
    case sleep
    let ?w = "glock_lock (w\<lparr>g_current_fiber := NULL\<rparr>)"
    have e: "g_ready (g_melon w) = NULL" using rep_ready_empty [OF r sleep(2)] .
    have "sched_next w = Inr (Sched_sleeps, ?w)"
      using sleep e by (simp add: sched_next_def world_defs melon_list_pop_def)
    then show ?thesis
      using sleep stop rep_lock_lift [OF rep_current_upd [OF r, of NULL]] by (simp add: sp_sched_next_def yields_def)
  next
    case run
    obtain l F' where p: "melon_list_pop fiber_link (g_ready (g_melon w)) (fibers w) = Inr (l, x, F')"
      "rep (w\<lparr>fibers := F', g_melon := (g_melon w)\<lparr>g_ready := l\<rparr>\<rparr>) (sp_deq Q_ready s)" "x \<noteq> NULL"
      using rep_ready_pop [OF r run(2)] by blast
    let ?w = "w\<lparr>fibers := F', g_melon := (g_melon w)\<lparr>g_ready := l\<rparr>, g_current_fiber := x\<rparr>"
    have rw: "rep ?w (sp_current x (sp_deq Q_ready s))" using rep_current_upd [OF p(2), of x] by simp
    obtain f where f: "F' x = Some f" "f_lock f = 0"
    proof -
      obtain f0 where f0: "sp_fiber s x = Some f0" using rep_member [OF r, of x Q_ready] run(2) by auto
      then have "sp_fiber (sp_current x (sp_deq Q_ready s)) x = Some f0" by (simp add: sp_current_def sp_lift_def)
      then obtain f where "F' x = Some f" "f0 = core f" using rep_fiberE [OF rw] by auto
      with free [OF run(2) f0] that show ?thesis by simp
    qed
    have "sched_next w = Inr (Sched_runs, ?w\<lparr>fibers := F'(x \<mapsto> f\<lparr>f_lock := 1\<rparr>)\<rparr>)"
      using run p f by (simp add: sched_next_def world_defs)
    moreover have "rep (?w\<lparr>fibers := F'(x \<mapsto> f\<lparr>f_lock := 1\<rparr>)\<rparr>)
      (sp_mod_fiber x (\<lambda>f. f\<lparr>f_lock := 1\<rparr>) (sp_current x (sp_deq Q_ready s)))"
      using rep_mod_fiber [OF rw, of x f "\<lambda>f. f\<lparr>f_lock := 1\<rparr>"] f by (simp add: core_def)
    ultimately show ?thesis using run stop by (simp add: sp_sched_next_def yields_def)
  qed
qed

section \<open>Properties\<close>

text \<open>
  C14: A scheduler thread takes the fiber that became ready first, and runs it with the
  fiber's own lock held; with nothing ready it goes to sleep, and when the runtime stops
  it leaves.
\<close>

theorem sched_next_correct:
  assumes "rep w s" and "\<And>x xs f. sp_queues s Q_ready = x # xs \<Longrightarrow> sp_fiber s x = Some f \<Longrightarrow> f_lock f = 0"
  shows "\<exists>w'. sched_next w = Inr (fst (sp_sched_next s), w') \<and> rep w' (snd (sp_sched_next s))"
  using sched_next_refines [OF assms] by (simp add: wp_yields)

text \<open>
  What is made ready runs: a fiber that is in no queue and whose lock is free, handed
  to \<^verbatim>\<open>melon_sched_ready\<close> when no other is ready, is the one the next pass of a
  scheduler thread runs.
\<close>

theorem ready_then_runs:
  assumes r: "rep w s" and x: "idle s x" "sp_fiber s x = Some f" "f_lock f = 0"
    and q: "sp_queues s Q_ready = []" "g_stop (g_melon (sp_world s)) = 0"
  shows "\<exists>w1 w2. melon_sched_ready x w = Inr w1 \<and> sched_next w1 = Inr (Sched_runs, w2) \<and> g_current_fiber w2 = x"
proof -
  obtain w1 where w1: "melon_sched_ready x w = Inr w1" "rep w1 (sp_ready x s)"
    using sched_ready_refines [OF r x(1)] by blast
  have q1: "sp_queues (sp_ready x s) Q_ready = [x]" "g_stop (g_melon (sp_world (sp_ready x s))) = 0"
    using q by (simp_all add: sp_ready_def sp_defs)
  have "wp (sched_next w1) (yields (sp_sched_next (sp_ready x s)))"
    by (rule sched_next_refines [OF w1(2)]) (use q1 x in auto)
  then obtain w2 where w2: "sched_next w1 = Inr (fst (sp_sched_next (sp_ready x s)), w2)"
    "rep w2 (snd (sp_sched_next (sp_ready x s)))" by (auto simp: wp_yields)
  with q1 have "g_current_fiber w2 = x"
    using rep_current [OF w2(2)] by (simp add: sp_sched_next_def sp_current_def sp_lift_def)
  with w1 w2 q1 show ?thesis by (auto simp: sp_sched_next_def)
qed

lemma rep_ex_world: "rep ex_world (abs0 ex_world)"
  by (rule rep_abs0 [OF quiet_ex_world])

lemma ex_stop: "g_stop (g_melon (sp_world (abs0 ex_world))) = 0"
  by (simp add: abs0_def erase_def bare_melon_def ex_world_def)

theorem sched_next_correct_witness: "\<exists>w'. sched_next ex_world = Inr (Sched_sleeps, w')"
  using sched_next_correct [OF rep_ex_world] by (auto simp: sp_sched_next_def ex_stop)

theorem ready_then_runs_witness:
  "\<exists>w1 w2. melon_sched_ready 2 ex_world = Inr w1 \<and> sched_next w1 = Inr (Sched_runs, w2) \<and> g_current_fiber w2 = 2"
  by (rule ready_then_runs [OF rep_ex_world, where f = a_fiber]) (simp_all add: idle_ex_world ex_stop)

end
