(* ===== verification/Melon_Mutex.thy ===== *)
theory Melon_Mutex
  imports Melon_Run
begin

text \<open>
  The mutex of \<^verbatim>\<open>src/mutex.c\<close>: recursive or not, with a first-in first-out queue
  of blocked fibers and hand-over of the ownership on unlock. \<^verbatim>\<open>malloc\<close> is the
  pointer it returns, NULL when it fails. The specification works on lists; every
  operation is shown to refine it and to keep the mutex invariant.
\<close>

section \<open>Attributes, creation, destruction\<close>

definition MELON_MUTEX_NORMAL :: int where "MELON_MUTEX_NORMAL = 1"
definition MELON_MUTEX_RECURSIVE :: int where "MELON_MUTEX_RECURSIVE = 2"

definition melon_mutexattr_init :: "ptr \<Rightarrow> int \<times> melon_mutexattr option" where
  "melon_mutexattr_init malloc = (if malloc = NULL then (-1, None) else (0, Some \<lparr>ma_is_recursive = 0\<rparr>))"

definition melon_mutexattr_settype :: "melon_mutexattr \<Rightarrow> int \<Rightarrow> melon_mutexattr res" where
  "melon_mutexattr_settype attr type =
    (if type = MELON_MUTEX_NORMAL then Inr (attr\<lparr>ma_is_recursive := 0\<rparr>)
     else if type = MELON_MUTEX_RECURSIVE then Inr (attr\<lparr>ma_is_recursive := 1\<rparr>)
     else Inl Assert_failed)"

definition melon_mutexattr_gettype :: "melon_mutexattr \<Rightarrow> int" where
  "melon_mutexattr_gettype attr = ma_is_recursive attr"

definition new_mutex :: "int \<Rightarrow> melon_mutex" where
  "new_mutex recursive = \<lparr>m_lock = melon_spin_init, m_owner = NULL, m_lock_queue = NULL,
     m_lock_count = 0, m_is_recursive = recursive\<rparr>"

definition melon_mutex_init :: "ptr \<Rightarrow> melon_mutexattr option \<Rightarrow> world \<Rightarrow> int \<times> ptr \<times> world" where
  "melon_mutex_init malloc attr w =
    (if malloc = NULL then (-1, NULL, w)
     else (0, malloc, w\<lparr>mutexes := (mutexes w)(malloc \<mapsto>
       new_mutex (case attr of Some a \<Rightarrow> ma_is_recursive a | None \<Rightarrow> 0))\<rparr>))"

definition melon_mutex_destroy :: "ptr \<Rightarrow> world \<Rightarrow> world res" where
  "melon_mutex_destroy mutex w =
    res_bind (mutex_spin_lock mutex w) (\<lambda>w.
    res_bind (load (mutexes w) mutex) (\<lambda>m.
    assert_that (m_lock_count m = 0) (
    assert_that (m_owner m = NULL) (
    assert_that (m_lock_queue m = NULL) (
    Inr (w\<lparr>mutexes := (mutexes w)(mutex := None)\<rparr>))))))"

section \<open>Locking\<close>

text \<open>\<^verbatim>\<open>melon_dlist_push(mutex->lock_queue, fiber, )\<close>\<close>

definition lock_queue_push :: "ptr \<Rightarrow> ptr \<Rightarrow> world \<Rightarrow> world res" where
  "lock_queue_push mutex fiber w =
    res_bind (load (mutexes w) mutex) (\<lambda>m.
    res_bind (fiber_push (m_lock_queue m) fiber w) (\<lambda>(q, w).
    mod_mutex mutex (\<lambda>m. m\<lparr>m_lock_queue := q\<rparr>) w))"

definition melon_mutex_lock2 :: "ptr \<Rightarrow> ptr \<Rightarrow> world \<Rightarrow> world res" where
  "melon_mutex_lock2 fiber mutex w =
    assert_that (fiber \<noteq> NULL) (
    assert_that (mutex \<noteq> NULL) (
    res_bind (mutex_spin_lock mutex w) (\<lambda>w.
    res_bind (mod_fiber fiber (\<lambda>f. f\<lparr>f_timer := 0\<rparr>) w) (\<lambda>w.
    res_bind (load (mutexes w) mutex) (\<lambda>m.
    if m_owner m = NULL
    then
      res_bind (load (fibers w) fiber) (\<lambda>f.
      res_bind (mod_mutex mutex (\<lambda>m. m\<lparr>m_owner := fiber, m_lock_count := f_lock_count f\<rparr>) w) (\<lambda>w.
      assert_that (f_lock_count f = 1 \<or> (f_lock_count f > 1 \<and> m_is_recursive m \<noteq> 0)) (
      res_bind (mutex_spin_unlock mutex w) (\<lambda>w.
      melon_sched_ready fiber w))))
    else
      assert_that (m_owner m \<noteq> fiber) (
      res_bind (lock_queue_push mutex fiber w) (\<lambda>w.
      mutex_spin_unlock mutex w)))))))"

definition melon_mutex_lock :: "ptr \<Rightarrow> world \<Rightarrow> (unit outcome \<times> world) res" where
  "melon_mutex_lock mutex w =
    (let self = melon_fiber_self w in
    assert_that (self \<noteq> NULL) (
    res_bind (mod_fiber self (\<lambda>f. f\<lparr>f_timer := 0, f_lock_count := 1\<rparr>) w) (\<lambda>w.
    assert_that (mutex \<noteq> NULL) (
    res_bind (mutex_spin_lock mutex w) (\<lambda>w.
    res_bind (mod_fiber self (\<lambda>f. f\<lparr>f_timer := 0\<rparr>) w) (\<lambda>w.
    res_bind (load (mutexes w) mutex) (\<lambda>m.
    if m_owner m = NULL
    then
      res_bind (mod_mutex mutex (\<lambda>m. m\<lparr>m_owner := self, m_lock_count := 1\<rparr>) w) (\<lambda>w.
      res_bind (mutex_spin_unlock mutex w) (\<lambda>w.
      Inr (Returned 0, w)))
    else if m_owner m = self
    then
      assert_that (m_is_recursive m \<noteq> 0) (
      res_bind (int_inc (m_lock_count m)) (\<lambda>n.
      res_bind (mod_mutex mutex (\<lambda>m. m\<lparr>m_lock_count := n\<rparr>) w) (\<lambda>w.
      res_bind (mutex_spin_unlock mutex w) (\<lambda>w.
      Inr (Returned 0, w)))))
    else
      res_bind (lock_queue_push mutex self w) (\<lambda>w.
      res_bind (mutex_spin_unlock mutex w) (\<lambda>w.
      res_bind (melon_sched_next w) (\<lambda>w.
      Inr (Suspended (), w)))))))))))"

definition melon_mutex_unlock :: "ptr \<Rightarrow> world \<Rightarrow> world res" where
  "melon_mutex_unlock mutex w =
    assert_that (mutex \<noteq> NULL) (
    res_bind (load (mutexes w) mutex) (\<lambda>m.
    assert_that (m_lock_count m > 0) (
    res_bind (int_dec (m_lock_count m)) (\<lambda>n.
    res_bind (mod_mutex mutex (\<lambda>m. m\<lparr>m_lock_count := n\<rparr>) w) (\<lambda>w.
    if n > 0 then Inr w
    else
      res_bind (mutex_spin_lock mutex w) (\<lambda>w.
      res_bind (load (mutexes w) mutex) (\<lambda>m.
      if m_lock_queue m = NULL
      then
        res_bind (mod_mutex mutex (\<lambda>m. m\<lparr>m_owner := NULL\<rparr>) w) (\<lambda>w.
        mutex_spin_unlock mutex w)
      else
        res_bind (mutex_spin_unlock mutex w) (\<lambda>w.
        let w = glock_lock w in
        res_bind (mutex_spin_lock mutex w) (\<lambda>w.
        res_bind (load (mutexes w) mutex) (\<lambda>m.
        res_bind (fiber_pop (m_lock_queue m) w) (\<lambda>(q, owner, w).
        res_bind (mod_mutex mutex (\<lambda>m. m\<lparr>m_lock_queue := q, m_owner := owner\<rparr>) w) (\<lambda>w.
        res_bind
          (if owner \<noteq> NULL
           then
             res_bind (load (fibers w) owner) (\<lambda>f.
             res_bind (if f_timer f > 0 then melon_timer_remove_locked owner w else Inr w) (\<lambda>w.
             res_bind (load (mutexes w) mutex) (\<lambda>m.
             res_bind (int_inc (m_lock_count m)) (\<lambda>n.
             res_bind (mod_mutex mutex (\<lambda>m. m\<lparr>m_lock_count := n\<rparr>) w) (\<lambda>w.
             melon_sched_ready_locked owner w)))))
           else Inr w) (\<lambda>w.
        res_bind (mutex_spin_unlock mutex w) (\<lambda>w.
        Inr (glock_unlock w)))))))))))))))"

definition melon_mutex_trylock :: "ptr \<Rightarrow> world \<Rightarrow> (int \<times> world) res" where
  "melon_mutex_trylock mutex w =
    assert_that (mutex \<noteq> NULL) (
    res_bind (mutex_spin_lock mutex w) (\<lambda>w.
    res_bind (load (mutexes w) mutex) (\<lambda>m.
    if m_owner m = NULL \<or> (m_is_recursive m \<noteq> 0 \<and> m_owner m = melon_fiber_self w)
    then
      res_bind (int_inc (m_lock_count m)) (\<lambda>n.
      res_bind (mod_mutex mutex (\<lambda>m. m\<lparr>m_owner := melon_fiber_self w, m_lock_count := n\<rparr>) w) (\<lambda>w.
      res_bind (mutex_spin_unlock mutex w) (\<lambda>w.
      Inr (0, w))))
    else
      res_bind (mutex_spin_unlock mutex w) (\<lambda>w.
      Inr (EBUSY, w\<lparr>errno := EBUSY\<rparr>)))))"

section \<open>Locking with a timeout\<close>

text \<open>
  The callback of the timer of the fiber \<open>cur\<close>, whose stack holds the context. It runs
  under \<^verbatim>\<open>g_melon.lock\<close>.
\<close>

definition melon_mutex_timedlock_cb :: "ptr \<Rightarrow> lock_ctx \<Rightarrow> world \<Rightarrow> world res" where
  "melon_mutex_timedlock_cb cur ctx w =
    res_bind (mutex_spin_lock (lc_mutex ctx) w) (\<lambda>w.
    res_bind (load (mutexes w) (lc_mutex ctx)) (\<lambda>m.
    res_bind (fiber_unlink (m_lock_queue m) (lc_fiber ctx) w) (\<lambda>(q, w).
    res_bind (mod_mutex (lc_mutex ctx) (\<lambda>m. m\<lparr>m_lock_queue := q\<rparr>) w) (\<lambda>w.
    res_bind (mutex_spin_unlock (lc_mutex ctx) w) (\<lambda>w.
    res_bind (mod_fiber cur (\<lambda>f. f\<lparr>f_timer_ctx := Ctx_lock (ctx\<lparr>lc_timeout := 1\<rparr>)\<rparr>) w) (\<lambda>w.
    melon_sched_ready_locked (lc_fiber ctx) w))))))"

text \<open>The parts of \<^verbatim>\<open>melon_mutex_timedlock\<close> that follow a suspension.\<close>

datatype timedlock_k = K_lock | K_timedlock

definition melon_mutex_timedlock :: "ptr \<Rightarrow> 64 word \<Rightarrow> world \<Rightarrow> (timedlock_k outcome \<times> world) res" where
  "melon_mutex_timedlock mutex timeout w =
    (if timeout = 0
     then
       res_bind (melon_mutex_lock mutex w) (\<lambda>(r, w).
       Inr (case r of Returned _ \<Rightarrow> Returned 0 | Suspended _ \<Rightarrow> Suspended K_lock, w))
     else
       res_bind (melon_mutex_trylock mutex w) (\<lambda>(ret, w).
       if ret = 0 then Inr (Returned 0, w)
       else
         res_bind (mutex_spin_lock mutex (glock_lock w)) (\<lambda>w.
         res_bind (load (mutexes w) mutex) (\<lambda>m.
         if m_owner m = NULL
         then
           res_bind (int_inc (m_lock_count m)) (\<lambda>n.
           res_bind (mod_mutex mutex (\<lambda>m. m\<lparr>m_owner := melon_fiber_self w, m_lock_count := n\<rparr>) w) (\<lambda>w.
           res_bind (mutex_spin_unlock mutex w) (\<lambda>w.
           Inr (Returned 0, glock_unlock w))))
         else
           let self = melon_fiber_self w;
               ctx = \<lparr>lc_mutex = mutex, lc_fiber = g_current_fiber w, lc_timeout = 0\<rparr> in
           res_bind (lock_queue_push mutex self w) (\<lambda>w.
           res_bind (mod_fiber self (\<lambda>f. f\<lparr>f_timer := sint timeout, f_timer_cb := Cb_mutex_timedlock,
             f_timer_ctx := Ctx_lock ctx\<rparr>) w) (\<lambda>w.
           res_bind (melon_timer_push_locked w) (\<lambda>w.
           res_bind (mutex_spin_unlock mutex w) (\<lambda>w.
           res_bind (melon_sched_next (glock_unlock w)) (\<lambda>w.
           Inr (Suspended K_timedlock, w))))))))))"

definition melon_mutex_timedlock_resume :: "timedlock_k \<Rightarrow> world \<Rightarrow> (int \<times> world) res" where
  "melon_mutex_timedlock_resume k w =
    (case k of
       K_lock \<Rightarrow> Inr (0, w)
     | K_timedlock \<Rightarrow>
         res_bind (load (fibers w) (melon_fiber_self w)) (\<lambda>f.
         case f_timer_ctx f of
           Ctx_lock ctx \<Rightarrow> if lc_timeout ctx = 0 then Inr (0, w) else Inr (- ETIMEDOUT, w\<lparr>errno := ETIMEDOUT\<rparr>)
         | _ \<Rightarrow> Inl Bad_deref))"

section \<open>Specification\<close>

definition sp_lock :: "ptr \<Rightarrow> spec \<Rightarrow> unit outcome \<times> spec" where
  "sp_lock m s =
    (let self = sp_self s; x = the (sp_mutex s m);
         s = sp_mod_fiber self (\<lambda>f. f\<lparr>f_lock_count := 1, f_timer := 0\<rparr>) s in
     if m_owner x = NULL then (Returned 0, sp_mod_mutex m (\<lambda>x. x\<lparr>m_owner := self, m_lock_count := 1\<rparr>) s)
     else if m_owner x = self then (Returned 0, sp_mod_mutex m (\<lambda>y. y\<lparr>m_lock_count := m_lock_count x + 1\<rparr>) s)
     else (Suspended (), sp_enq (Q_lock m) self s))"

text \<open>
  The last unlock hands the mutex to the fiber that has waited longest, takes that fiber
  off the timer queue and makes it ready.
\<close>

definition sp_unlock :: "ptr \<Rightarrow> spec \<Rightarrow> spec" where
  "sp_unlock m s =
    (let n = m_lock_count (the (sp_mutex s m)) in
     if n > 1 then sp_mod_mutex m (\<lambda>x. x\<lparr>m_lock_count := n - 1\<rparr>) s
     else case sp_queues s (Q_lock m) of
         [] \<Rightarrow> sp_mod_mutex m (\<lambda>x. x\<lparr>m_lock_count := 0, m_owner := NULL\<rparr>) s
       | x # _ \<Rightarrow>
           let s = sp_mod_mutex m (\<lambda>y. y\<lparr>m_owner := x, m_lock_count := 1\<rparr>) (sp_deq (Q_lock m) s);
               s = (if timer_of (sp_fiber s) x > 0 then sp_timer_del x s else s) in
           sp_ready x s)"

definition sp_trylock :: "ptr \<Rightarrow> spec \<Rightarrow> int \<times> spec" where
  "sp_trylock m s =
    (let self = sp_self s; x = the (sp_mutex s m) in
     if m_owner x = NULL \<or> (m_is_recursive x \<noteq> 0 \<and> m_owner x = self)
     then (0, sp_mod_mutex m (\<lambda>y. y\<lparr>m_owner := self, m_lock_count := m_lock_count x + 1\<rparr>) s)
     else (EBUSY, sp_errno EBUSY s))"

text \<open>
  Locking on behalf of a fiber that leaves the wait queue of a condition: it runs again
  with its saved count, or it waits for the mutex.
\<close>

definition sp_lock2 :: "ptr \<Rightarrow> ptr \<Rightarrow> spec \<Rightarrow> spec" where
  "sp_lock2 x m s =
    (let s = sp_mod_fiber x (\<lambda>f. f\<lparr>f_timer := 0\<rparr>) s in
     if m_owner (the (sp_mutex s m)) = NULL
     then sp_ready x (sp_mod_mutex m (\<lambda>y. y\<lparr>m_owner := x, m_lock_count := f_lock_count (the (sp_fiber s x))\<rparr>) s)
     else sp_enq (Q_lock m) x s)"

definition sp_timedlock :: "ptr \<Rightarrow> 64 word \<Rightarrow> spec \<Rightarrow> timedlock_k outcome \<times> spec" where
  "sp_timedlock m timeout s =
    (if timeout = 0
     then (case sp_lock m s of (r, s) \<Rightarrow> (case r of Returned _ \<Rightarrow> Returned 0 | Suspended _ \<Rightarrow> Suspended K_lock, s))
     else case sp_trylock m s of (ret, s) \<Rightarrow>
       if ret = 0 then (Returned 0, s)
       else let self = sp_self s; ctx = \<lparr>lc_mutex = m, lc_fiber = self, lc_timeout = 0\<rparr> in
         (Suspended K_timedlock, sp_timer_push self (sp_mod_fiber self (\<lambda>f. f\<lparr>f_timer := sint timeout,
           f_timer_cb := Cb_mutex_timedlock, f_timer_ctx := Ctx_lock ctx\<rparr>) (sp_enq (Q_lock m) self s))))"

definition sp_timedlock_cb :: "ptr \<Rightarrow> lock_ctx \<Rightarrow> spec \<Rightarrow> spec" where
  "sp_timedlock_cb x ctx s =
    sp_ready (lc_fiber ctx) (sp_mod_fiber x (\<lambda>f. f\<lparr>f_timer_ctx := Ctx_lock (ctx\<lparr>lc_timeout := 1\<rparr>)\<rparr>)
      (sp_del (Q_lock (lc_mutex ctx)) (lc_fiber ctx) s))"

text \<open>
  The state of a mutex between two operations: the spinlock is free, the mutex has an
  owner exactly when it is locked, nobody waits for a mutex without owner, the owner does
  not wait for itself.
\<close>

definition mutex_ok :: "melon_mutex \<Rightarrow> ptr list \<Rightarrow> bool" where
  "mutex_ok x q \<longleftrightarrow> m_lock x = 0 \<and> 0 \<le> m_lock_count x \<and> (m_owner x = NULL \<longleftrightarrow> m_lock_count x = 0) \<and>
     (q \<noteq> [] \<longrightarrow> m_owner x \<noteq> NULL) \<and> m_owner x \<notin> set q \<and> distinct q \<and> (m_is_recursive x = 0 \<longrightarrow> m_lock_count x \<le> 1)"

definition mutexes_ok :: "spec \<Rightarrow> bool" where
  "mutexes_ok s \<longleftrightarrow> (\<forall>m x. mutexes (sp_world s) m = Some x \<longrightarrow> mutex_ok x (sp_queues s (Q_lock m)))"

section \<open>Refinement\<close>

lemma wp_lock_queue_push [step]:
  assumes r: "rep w s" and m: "sp_mutex s m \<noteq> None" and f: "idle s f"
    and Q: "\<And>w'. rep w' (sp_enq (Q_lock m) f s) \<Longrightarrow> Q w'"
  shows "wp (lock_queue_push m f w) Q"
proof -
  obtain x where x: "mutexes w m = Some x" using rep_mutexE [OF r] m by blast
  then have "has_queue w (Q_lock m)" by simp
  from rep_push [OF r this _ f] x obtain l F' where
    "fiber_push (m_lock_queue x) f w = Inr (l, w\<lparr>fibers := F'\<rparr>)"
    "rep (w\<lparr>fibers := F', mutexes := (mutexes w)(m \<mapsto> x\<lparr>m_lock_queue := l\<rparr>)\<rparr>) (sp_enq (Q_lock m) f s)" by auto
  with x Q show ?thesis by (simp add: lock_queue_push_def mod_mutex_def)
qed

lemma wp_lock_queue_pop [step]:
  assumes r: "rep w s" and x: "mutexes w m = Some x" "sp_queues s (Q_lock m) = z # zs"
    and Q: "\<And>w'. rep w' (sp_mod_mutex m (\<lambda>x. x\<lparr>m_owner := z\<rparr>) (sp_deq (Q_lock m) s)) \<Longrightarrow> wp (k z w') Q"
  shows "wp (fiber_pop (m_lock_queue x) w) (\<lambda>v. wp (case v of (q, owner, w) \<Rightarrow>
    res_bind (mod_mutex m (\<lambda>m. m\<lparr>m_lock_queue := q, m_owner := owner\<rparr>) w) (k owner)) Q)"
proof -
  have "has_queue w (Q_lock m)" using x by simp
  from rep_pop [OF r this _ x(2)] x obtain l F' where F':
    "fiber_pop (m_lock_queue x) w = Inr (l, z, w\<lparr>fibers := F'\<rparr>)"
    "rep (w\<lparr>fibers := F', mutexes := (mutexes w)(m \<mapsto> x\<lparr>m_lock_queue := l\<rparr>)\<rparr>) (sp_deq (Q_lock m) s)" by auto
  have "rep (w\<lparr>fibers := F', mutexes := (mutexes w)(m \<mapsto> x\<lparr>m_lock_queue := l, m_owner := z\<rparr>)\<rparr>)
    (sp_mod_mutex m (\<lambda>x. x\<lparr>m_owner := z\<rparr>) (sp_deq (Q_lock m) s))"
    using rep_mod_mutex [OF F'(2), of m _ "\<lambda>x. x\<lparr>m_owner := z\<rparr>"] by (simp add: bare_mutex_def)
  with F'(1) x Q show ?thesis by (simp add: mod_mutex_def)
qed

lemma mutex_free_cases:
  assumes "m_lock y = 0"
  obtains ow lq n rc where "y = \<lparr>m_lock = 0, m_owner = ow, m_lock_queue = lq, m_lock_count = n, m_is_recursive = rc\<rparr>"
  using assms by (cases y) simp

lemma mutex_lock_refines:
  assumes r: "rep w s" and self: "sp_self s = self" "idle s self" "\<not> timed s self"
    and m: "m \<noteq> NULL" "sp_mutex s m = Some y" "m_lock y = 0"
    and rec: "m_owner y = self \<Longrightarrow> m_is_recursive y \<noteq> 0 \<and> m_lock_count y < INT_MAX"
  shows "wp (melon_mutex_lock m w) (yields (sp_lock m s))"
proof -
  obtain f where f: "sp_fiber s self = Some f" "self \<noteq> NULL" using self by (auto simp: idle_def)
  obtain ow lq n rc where y: "y = \<lparr>m_lock = 0, m_owner = ow, m_lock_queue = lq, m_lock_count = n, m_is_recursive = rc\<rparr>"
    using m(3) by (rule mutex_free_cases)
  note [simp] = self m(1) m(2) [unfolded y] f bare_mutex_def core_def sp_lock_def
  note rec' = rec [unfolded y, simplified]
  show ?thesis
    unfolding melon_mutex_lock_def Let_def self_eq [OF r]
    using r
    by - (assumption | rule wp | erule step | rule step | (use rec' in \<open>simp; fail\<close>) | (simp add: sp_comm; fail))+
qed

text \<open>The fibers that wait for the mutex with a timeout are in the timer queue.\<close>

lemma mutex_unlock_refines:
  assumes r: "rep w s" and m: "m \<noteq> NULL" "sp_mutex s m = Some y" "m_lock y = 0" "0 < m_lock_count y"
    and t: "\<And>x. x \<in> set (sp_queues s (Q_lock m)) \<Longrightarrow> timer_of (sp_fiber s) x > 0 \<Longrightarrow> timed s x"
  shows "wp (melon_mutex_unlock m w) (\<lambda>w'. rep w' (sp_unlock m s))"
proof -
  obtain ow lq n rc where y: "y = \<lparr>m_lock = 0, m_owner = ow, m_lock_queue = lq, m_lock_count = n, m_is_recursive = rc\<rparr>"
    using m(3) by (rule mutex_free_cases)
  have n: "0 < n" "INT_MIN < n" "(0::int) < INT_MAX" using m(4) y by (simp_all add: INT_MIN_def INT_MAX_def)
  note [simp] = m(1) m(2) [unfolded y] n bare_mutex_def core_def sp_unlock_def
  note eval = melon_mutex_unlock_def Let_def
  consider (more) "n > 1" | (last) "n = 1" "sp_queues s (Q_lock m) = []" | (hand) z zs where "n = 1" "sp_queues s (Q_lock m) = z # zs"
    using n(1) by (cases "n = 1"; cases "sp_queues s (Q_lock m)") auto
  then show ?thesis
  proof cases
    case more
    with r show ?thesis unfolding eval
      by - (assumption | rule wp | erule step | rule step | (simp; fail) | (erule rep_eq, simp add: sp_comm; fail))+
  next
    case last
    note [simp] = last
    from r show ?thesis unfolding eval
      by - (assumption | rule wp | erule step | rule step | (simp; fail) | (erule rep_eq, simp add: sp_comm; fail))+
  next
    case hand
    with rep_member [OF r, of z "Q_lock m"] obtain f where f: "sp_fiber s z = Some f" "z \<noteq> NULL" by auto
    note [simp] = f hand idle_sp_deq [OF r hand(2)] t [of z]
    have "timed s z" if "f_timer f > 0" using t [of z] that by (simp add: timer_of_def)
    with r show ?thesis unfolding eval
      by - (assumption | rule wp | erule step | rule step | (simp; fail) |
        (rule rep_eq, rule rep_unlock_lift, assumption, simp add: sp_comm Let_def timer_of_def; fail))+
  qed
qed


lemma mutex_trylock_refines:
  assumes r: "rep w s" and m: "m \<noteq> NULL" "sp_mutex s m = Some y" "m_lock y = 0" "m_lock_count y < INT_MAX"
  shows "wp (melon_mutex_trylock m w) (yields (sp_trylock m s))"
proof -
  obtain ow lq n rc where y: "y = \<lparr>m_lock = 0, m_owner = ow, m_lock_queue = lq, m_lock_count = n, m_is_recursive = rc\<rparr>"
    using m(3) by (rule mutex_free_cases)
  note [simp] = m(1) m(2) [unfolded y] m(4) [unfolded y, simplified] bare_mutex_def sp_trylock_def self_eq
  from r show ?thesis unfolding melon_mutex_trylock_def
    by - (assumption | rule wp | erule step | rule step | (simp; fail) | (auto simp: sp_comm Let_def; fail))+
qed

lemma mutex_lock2_refines:
  assumes r: "rep w s" and x: "idle s x" "\<not> timed s x" "sp_fiber s x = Some f"
    and m: "m \<noteq> NULL" "sp_mutex s m = Some y" "m_lock y = 0" "m_owner y \<noteq> x"
    and n: "m_owner y = NULL \<Longrightarrow> f_lock_count f = 1 \<or> f_lock_count f > 1 \<and> m_is_recursive y \<noteq> 0"
  shows "wp (melon_mutex_lock2 x m w) (\<lambda>w'. rep w' (sp_lock2 x m s))"
proof -
  obtain ow lq n rc where y: "y = \<lparr>m_lock = 0, m_owner = ow, m_lock_queue = lq, m_lock_count = n, m_is_recursive = rc\<rparr>"
    using m(3) by (rule mutex_free_cases)
  have "x \<noteq> NULL" using x by (simp add: idle_def)
  note [simp] = this x m(1) m(2) [unfolded y] m(4) [unfolded y, simplified] bare_mutex_def core_def
  note n' = n [unfolded y, simplified]
  from r show ?thesis unfolding melon_mutex_lock2_def
    by - (assumption | rule wp | erule step | rule step | (use n' in \<open>simp; fail\<close>) |
      (erule rep_eq, simp add: sp_lock2_def sp_comm Let_def; fail))+
qed

text \<open>
  With a timeout the fiber waits in the lock queue and in the timer queue. Between the
  failed try and the second look at the mutex the runs of this model let no other fiber
  in, so the second look finds it still taken.
\<close>

lemma mutex_timedlock_refines:
  assumes r: "rep w s" and self: "sp_self s = self" "idle s self" "\<not> timed s self"
    and m: "m \<noteq> NULL" "sp_mutex s m = Some y" "m_lock y = 0" "m_lock_count y < INT_MAX"
    and rec: "timeout = 0 \<Longrightarrow> m_owner y = self \<Longrightarrow> m_is_recursive y \<noteq> 0"
  shows "wp (melon_mutex_timedlock m timeout w) (yields (sp_timedlock m timeout s))"
proof (cases "timeout = 0")
  case True
  with m rec have "wp (melon_mutex_lock m w) (yields (sp_lock m s))" by (intro mutex_lock_refines [OF r self]) auto
  with True show ?thesis
    by (auto simp: melon_mutex_timedlock_def sp_timedlock_def wp_def yields_def split: prod.splits)
next
  case False
  note tried = mutex_trylock_refines [OF r m]
  obtain ow lq n rc where y: "y = \<lparr>m_lock = 0, m_owner = ow, m_lock_queue = lq, m_lock_count = n, m_is_recursive = rc\<rparr>"
    using m(3) by (rule mutex_free_cases)
  show ?thesis
  proof (cases "fst (sp_trylock m s) = 0")
    case True
    with False tried show ?thesis
      by (auto simp: melon_mutex_timedlock_def sp_timedlock_def wp_def yields_def split: prod.splits)
  next
    case f: False
    then have s': "sp_trylock m s = (EBUSY, sp_errno EBUSY s)" "m_owner y \<noteq> NULL"
      using m by (auto simp: sp_trylock_def Let_def split: if_splits)
    then have ow: "ow \<noteq> NULL" "NULL \<noteq> ow" using y by auto
    obtain g where g: "sp_fiber s self = Some g" "self \<noteq> NULL" using self by (auto simp: idle_def)
    note [simp] = self m(1) m(2) [unfolded y] ow bare_mutex_def core_def g
    show ?thesis
      unfolding melon_mutex_timedlock_def Let_def using False
      apply (simp only: if_False)
      apply (rule wp_bindI, rule wp_yieldsE [OF tried], unfold s'(1) fst_conv snd_conv case_prod_conv)
      by (assumption | rule wp | erule step | rule step | (simp add: EBUSY_def; fail) |
          (simp add: s' sp_timedlock_def sp_comm Let_def EBUSY_def; fail))+
  qed
qed

lemma wp_lock_queue_unlink [step]:
  assumes r: "rep w s" and x: "mutexes w m = Some x" "z \<in> set (sp_queues s (Q_lock m))"
    and Q: "\<And>w'. rep w' (sp_del (Q_lock m) z s) \<Longrightarrow> wp (k w') Q"
  shows "wp (fiber_unlink (m_lock_queue x) z w) (\<lambda>v. wp (case v of (q, w) \<Rightarrow>
    res_bind (mod_mutex m (\<lambda>m. m\<lparr>m_lock_queue := q\<rparr>) w) k) Q)"
proof -
  have "has_queue w (Q_lock m)" using x by simp
  from rep_unlink [OF r this _ x(2)] x obtain l F' where F':
    "fiber_unlink (m_lock_queue x) z w = Inr (l, w\<lparr>fibers := F'\<rparr>)"
    "rep (w\<lparr>fibers := F', mutexes := (mutexes w)(m \<mapsto> x\<lparr>m_lock_queue := l\<rparr>)\<rparr>) (sp_del (Q_lock m) z s)" by auto
  with x Q show ?thesis by (simp add: mod_mutex_def)
qed

text \<open>The callback runs with the fiber off the timer queue and still in the lock queue.\<close>

lemma mutex_timedlock_cb_refines:
  assumes r: "rep w s" and m: "sp_mutex s (lc_mutex ctx) = Some y" "m_lock y = 0"
    and x: "lc_fiber ctx = x" "x \<in> set (sp_queues s (Q_lock (lc_mutex ctx)))"
  shows "wp (melon_mutex_timedlock_cb x ctx w) (\<lambda>w'. rep w' (sp_timedlock_cb x ctx s))"
proof -
  obtain f where "sp_fiber s x = Some f" using rep_member [OF r x(2)] by blast
  note [simp] = m x this bare_mutex_def core_def idle_sp_del [OF r x(2)]
  from r show ?thesis unfolding melon_mutex_timedlock_cb_def
    by - (assumption | rule wp | erule step | rule step | (simp; fail) |
      (erule rep_eq, simp add: sp_timedlock_cb_def sp_comm; fail))+
qed

lemma sp_unlock_simps [simp]:
  "sp_self (sp_unlock m s) = sp_self s" "sp_cond (sp_unlock m s) = sp_cond s"
  "sp_queues (sp_unlock m s) (Q_wait c) = sp_queues s (Q_wait c)"
  by (simp_all add: sp_unlock_def Let_def split: list.splits)

lemma sp_lock2_simps [simp]:
  "sp_self (sp_lock2 x m s) = sp_self s" "sp_cond (sp_lock2 x m s) = sp_cond s"
  "sp_queues (sp_lock2 x m s) (Q_wait c) = sp_queues s (Q_wait c)" "sp_timers (sp_lock2 x m s) = sp_timers s"
  "sp_queues (sp_lock2 x m s) Q_signal = sp_queues s Q_signal"
  by (simp_all add: sp_lock2_def Let_def)

section \<open>The mutex invariant\<close>

text \<open>
  Every operation keeps \<open>mutexes_ok\<close>: between two operations no spinlock is held, the
  owner and the count agree and the owner waits for nobody's turn but its own.
\<close>

lemma mutexes_okI:
  assumes "mutexes_ok s" and "sp_mutex s m = Some y"
    and "\<And>m'. m' \<noteq> m \<Longrightarrow> sp_mutex s' m' = sp_mutex s m' \<and> sp_queues s' (Q_lock m') = sp_queues s (Q_lock m')"
    and "\<And>y'. sp_mutex s' m = Some y' \<Longrightarrow> mutex_ok y (sp_queues s (Q_lock m)) \<Longrightarrow> mutex_ok y' (sp_queues s' (Q_lock m))"
  shows "mutexes_ok s'"
  unfolding mutexes_ok_def
proof (intro allI impI)
  fix m' y'
  assume "sp_mutex s' m' = Some y'"
  then show "mutex_ok y' (sp_queues s' (Q_lock m'))"
    using assms by (cases "m' = m") (auto simp: mutexes_ok_def)
qed

lemma mutexes_okD: "mutexes_ok s \<Longrightarrow> sp_mutex s m = Some y \<Longrightarrow> mutex_ok y (sp_queues s (Q_lock m))"
  by (simp add: mutexes_ok_def)

lemma sp_lock_ok:
  assumes "mutexes_ok s" and "sp_mutex s m = Some y" and "idle s (sp_self s)"
    and "m_owner y = sp_self s \<Longrightarrow> m_is_recursive y \<noteq> 0"
  shows "mutexes_ok (snd (sp_lock m s))"
proof -
  have "sp_self s \<noteq> NULL" "sp_self s \<notin> set (sp_queues s (Q_lock m))" using assms(3) by (auto simp: idle_def)
  then show ?thesis
    by (intro mutexes_okI [OF assms(1,2)])
      (use assms(2,4) in \<open>auto simp: sp_lock_def mutex_ok_def Let_def split: if_splits\<close>)
qed

lemma sp_unlock_ok:
  assumes "mutexes_ok s" and "sp_mutex s m = Some y" and "0 < m_lock_count y"
    and "NULL \<notin> set (sp_queues s (Q_lock m))"
  shows "mutexes_ok (sp_unlock m s)"
  by (rule mutexes_okI [OF assms(1,2)])
    (use assms(2-4) in \<open>auto simp: sp_unlock_def mutex_ok_def Let_def split: if_splits list.splits\<close>)

lemma sp_trylock_ok:
  assumes "mutexes_ok s" and "sp_mutex s m = Some y" and "idle s (sp_self s)"
  shows "mutexes_ok (snd (sp_trylock m s))"
proof -
  have "sp_self s \<noteq> NULL" "sp_self s \<notin> set (sp_queues s (Q_lock m))" using assms(3) by (auto simp: idle_def)
  then show ?thesis
    by (intro mutexes_okI [OF assms(1,2)])
      (use assms(2) in \<open>auto simp: sp_trylock_def mutex_ok_def Let_def split: if_splits\<close>)
qed

lemma sp_lock2_ok:
  assumes "mutexes_ok s" and "sp_mutex s m = Some y" and "idle s x" and "sp_fiber s x = Some f"
    and "m_owner y = NULL \<Longrightarrow> f_lock_count f = 1 \<or> f_lock_count f > 1 \<and> m_is_recursive y \<noteq> 0" and "m_owner y \<noteq> x"
  shows "mutexes_ok (sp_lock2 x m s)"
proof -
  have "x \<noteq> NULL" "x \<notin> set (sp_queues s (Q_lock m))" using assms(3) by (auto simp: idle_def)
  then show ?thesis
    by (intro mutexes_okI [OF assms(1,2)])
      (use assms(2,4-6) in \<open>auto simp: sp_lock2_def mutex_ok_def Let_def split: if_splits\<close>)
qed

lemma sp_timedlock_ok:
  assumes "mutexes_ok s" and "sp_mutex s m = Some y" and "idle s (sp_self s)"
    and "m_owner y = sp_self s \<Longrightarrow> m_is_recursive y \<noteq> 0"
  shows "mutexes_ok (snd (sp_timedlock m t s))"
proof (cases "t = 0 \<or> fst (sp_trylock m s) = 0")
  case True
  then show ?thesis using sp_lock_ok [OF assms] sp_trylock_ok [OF assms(1-3)]
    by (auto simp: sp_timedlock_def split: prod.splits)
next
  case False
  then have "m_owner y \<noteq> NULL" "m_owner y \<noteq> sp_self s" "sp_trylock m s = (EBUSY, sp_errno EBUSY s)"
    using assms by (auto simp: sp_trylock_def Let_def split: if_splits)
  moreover have "sp_self s \<noteq> NULL" "sp_self s \<notin> set (sp_queues s (Q_lock m))" using assms(3) by (auto simp: idle_def)
  ultimately show ?thesis
    by (intro mutexes_okI [OF assms(1,2)]) (use False assms(2) in \<open>auto simp: sp_timedlock_def mutex_ok_def Let_def\<close>)
qed

lemma sp_timedlock_cb_ok:
  assumes "mutexes_ok s" and "sp_mutex s (lc_mutex ctx) = Some y"
  shows "mutexes_ok (sp_timedlock_cb x ctx s)"
  by (rule mutexes_okI [OF assms])
    (auto simp: sp_timedlock_cb_def mutex_ok_def assms dest: notin_set_remove1 split: if_splits)

end
