(* ===== verification/Melon_Cond.thy ===== *)
theory Melon_Cond
  imports Melon_Mutex
begin

text \<open>
  The condition variable of \<^verbatim>\<open>src/cond.c\<close>: a first-in first-out queue of waiting
  fibers, each of which takes its mutex back before it runs again.
\<close>

section \<open>Attributes, creation, destruction\<close>

definition melon_condattr_init :: "int \<times> ptr" where
  "melon_condattr_init = (0, NULL)"

definition new_cond :: melon_cond where
  "new_cond = \<lparr>c_lock = melon_spin_init, c_wait_queue = NULL\<rparr>"

definition melon_cond_init :: "ptr \<Rightarrow> world \<Rightarrow> int \<times> ptr \<times> world" where
  "melon_cond_init malloc w =
    (if malloc = NULL then (-1, NULL, w)
     else (0, malloc, w\<lparr>conds := (conds w)(malloc \<mapsto> new_cond)\<rparr>))"

definition melon_cond_destroy :: "ptr \<Rightarrow> world \<Rightarrow> world res" where
  "melon_cond_destroy condition w =
    res_bind (cond_spin_lock condition w) (\<lambda>w.
    res_bind (load (conds w) condition) (\<lambda>c.
    assert_that (c_wait_queue c = NULL) (
    Inr (w\<lparr>conds := (conds w)(condition := None)\<rparr>))))"

section \<open>Waiting\<close>

text \<open>\<^verbatim>\<open>melon_dlist_push(condition->wait_queue, self, )\<close>\<close>

definition wait_queue_push :: "ptr \<Rightarrow> ptr \<Rightarrow> world \<Rightarrow> world res" where
  "wait_queue_push condition fiber w =
    res_bind (load (conds w) condition) (\<lambda>c.
    res_bind (fiber_push (c_wait_queue c) fiber w) (\<lambda>(q, w).
    mod_cond condition (\<lambda>c. c\<lparr>c_wait_queue := q\<rparr>) w))"

definition melon_cond_wait :: "ptr \<Rightarrow> ptr \<Rightarrow> world \<Rightarrow> (unit outcome \<times> world) res" where
  "melon_cond_wait condition mutex w =
    (let self = g_current_fiber w in
    assert_that (condition \<noteq> NULL) (
    assert_that (mutex \<noteq> NULL) (
    res_bind (load (mutexes w) mutex) (\<lambda>m.
    assert_that (m_owner m = self) (
    res_bind (mod_fiber self (\<lambda>f. f\<lparr>f_cond_mutex := mutex, f_lock_count := m_lock_count m, f_timer := 0\<rparr>) w) (\<lambda>w.
    res_bind (cond_spin_lock condition w) (\<lambda>w.
    res_bind (wait_queue_push condition self w) (\<lambda>w.
    res_bind (cond_spin_unlock condition w) (\<lambda>w.
    res_bind (mod_mutex mutex (\<lambda>m. m\<lparr>m_lock_count := 1\<rparr>) w) (\<lambda>w.
    res_bind (melon_mutex_unlock mutex w) (\<lambda>w.
    res_bind (melon_sched_next w) (\<lambda>w.
    Inr (Suspended (), w)))))))))))))"

text \<open>The callback of the timer of the fiber \<open>cur\<close>, whose stack holds the context.\<close>

definition melon_cond_timedwait_cb :: "ptr \<Rightarrow> wait_ctx \<Rightarrow> world \<Rightarrow> world res" where
  "melon_cond_timedwait_cb cur ctx w =
    assert_that (wc_debug ctx = 0) (
    res_bind (mod_fiber cur (\<lambda>f. f\<lparr>f_timer_ctx := Ctx_wait (ctx\<lparr>wc_debug := 1\<rparr>)\<rparr>) w) (\<lambda>w.
    res_bind (cond_spin_lock (wc_cond ctx) w) (\<lambda>w.
    res_bind (load (conds w) (wc_cond ctx)) (\<lambda>c.
    res_bind (fiber_unlink (c_wait_queue c) (wc_fiber ctx) w) (\<lambda>(q, w).
    res_bind (mod_cond (wc_cond ctx) (\<lambda>c. c\<lparr>c_wait_queue := q\<rparr>) w) (\<lambda>w.
    res_bind (cond_spin_unlock (wc_cond ctx) w) (\<lambda>w.
    res_bind (mod_fiber cur (\<lambda>f. f\<lparr>f_timer_ctx := Ctx_wait (ctx\<lparr>wc_timeout := 1, wc_debug := 1\<rparr>)\<rparr>) w) (\<lambda>w.
    res_bind (load (fibers w) (wc_fiber ctx)) (\<lambda>f.
    melon_mutex_lock2 (wc_fiber ctx) (f_cond_mutex f) w)))))))))"

text \<open>The parts of \<^verbatim>\<open>melon_cond_timedwait\<close> that follow a suspension.\<close>

datatype timedwait_k = K_wait | K_timedwait

definition melon_cond_timedwait :: "ptr \<Rightarrow> ptr \<Rightarrow> 64 word \<Rightarrow> world \<Rightarrow> (timedwait_k outcome \<times> world) res" where
  "melon_cond_timedwait condition mutex timeout w =
    (if timeout = 0
     then
       res_bind (melon_cond_wait condition mutex w) (\<lambda>(r, w).
       Inr (case r of Returned _ \<Rightarrow> Returned 0 | Suspended _ \<Rightarrow> Suspended K_wait, w))
     else
       let self = g_current_fiber w in
       assert_that (condition \<noteq> NULL) (
       assert_that (mutex \<noteq> NULL) (
       res_bind (load (mutexes w) mutex) (\<lambda>m.
       assert_that (m_owner m = self) (
       res_bind (mod_fiber self (\<lambda>f. f\<lparr>f_cond_mutex := mutex, f_lock_count := m_lock_count m\<rparr>) w) (\<lambda>w.
       res_bind (cond_spin_lock condition (glock_lock w)) (\<lambda>w.
       res_bind (wait_queue_push condition self w) (\<lambda>w.
       let ctx = \<lparr>wc_fiber = self, wc_cond = condition, wc_timeout = 0, wc_debug = 0\<rparr> in
       res_bind (mod_fiber self (\<lambda>f. f\<lparr>f_timer := sint timeout, f_timer_cb := Cb_cond_timedwait,
         f_timer_ctx := Ctx_wait ctx\<rparr>) w) (\<lambda>w.
       res_bind (melon_timer_push_locked w) (\<lambda>w.
       res_bind (cond_spin_unlock condition w) (\<lambda>w.
       res_bind (mod_mutex mutex (\<lambda>m. m\<lparr>m_lock_count := 1\<rparr>) (glock_unlock w)) (\<lambda>w.
       res_bind (melon_mutex_unlock mutex w) (\<lambda>w.
       res_bind (melon_sched_next w) (\<lambda>w.
       Inr (Suspended K_timedwait, w)))))))))))))))"

definition melon_cond_timedwait_resume :: "timedwait_k \<Rightarrow> world \<Rightarrow> (int \<times> world) res" where
  "melon_cond_timedwait_resume k w =
    (case k of
       K_wait \<Rightarrow> Inr (0, w)
     | K_timedwait \<Rightarrow>
         res_bind (load (fibers w) (g_current_fiber w)) (\<lambda>f.
         case f_timer_ctx f of
           Ctx_wait ctx \<Rightarrow> if wc_timeout ctx = 0 then Inr (0, w) else Inr (- ETIMEDOUT, w\<lparr>errno := ETIMEDOUT\<rparr>)
         | _ \<Rightarrow> Inl Bad_deref))"

section \<open>Signalling\<close>

text \<open>
  The loop of \<^verbatim>\<open>melon_cond_signalnb\<close>. The local variable \<^verbatim>\<open>list\<close> is the
  field \<open>signal_list\<close> of the state.
\<close>

partial_function (option) signal_loop :: "32 word \<Rightarrow> 32 word \<Rightarrow> world \<Rightarrow> (32 word \<times> world) res option" where
  [code]: "signal_loop nb nwokeup w =
    (if \<not> (nb = 0 \<or> nwokeup < nb) then Some (Inr (nwokeup, w))
     else (case fiber_pop (signal_list w) w of
         Inl e \<Rightarrow> Some (Inl e)
       | Inr r \<Rightarrow> (case r of (list, fiber, w) \<Rightarrow>
           let w = w\<lparr>signal_list := list\<rparr> in
           if fiber = NULL then Some (Inr (nwokeup, w))
           else (case load (fibers w) fiber of
               Inl e \<Rightarrow> Some (Inl e)
             | Inr f \<Rightarrow> (case (if f_timer f > 0 then melon_timer_remove_locked fiber w else Inr w) of
                   Inl e \<Rightarrow> Some (Inl e)
                 | Inr w \<Rightarrow> (case melon_mutex_lock2 fiber (f_cond_mutex f) w of
                       Inl e \<Rightarrow> Some (Inl e)
                     | Inr w \<Rightarrow> signal_loop nb (nwokeup + 1) w))))))"

definition melon_cond_signalnb :: "ptr \<Rightarrow> 32 word \<Rightarrow> world \<Rightarrow> (int \<times> world) res" where
  "melon_cond_signalnb condition nb w =
    res_bind (cond_spin_lock condition (glock_lock w)) (\<lambda>w.
    res_bind (load (conds w) condition) (\<lambda>c.
    res_bind (mod_cond condition (\<lambda>c. c\<lparr>c_wait_queue := NULL\<rparr>) (w\<lparr>signal_list := c_wait_queue c\<rparr>)) (\<lambda>w.
    res_bind (run_loop (signal_loop nb 0 w)) (\<lambda>(nwokeup, w).
    res_bind (cond_spin_unlock condition w) (\<lambda>w.
    Inr (sint nwokeup, glock_unlock w))))))"

definition melon_cond_signal :: "ptr \<Rightarrow> world \<Rightarrow> (int \<times> world) res" where
  "melon_cond_signal condition w = melon_cond_signalnb condition 1 w"

definition melon_cond_broadcast :: "ptr \<Rightarrow> world \<Rightarrow> (int \<times> world) res" where
  "melon_cond_broadcast condition w = melon_cond_signalnb condition 0 w"

section \<open>Specification\<close>

definition sp_cond_wait :: "ptr \<Rightarrow> ptr \<Rightarrow> spec \<Rightarrow> unit outcome \<times> spec" where
  "sp_cond_wait c m s =
    (let self = sp_self s; n = m_lock_count (the (sp_mutex s m)) in
     (Suspended (), sp_unlock m (sp_mod_mutex m (\<lambda>x. x\<lparr>m_lock_count := 1\<rparr>) (sp_enq (Q_wait c) self
       (sp_mod_fiber self (\<lambda>f. f\<lparr>f_cond_mutex := m, f_lock_count := n, f_timer := 0\<rparr>) s)))))"

definition sp_timedwait :: "ptr \<Rightarrow> ptr \<Rightarrow> 64 word \<Rightarrow> spec \<Rightarrow> timedwait_k outcome \<times> spec" where
  "sp_timedwait c m timeout s =
    (let self = sp_self s; n = m_lock_count (the (sp_mutex s m)) in
     if timeout = 0 then (Suspended K_wait, snd (sp_cond_wait c m s))
     else
       (Suspended K_timedwait, sp_unlock m (sp_mod_mutex m (\<lambda>x. x\<lparr>m_lock_count := 1\<rparr>) (sp_timer_push self
         (sp_mod_fiber self (\<lambda>f. f\<lparr>f_timer := sint timeout, f_timer_cb := Cb_cond_timedwait, f_timer_ctx :=
           Ctx_wait \<lparr>wc_fiber = self, wc_cond = c, wc_timeout = 0, wc_debug = 0\<rparr>\<rparr>) (sp_enq (Q_wait c) self
         (sp_mod_fiber self (\<lambda>f. f\<lparr>f_cond_mutex := m, f_lock_count := n\<rparr>) s)))))))"

text \<open>The fiber leaves the timer queue and takes its mutex back.\<close>

definition sp_wake :: "ptr \<Rightarrow> spec \<Rightarrow> spec" where
  "sp_wake x s =
    sp_lock2 x (f_cond_mutex (the (sp_fiber s x))) (if timer_of (sp_fiber s) x > 0 then sp_timer_del x s else s)"

text \<open>All the waiting fibers are woken, in the order of the queue.\<close>

fun sp_wake_all :: "qid \<Rightarrow> ptr list \<Rightarrow> spec \<Rightarrow> spec" where
  "sp_wake_all q [] s = s"
| "sp_wake_all q (x # xs) s = sp_wake_all q xs (sp_wake x (sp_deq q s))"

definition sp_broadcast :: "ptr \<Rightarrow> spec \<Rightarrow> spec" where
  "sp_broadcast c s = sp_wake_all (Q_wait c) (sp_queues s (Q_wait c)) s"

text \<open>What the code relies on when it wakes a fiber.\<close>

definition waiter_ok :: "spec \<Rightarrow> ptr \<Rightarrow> bool" where
  "waiter_ok s x \<longleftrightarrow> (\<exists>f y. sp_fiber s x = Some f \<and> (f_timer f > 0 \<longleftrightarrow> timed s x) \<and> f_cond_mutex f \<noteq> NULL \<and>
     sp_mutex s (f_cond_mutex f) = Some y \<and> m_lock y = 0 \<and> m_owner y \<noteq> x \<and>
     (f_lock_count f = 1 \<or> f_lock_count f > 1 \<and> m_is_recursive y \<noteq> 0))"

section \<open>Refinement of waiting\<close>

lemma wp_load_cond [step]:
  assumes "rep w s" and "sp_cond s c = Some y"
    and "\<And>x. (c_wait_queue x = NULL \<longleftrightarrow> sp_queues s (Q_wait c) = []) \<Longrightarrow> conds w c = Some x \<Longrightarrow> rep w s \<Longrightarrow> Q x"
  shows "wp (load (conds w) c) Q"
proof -
  obtain x where x: "conds w c = Some x" using rep_condE [OF assms(1,2)] .
  have "Q x" by (rule assms(3)) (simp_all add: x assms(1) rep_wait_queue [OF assms(1) x])
  with x show ?thesis by simp
qed

lemma wp_wait_queue_push [step]:
  assumes r: "rep w s" and c: "sp_cond s c \<noteq> None" and f: "idle s f"
    and Q: "\<And>w'. rep w' (sp_enq (Q_wait c) f s) \<Longrightarrow> Q w'"
  shows "wp (wait_queue_push c f w) Q"
proof -
  obtain x where x: "conds w c = Some x" using rep_condE [OF r] c by blast
  then have "has_queue w (Q_wait c)" by simp
  from rep_push [OF r this _ f] x obtain l F' where
    "fiber_push (c_wait_queue x) f w = Inr (l, w\<lparr>fibers := F'\<rparr>)"
    "rep (w\<lparr>fibers := F', conds := (conds w)(c \<mapsto> x\<lparr>c_wait_queue := l\<rparr>)\<rparr>) (sp_enq (Q_wait c) f s)" by auto
  with x Q show ?thesis by (simp add: wait_queue_push_def mod_cond_def)
qed

text \<open>The fibers that wait for a mutex with a timeout are in the timer queue.\<close>

definition lockers_timed :: "spec \<Rightarrow> ptr \<Rightarrow> bool" where
  "lockers_timed s m \<longleftrightarrow> (\<forall>x \<in> set (sp_queues s (Q_lock m)). timer_of (sp_fiber s) x > 0 \<longrightarrow> timed s x)"

lemma wp_mutex_unlock [step]:
  assumes "rep w s" and "m \<noteq> NULL" and "sp_mutex s m = Some y" and "m_lock y = 0" and "0 < m_lock_count y"
    and "lockers_timed s m" and "\<And>w'. rep w' (sp_unlock m s) \<Longrightarrow> Q w'"
  shows "wp (melon_mutex_unlock m w) Q"
  using wp_conseq [OF mutex_unlock_refines [OF assms(1-5)]] assms(6,7) by (auto simp: lockers_timed_def)

lemma cond_wait_refines:
  assumes r: "rep w s" and self: "sp_self s = self" "idle s self" "\<not> timed s self"
    and c: "c \<noteq> NULL" "sp_cond s c = Some z" "c_lock z = 0"
    and m: "m \<noteq> NULL" "sp_mutex s m = Some y" "m_lock y = 0" "m_owner y = self" and t: "lockers_timed s m"
  shows "wp (melon_cond_wait c m w) (yields (sp_cond_wait c m s))"
proof -
  obtain f where f: "sp_fiber s self = Some f" "self \<noteq> NULL" using self by (auto simp: idle_def)
  have i: "self \<notin> set (sp_queues s q)" for q using self by (simp add: idle_def)
  note [simp] = self c m f i bare_mutex_def core_def
  have t': "lockers_timed (sp_mod_mutex m (\<lambda>x. x\<lparr>m_lock_count := 1\<rparr>) (sp_cspin c 0 (sp_enq (Q_wait c) self (sp_cspin c 1
     (sp_mod_fiber self (\<lambda>f. f\<lparr>f_cond_mutex := m, f_lock_count := n, f_timer := 0\<rparr>) s))))) m" for n
    using t by (auto simp: lockers_timed_def timer_of_def)
  from r show ?thesis
    unfolding melon_cond_wait_def Let_def rep_current [OF r, symmetric]
    by - (assumption | rule wp | erule step | rule step | (simp add: t'; fail) |
      (simp add: sp_cond_wait_def sp_comm Let_def; fail))+
qed

lemma cond_timedwait_refines:
  assumes r: "rep w s" and self: "sp_self s = self" "idle s self" "\<not> timed s self"
    and c: "c \<noteq> NULL" "sp_cond s c = Some z" "c_lock z = 0"
    and m: "m \<noteq> NULL" "sp_mutex s m = Some y" "m_lock y = 0" "m_owner y = self" and t: "lockers_timed s m"
  shows "wp (melon_cond_timedwait c m timeout w) (yields (sp_timedwait c m timeout s))"
proof (cases "timeout = 0")
  case True
  moreover have "wp (melon_cond_wait c m w) (yields (sp_cond_wait c m s))"
    by (rule cond_wait_refines [OF r self c m t])
  ultimately show ?thesis
    by (auto simp: melon_cond_timedwait_def sp_timedwait_def sp_cond_wait_def wp_def yields_def Let_def)
next
  case False
  obtain f where f: "sp_fiber s self = Some f" "self \<noteq> NULL" using self by (auto simp: idle_def)
  have i: "self \<notin> set (sp_queues s q)" for q using self by (simp add: idle_def)
  have lt: "lockers_timed s' m"
    if "sp_queues s' (Q_lock m) = sp_queues s (Q_lock m)" "\<And>x. timed s' x \<longleftrightarrow> x = self \<or> timed s x"
      "\<And>x. x \<noteq> self \<Longrightarrow> sp_fiber s' x = sp_fiber s x" for s'
    using t that unfolding lockers_timed_def timer_of_def by metis
  note [simp] = self c m f i bare_mutex_def core_def
  from r show ?thesis
    unfolding melon_cond_timedwait_def Let_def rep_current [OF r, symmetric] if_not_P [OF False]
    by - (assumption | rule wp | erule step | rule step | (simp; fail) | (rule lt; simp; fail) |
      (simp add: sp_timedwait_def False sp_comm Let_def; fail))+
qed

section \<open>Refinement of signalling\<close>

text \<open>The step that takes the whole wait queue off the condition.\<close>

definition sp_detach :: "ptr \<Rightarrow> spec \<Rightarrow> spec" where
  "sp_detach c s = s\<lparr>sp_queues := (sp_queues s)(Q_signal := sp_queues s (Q_wait c), Q_wait c := [])\<rparr>"

lemma sp_cond_detach [simp]: "sp_cond (sp_detach c s) = sp_cond s"
  by (simp add: sp_detach_def)

lemma rep_detach:
  assumes r: "rep w s" and c: "conds w c = Some x" and e: "sp_queues s Q_signal = []"
  shows "rep (w\<lparr>signal_list := c_wait_queue x, conds := (conds w)(c \<mapsto> x\<lparr>c_wait_queue := NULL\<rparr>)\<rparr>) (sp_detach c s)"
proof -
  let ?w = "w\<lparr>signal_list := c_wait_queue x, conds := (conds w)(c \<mapsto> x\<lparr>c_wait_queue := NULL\<rparr>)\<rparr>"
  let ?qs = "(sp_queues s)(Q_signal := sp_queues s (Q_wait c), Q_wait c := [])"
  have h: "qhead ?w q = ((qhead w)(Q_signal := qhead w (Q_wait c), Q_wait c := NULL)) q" for q
    using c by (cases q) auto
  have q: "qrep (fibers w) (qhead w) (sp_queues s)" using rep_qrep [OF r] .
  have qa: "queue_at q (fibers w) (qhead w q) (sp_queues s q)" for q using q by (simp add: qrep_def)
  have "queue_at q (fibers w) (qhead ?w q) (?qs q)" for q
    unfolding h using qa [of q] qa [of "Q_wait c"] by (auto simp: queue_at_def)
  moreover have dj: "q \<noteq> q' \<Longrightarrow> set (sp_queues s q) \<inter> set (sp_queues s q') = {}" for q q' using q by (simp add: qrep_def)
  have "set (?qs q) \<inter> set (?qs q') = {}" if "q \<noteq> q'" for q q'
    using dj [of q q'] dj [of "Q_wait c" q'] dj [of q "Q_wait c"] that e by (auto split: if_splits)
  ultimately have "qrep (fibers w) (qhead ?w) ?qs" by (simp add: qrep_def)
  moreover have "erase ?w = erase w" using bare_same(2) [of "conds w" c x NULL] c by (simp add: erase_def)
  moreover have "f_next f = NULL" if "fibers w p = Some f" "\<forall>q. p \<notin> set (?qs q)" for p f
  proof -
    have "p \<notin> set (sp_queues s q)" for q
      using that(2) [rule_format, of q] that(2) [rule_format, of Q_signal] e by (auto split: if_splits)
    with rep_lone [OF r that(1)] show ?thesis by blast
  qed
  ultimately show ?thesis using r by (simp add: rep_def wrep_def sp_detach_def)
qed

lemma wp_mutex_lock2 [step]:
  assumes "rep w s" and "idle s x" and "\<not> timed s x" and "sp_fiber s x = Some f"
    and "m \<noteq> NULL" and "sp_mutex s m = Some y" and "m_lock y = 0" and "m_owner y \<noteq> x"
    and "f_lock_count f = 1 \<or> f_lock_count f > 1 \<and> m_is_recursive y \<noteq> 0"
    and "\<And>w'. rep w' (sp_lock2 x m s) \<Longrightarrow> Q w'"
  shows "wp (melon_mutex_lock2 x m w) Q"
  using wp_conseq [OF mutex_lock2_refines [OF assms(1-8)]] assms(9,10) by blast

text \<open>One turn of the loop.\<close>

lemma signal_wake:
  assumes r: "rep w s" and x: "idle s x" "waiter_ok s x"
  shows "wp (load (fibers w) x) (\<lambda>f.
    wp (if f_timer f > 0 then melon_timer_remove_locked x w else Inr w) (\<lambda>w.
    wp (melon_mutex_lock2 x (f_cond_mutex f) w) (\<lambda>w'. rep w' (sp_wake x s))))"
proof -
  from x(2) obtain f y where f: "sp_fiber s x = Some f" "f_timer f > 0 \<longleftrightarrow> timed s x" "f_cond_mutex f \<noteq> NULL"
    "sp_mutex s (f_cond_mutex f) = Some y" "m_lock y = 0" "m_owner y \<noteq> x"
    "f_lock_count f = 1 \<or> f_lock_count f > 1 \<and> m_is_recursive y \<noteq> 0"
    by (auto simp: waiter_ok_def)
  have d: "\<not> timed (sp_timer_del x s) x"
    using r by (auto simp: timed_def rep_def wrep_def trep_def dest: dlist_distinct)
  note [simp] = x f d
  from r show ?thesis
    by - (assumption | rule wp | erule step | rule step | (simp; fail) |
      (erule rep_eq, simp add: sp_wake_def timer_of_def; fail))+
qed

lemma waiter_ok_wake:
  assumes "waiter_ok s z" and "z \<noteq> x"
  shows "waiter_ok (sp_wake x (sp_deq q s)) z"
proof -
  have m: "\<exists>y'. sp_mutex (sp_wake x (sp_deq q s)) m = Some y' \<and> m_lock y' = m_lock y \<and>
      (m_owner y' = m_owner y \<or> m_owner y' = x) \<and> m_is_recursive y' = m_is_recursive y"
    if "sp_mutex s m = Some y" for m y
    using that by (auto simp: sp_wake_def sp_lock2_def Let_def)
  have "sp_fiber (sp_wake x (sp_deq q s)) z = sp_fiber s z" "timed (sp_wake x (sp_deq q s)) z = timed s z"
    using assms(2) by (auto simp: sp_wake_def sp_lock2_def Let_def timed_def)
  with assms m show ?thesis unfolding waiter_ok_def by metis
qed

lemma sp_wake_simps [simp]:
  "sp_self (sp_wake x s) = sp_self s" "sp_cond (sp_wake x s) = sp_cond s"
  "sp_queues (sp_wake x s) (Q_wait c) = sp_queues s (Q_wait c)"
  "sp_queues (sp_wake x s) Q_signal = sp_queues s Q_signal"
  by (simp_all add: sp_wake_def)

text \<open>The number of fibers that a signal with the limit \<open>nb\<close> wakes after \<open>k\<close> others.\<close>

definition signalled :: "32 word \<Rightarrow> 32 word \<Rightarrow> nat \<Rightarrow> nat" where
  "signalled nb k n = (if nb = 0 then n else min n (unat nb - unat k))"

lemma signal_loop_wakes:
  assumes "rep w s" and "sp_queues s Q_signal = xs" and "\<And>x. x \<in> set xs \<Longrightarrow> waiter_ok s x"
  shows "wp (run_loop (signal_loop nb k w))
    (yields (k + of_nat (signalled nb k (length xs)), sp_wake_all Q_signal (take (signalled nb k (length xs)) xs) s))"
  using assms
proof (induction xs arbitrary: w s k)
  case Nil
  have "signal_list w = NULL" using qrep_NULL_iff [OF rep_qrep [OF Nil.prems(1)], of Q_signal] Nil.prems(2) by simp
  then have "signal_loop nb k w = Some (Inr (k, w))"
    by (subst signal_loop.simps) (simp add: fiber_pop_def melon_dlist_pop_def)
  with Nil show ?case by (simp add: yields_def signalled_def)
next
  case (Cons x xs)
  show ?case
  proof (cases "nb = 0 \<or> k < nb")
    case False
    then have "signal_loop nb k w = Some (Inr (k, w))" by (subst signal_loop.simps) simp
    moreover have "signalled nb k (length (x # xs)) = 0" using False by (auto simp: signalled_def word_less_nat_alt)
    ultimately show ?thesis using Cons.prems(1) by (simp add: yields_def)
  next
    case True
    obtain l F' where p: "fiber_pop (signal_list w) w = Inr (l, x, w\<lparr>fibers := F'\<rparr>)"
      "rep (w\<lparr>fibers := F', signal_list := l\<rparr>) (sp_deq Q_signal s)"
      using rep_pop [OF Cons.prems(1), of Q_signal x xs] Cons.prems(2) by auto
    let ?w = "w\<lparr>fibers := F', signal_list := l\<rparr>" and ?s = "sp_wake x (sp_deq Q_signal s)" and ?n = "signalled nb (k + 1) (length xs)"
    have "waiter_ok (sp_deq Q_signal s) x" using Cons.prems(3) [of x] by (simp add: waiter_ok_def)
    with signal_wake [OF p(2) idle_sp_deq [OF Cons.prems(1,2)]] obtain f w1 w2 where
      s: "load (fibers ?w) x = Inr f" "(if f_timer f > 0 then melon_timer_remove_locked x ?w else Inr ?w) = Inr w1"
        "melon_mutex_lock2 x (f_cond_mutex f) w1 = Inr w2" "rep w2 ?s"
      unfolding wp_def by auto
    have nn: "x \<noteq> NULL" using rep_member [OF Cons.prems(1), of x Q_signal] Cons.prems(2) by simp
    have d: "distinct (x # xs)" using rep_distinct [OF Cons.prems(1), of Q_signal] Cons.prems(2) by simp
    have "k < nb \<Longrightarrow> unat (k + 1) = Suc (unat k)"
      using unsigned_less [of nb, where 'a = nat] by (simp add: word_less_nat_alt unat_word_ariths)
    then have n: "signalled nb k (length (x # xs)) = Suc ?n"
      using True by (auto simp: signalled_def word_less_nat_alt)
    have "signal_loop nb k w = signal_loop nb (k + 1) w2"
      using p(1) s True nn by (subst signal_loop.simps) (auto split: if_splits)
    moreover have "wp (run_loop (signal_loop nb (k + 1) w2)) (yields (k + 1 + of_nat ?n, sp_wake_all Q_signal (take ?n xs) ?s))"
      using Cons.prems d by (intro Cons.IH [OF s(4)]) (auto intro!: waiter_ok_wake)
    ultimately show ?thesis unfolding n by (simp add: ac_simps)
  qed
qed

lemma sp_wake_comm [sp_comm]:
  "sp_wake x (sp_cspin c v s) = sp_cspin c v (sp_wake x s)"
  "sp_wake x (sp_lift glock_lock s) = sp_lift glock_lock (sp_wake x s)"
  by (simp_all add: sp_wake_def sp_lock2_def Let_def sp_comm)

lemma sp_wake_all_comm [sp_comm]:
  "sp_wake_all q xs (sp_cspin c v s) = sp_cspin c v (sp_wake_all q xs s)"
  "sp_wake_all q xs (sp_lift glock_lock s) = sp_lift glock_lock (sp_wake_all q xs s)"
  by (induction xs arbitrary: s) (simp_all add: sp_comm)

lemma sp_detach_comm:
  "sp_deq Q_signal (sp_detach c s) = sp_detach c (sp_deq (Q_wait c) s)"
  "sp_wake x (sp_detach c s) = sp_detach c (sp_wake x s)"
  "sp_detach c (sp_cspin c v s) = sp_cspin c v (sp_detach c s)"
  "sp_detach c (sp_lift glock_lock s) = sp_lift glock_lock (sp_detach c s)"
  by (auto simp: sp_detach_def sp_wake_def sp_lock2_def sp_ready_def sp_defs Let_def fun_upd_twist)

lemma sp_wake_all_detach: "sp_wake_all Q_signal xs (sp_detach c s) = sp_detach c (sp_wake_all (Q_wait c) xs s)"
  by (induction xs arbitrary: s) (simp_all add: sp_detach_comm)

lemma sp_wake_all_empties:
  "sp_queues s (Q_wait c) = xs \<Longrightarrow> sp_queues (sp_wake_all (Q_wait c) xs s) (Q_wait c) = []"
  "sp_queues (sp_wake_all (Q_wait c) xs s) Q_signal = sp_queues s Q_signal"
  "sp_cond (sp_wake_all q xs s) = sp_cond s"
  by (induction xs arbitrary: s) simp_all

lemma sp_detach_id: "sp_queues s Q_signal = [] \<Longrightarrow> sp_queues s (Q_wait c) = [] \<Longrightarrow> sp_detach c s = s"
  by (simp add: sp_detach_def fun_upd_idem)

text \<open>
  A signal takes the whole queue off the condition, wakes as many fibers of it as its limit
  allows and returns their number. The others stay in the local list of the call.
\<close>

definition sp_signalnb :: "ptr \<Rightarrow> 32 word \<Rightarrow> spec \<Rightarrow> spec" where
  "sp_signalnb c nb s =
    sp_wake_all Q_signal (take (signalled nb 0 (length (sp_queues s (Q_wait c)))) (sp_queues s (Q_wait c))) (sp_detach c s)"

lemma sp_signalnb_all:
  assumes "sp_queues s Q_signal = []" and "nb = 0 \<or> length (sp_queues s (Q_wait c)) \<le> unat nb"
  shows "signalled nb 0 (length (sp_queues s (Q_wait c))) = length (sp_queues s (Q_wait c))" "sp_signalnb c nb s = sp_broadcast c s"
proof -
  show n: "signalled nb 0 (length (sp_queues s (Q_wait c))) = length (sp_queues s (Q_wait c))"
    using assms(2) by (auto simp: signalled_def)
  show "sp_signalnb c nb s = sp_broadcast c s"
    using assms(1) by (simp add: sp_signalnb_def n sp_broadcast_def sp_wake_all_detach sp_wake_all_empties sp_detach_id)
qed

lemma cond_signalnb_refines:
  assumes r: "rep w s" and c: "sp_cond s c = Some z" "c_lock z = 0" and e: "sp_queues s Q_signal = []"
    and q: "\<And>x. x \<in> set (sp_queues s (Q_wait c)) \<Longrightarrow> waiter_ok s x"
  shows "wp (melon_cond_signalnb c nb w)
    (yields (sint (of_nat (signalled nb 0 (length (sp_queues s (Q_wait c)))) :: 32 word), sp_signalnb c nb s))"
proof -
  let ?xs = "sp_queues s (Q_wait c)" and ?s = "sp_cspin c 1 (sp_lift glock_lock s)"
  let ?n = "signalled nb 0 (length ?xs)"
  have d: "wp (mod_cond c (\<lambda>c. c\<lparr>c_wait_queue := NULL\<rparr>) (w\<lparr>signal_list := c_wait_queue x\<rparr>)) (\<lambda>w'. rep w' (sp_detach c ?s))"
    if "rep w ?s" "conds w c = Some x" for w x
    using rep_detach [OF that] e that by (simp add: mod_cond_def)
  have l: "wp (run_loop (signal_loop nb 0 w)) (yields (of_nat ?n, sp_wake_all Q_signal (take ?n ?xs) (sp_detach c ?s)))"
    if "rep w (sp_detach c ?s)" for w
    using signal_loop_wakes [OF that _ _, of ?xs nb 0] q
    by (simp add: sp_detach_def waiter_ok_def timed_def)
  have f: "sp_lift glock_unlock (sp_cspin c 0 (sp_wake_all Q_signal (take ?n ?xs) (sp_detach c ?s))) = sp_signalnb c nb s"
    using c by (simp add: sp_detach_comm sp_comm sp_wake_all_empties sp_signalnb_def)
  from r show ?thesis unfolding melon_cond_signalnb_def
    by - (assumption | rule wp | erule step | rule step |
      (use c in \<open>simp add: sp_detach_def sp_wake_all_empties; fail\<close>) |
      (rule wp_conseq, rule d, assumption, assumption) |
      (rule wp_yieldsE, rule l, assumption, simp only: prod.case fst_conv snd_conv) | (simp add: f; fail))+
qed

section \<open>Refinement of the timeout\<close>

definition sp_timedwait_cb :: "ptr \<Rightarrow> wait_ctx \<Rightarrow> spec \<Rightarrow> spec" where
  "sp_timedwait_cb x ctx s =
    sp_lock2 x (f_cond_mutex (the (sp_fiber s x))) (sp_mod_fiber x
      (\<lambda>f. f\<lparr>f_timer_ctx := Ctx_wait (ctx\<lparr>wc_timeout := 1, wc_debug := 1\<rparr>)\<rparr>) (sp_del (Q_wait (wc_cond ctx)) x s))"

lemma wp_wait_queue_unlink [step]:
  assumes r: "rep w s" and x: "conds w c = Some x" "z \<in> set (sp_queues s (Q_wait c))"
    and Q: "\<And>w'. rep w' (sp_del (Q_wait c) z s) \<Longrightarrow> wp (k w') Q"
  shows "wp (fiber_unlink (c_wait_queue x) z w) (\<lambda>v. wp (case v of (q, w) \<Rightarrow>
    res_bind (mod_cond c (\<lambda>c. c\<lparr>c_wait_queue := q\<rparr>) w) k) Q)"
proof -
  have "has_queue w (Q_wait c)" using x by simp
  from rep_unlink [OF r this _ x(2)] x obtain l F' where F':
    "fiber_unlink (c_wait_queue x) z w = Inr (l, w\<lparr>fibers := F'\<rparr>)"
    "rep (w\<lparr>fibers := F', conds := (conds w)(c \<mapsto> x\<lparr>c_wait_queue := l\<rparr>)\<rparr>) (sp_del (Q_wait c) z s)" by auto
  with x Q show ?thesis by (simp add: mod_cond_def)
qed

lemma cond_timedwait_cb_refines:
  assumes r: "rep w s" and c: "sp_cond s (wc_cond ctx) = Some z" "c_lock z = 0"
    and x: "wc_fiber ctx = x" "wc_debug ctx = 0" "x \<in> set (sp_queues s (Q_wait (wc_cond ctx)))" "\<not> timed s x"
    and f: "sp_fiber s x = Some f" "f_cond_mutex f \<noteq> NULL" "sp_mutex s (f_cond_mutex f) = Some y" "m_lock y = 0"
      "m_owner y \<noteq> x" "f_lock_count f = 1 \<or> f_lock_count f > 1 \<and> m_is_recursive y \<noteq> 0"
  shows "wp (melon_cond_timedwait_cb x ctx w) (\<lambda>w'. rep w' (sp_timedwait_cb x ctx s))"
proof -
  note [simp] = c x f core_def idle_sp_del [OF r x(3)]
  from r show ?thesis unfolding melon_cond_timedwait_cb_def
    by - (assumption | rule wp | erule step | rule step | (simp; fail) |
      (erule rep_eq, simp add: sp_timedwait_cb_def sp_comm; fail))+
qed

end
