(* ===== verification/Melon_Mutex_Properties.thy ===== *)
theory Melon_Mutex_Properties
  imports Melon_Mutex
begin

text \<open>
  The properties of the mutex (\<^verbatim>\<open>src/mutex.c\<close>), with concrete instances on a mutex
  that one fiber holds and another waits for.
\<close>

section \<open>A contended mutex\<close>

text \<open>Fiber 1 holds the mutex 10 and fiber 2 waits for it.\<close>

definition ex_held :: spec where
  "ex_held = snd (sp_lock 10 (abs0 ex_world))"

definition ex_contended :: spec where
  "ex_contended = sp_current 1 (snd (sp_lock 10 (sp_current 2 ex_held)))"

lemma ex_current [simp]: "sp_self (abs0 ex_world) = 1"
  by (simp add: abs0_def erase_def ex_world_def)

lemma ex_mutexes:
  "mutexes ex_world = [10 \<mapsto> \<lparr>m_lock = 0, m_owner = NULL, m_lock_queue = NULL, m_lock_count = 0, m_is_recursive = 0\<rparr>,
     11 \<mapsto> \<lparr>m_lock = 0, m_owner = 1, m_lock_queue = NULL, m_lock_count = 2, m_is_recursive = 1\<rparr>]"
  by (simp add: ex_world_def)

lemma ex_mutex [simp]:
  "mutexes ex_world 10 = Some \<lparr>m_lock = 0, m_owner = NULL, m_lock_queue = NULL, m_lock_count = 0, m_is_recursive = 0\<rparr>"
  "mutexes ex_world 11 = Some \<lparr>m_lock = 0, m_owner = 1, m_lock_queue = NULL, m_lock_count = 2, m_is_recursive = 1\<rparr>"
  by (simp_all add: ex_mutexes)

lemma sp_current_simps [simp]:
  "sp_self (sp_current x s) = x" "sp_mutex (sp_current x s) = sp_mutex s" "sp_fiber (sp_current x s) = sp_fiber s"
  "sp_cond (sp_current x s) = sp_cond s" "sp_queues (sp_current x s) = sp_queues s" "sp_timers (sp_current x s) = sp_timers s"
  by (simp_all add: sp_current_def sp_lift_def)

lemma ex_held_simps [simp]:
  "sp_mutex ex_held = (sp_mutex (abs0 ex_world))(10 \<mapsto> \<lparr>m_lock = 0, m_owner = 1, m_lock_queue = NULL, m_lock_count = 1, m_is_recursive = 0\<rparr>)"
  "sp_fiber ex_held = [1 \<mapsto> a_fiber\<lparr>f_lock_count := 1, f_timer := 0\<rparr>, 2 \<mapsto> a_fiber, 3 \<mapsto> a_fiber]"
  "sp_cond ex_held = conds ex_world" "sp_queues ex_held q = []" "sp_timers ex_held = []" "sp_self ex_held = 1"
  by (auto simp: ex_held_def sp_lock_def Let_def)

lemma rep_ex_held: "\<exists>w. rep w ex_held"
proof -
  have "wp (melon_mutex_lock 10 ex_world) (yields (sp_lock 10 (abs0 ex_world)))"
    by (rule mutex_lock_refines [OF rep_ex_world]) (auto simp: idle_ex_world timed_def)
  then show ?thesis by (auto simp: wp_yields ex_held_def)
qed

lemma ex_contended_simps [simp]:
  "sp_mutex ex_contended = sp_mutex ex_held" "sp_cond ex_contended = conds ex_world" "sp_timers ex_contended = []"
  "sp_fiber ex_contended = [1 \<mapsto> a_fiber\<lparr>f_lock_count := 1, f_timer := 0\<rparr>, 2 \<mapsto> a_fiber\<lparr>f_lock_count := 1, f_timer := 0\<rparr>, 3 \<mapsto> a_fiber]"
  "sp_queues ex_contended = (\<lambda>q. [])(Q_lock 10 := [2])" "sp_self ex_contended = 1"
  by (auto simp: ex_contended_def sp_lock_def Let_def fun_eq_iff)

lemma rep_ex_contended: "\<exists>w. rep w ex_contended"
proof -
  obtain w where w: "rep w ex_held" using rep_ex_held by blast
  have "wp (melon_mutex_lock 10 (w\<lparr>g_current_fiber := 2\<rparr>)) (yields (sp_lock 10 (sp_current 2 ex_held)))"
    by (rule mutex_lock_refines [OF rep_current_upd [OF w]]) (auto simp: idle_def timed_def)
  then show ?thesis using rep_current_upd by (auto simp: wp_yields ex_contended_def)
qed

lemma ex_ok: "mutexes_ok (abs0 ex_world)" "mutexes_ok ex_held" "mutexes_ok ex_contended"
  by (auto simp: mutexes_ok_def mutex_ok_def ex_mutexes split: if_splits)

section \<open>Properties\<close>

text \<open>
  Hand-over on unlock. When the owner releases a mutex for the last time and fibers
  are waiting, the one that has waited longest owns it at once, with a count of one: it
  leaves the lock queue and the timer queue, is made ready behind those that were ready
  before, and the rest of the queue waits on in its order. The mutex is never free in
  between, so no other fiber can overtake.
\<close>

theorem mutex_unlock_hands_over:
  assumes r: "rep w s" and ok: "mutexes_ok s" and m: "m \<noteq> NULL" "sp_mutex s m = Some y" "m_lock_count y = 1"
    and q: "sp_queues s (Q_lock m) = z # zs"
    and t: "\<And>x. x \<in> set (z # zs) \<Longrightarrow> timer_of (sp_fiber s) x > 0 \<longleftrightarrow> timed s x"
  shows "\<exists>w' s' x. melon_mutex_unlock m w = Inr w' \<and> rep w' s' \<and> mutexes_ok s' \<and> mutexes w' m = Some x \<and>
    m_owner x = z \<and> m_lock_count x = 1 \<and> sp_queues s' (Q_lock m) = zs \<and>
    sp_queues s' Q_ready = sp_queues s Q_ready @ [z] \<and> \<not> timed s' z"
proof -
  have free: "m_lock y = 0" using mutexes_okD [OF ok m(2)] by (simp add: mutex_ok_def)
  have "wp (melon_mutex_unlock m w) (\<lambda>w'. rep w' (sp_unlock m s))"
    by (rule mutex_unlock_refines [OF r m(1,2) free]) (use m(3) q t in auto)
  then obtain w' where w': "melon_mutex_unlock m w = Inr w'" "rep w' (sp_unlock m s)" by (auto simp: wp_def)
  have "NULL \<notin> set (sp_queues s (Q_lock m))" using rep_member [OF r, of NULL] by blast
  then have "mutexes_ok (sp_unlock m s)" using sp_unlock_ok [OF ok m(2)] m(3) by simp
  moreover have "sp_mutex (sp_unlock m s) m = Some (y\<lparr>m_owner := z, m_lock_count := 1\<rparr>)"
    using m q by (simp add: sp_unlock_def Let_def)
  then obtain x where "mutexes w' m = Some x" "y\<lparr>m_owner := z, m_lock_count := 1\<rparr> = bare_mutex x" using rep_mutexE [OF w'(2)] by blast
  moreover from this(2) have "m_owner x = z" "m_lock_count x = 1"
    by (metis bare_simps(1) melon_mutex.select_convs(2) melon_mutex.surjective melon_mutex.update_convs(2,4),
        metis bare_simps(2) melon_mutex.select_convs(4) melon_mutex.surjective melon_mutex.update_convs(4))
  moreover have "\<not> timed (sp_unlock m s) z"
    using t [of z] m q r by (auto simp: sp_unlock_def Let_def timed_def rep_def wrep_def trep_def dest: dlist_distinct)
  moreover have "sp_queues (sp_unlock m s) (Q_lock m) = zs" "sp_queues (sp_unlock m s) Q_ready = sp_queues s Q_ready @ [z]"
    using m q by (simp_all add: sp_unlock_def Let_def)
  ultimately show ?thesis using w' by blast
qed

theorem mutex_unlock_hands_over_witness:
  "\<exists>w w' s'. melon_mutex_unlock 10 w = Inr w' \<and> rep w ex_contended \<and> rep w' s' \<and> sp_queues s' Q_ready = [2]"
proof -
  obtain w where w: "rep w ex_contended" using rep_ex_contended by blast
  from mutex_unlock_hands_over [OF w ex_ok(3), of 10 _ 2 "[]"] show ?thesis
    using w by (auto simp: timed_def timer_of_def)
qed

text \<open>
  C9: \<^verbatim>\<open>melon_mutex_lock\<close> on a mutex of a well-formed state does what its
  specification says on each of its three branches: a free mutex is taken, the owner of a
  recursive one counts once more, and any other caller goes to the end of the lock queue
  and is suspended. The mutex invariant is kept.
\<close>

theorem mutex_lock_correct:
  assumes r: "rep w s" and ok: "mutexes_ok s" and self: "idle s (sp_self s)" "\<not> timed s (sp_self s)"
    and m: "m \<noteq> NULL" "sp_mutex s m = Some y"
    and rec: "m_owner y = sp_self s \<Longrightarrow> m_is_recursive y \<noteq> 0 \<and> m_lock_count y < INT_MAX"
  shows "\<exists>w'. melon_mutex_lock m w = Inr (fst (sp_lock m s), w') \<and> rep w' (snd (sp_lock m s)) \<and>
    mutexes_ok (snd (sp_lock m s))"
proof -
  have "m_lock y = 0" using mutexes_okD [OF ok m(2)] by (simp add: mutex_ok_def)
  with mutex_lock_refines [OF r refl self m _ rec] sp_lock_ok [OF ok m(2) self(1)] rec show ?thesis
    by (auto simp: wp_yields)
qed

theorem mutex_lock_correct_witness:
  "\<exists>w w'. melon_mutex_lock 10 w = Inr (Suspended (), w') \<and> rep w' (snd (sp_lock 10 (sp_current 2 ex_held)))"
proof -
  obtain w where w: "rep w ex_held" using rep_ex_held by blast
  have "mutexes_ok (sp_current 2 ex_held)" using ex_ok(2) by (simp add: mutexes_ok_def)
  from mutex_lock_correct [OF rep_current_upd [OF w] this, of 10] show ?thesis
    by (auto simp: idle_def timed_def sp_lock_def Let_def)
qed

text \<open>
  A fiber that locks a mutex which is not recursive and which it already owns does
  not deadlock silently: the assertion of \<^verbatim>\<open>melon_mutex_lock\<close> fails.
\<close>

theorem mutex_relock_asserts:
  assumes "g_current_fiber w = self" and "self \<noteq> NULL" and "fibers w self = Some f" and "m \<noteq> NULL"
    and "mutexes w m = Some x" and "m_lock x = 0" and "m_owner x = self" and "m_is_recursive x = 0"
  shows "melon_mutex_lock m w = Inl Assert_failed"
  using assms by (simp add: melon_mutex_lock_def world_defs)

theorem mutex_relock_asserts_witness:
  "\<exists>w. mutexes w 10 \<noteq> None \<and> melon_mutex_lock 10 w = Inl Assert_failed"
proof -
  let ?w = "ex_world\<lparr>mutexes := [10 \<mapsto> \<lparr>m_lock = 0, m_owner = 1, m_lock_queue = NULL, m_lock_count = 1, m_is_recursive = 0\<rparr>]\<rparr>"
  have "melon_mutex_lock 10 ?w = Inl Assert_failed"
    by (rule mutex_relock_asserts [where self = 1 and f = a_fiber and
          x = "\<lparr>m_lock = 0, m_owner = 1, m_lock_queue = NULL, m_lock_count = 1, m_is_recursive = 0\<rparr>"]) (simp_all add: ex_world_def)
  then show ?thesis by (intro exI [of _ ?w]) simp
qed

text \<open>
  C10: \<^verbatim>\<open>melon_mutex_unlock\<close> refines its specification on every branch, one less on the
  count of a recursive mutex, a free mutex when nobody waits, a hand-over otherwise, and
  keeps the mutex invariant.
\<close>

theorem mutex_unlock_correct:
  assumes r: "rep w s" and ok: "mutexes_ok s" and m: "m \<noteq> NULL" "sp_mutex s m = Some y" "0 < m_lock_count y"
    and t: "\<And>x. x \<in> set (sp_queues s (Q_lock m)) \<Longrightarrow> timer_of (sp_fiber s) x > 0 \<Longrightarrow> timed s x"
  shows "\<exists>w'. melon_mutex_unlock m w = Inr w' \<and> rep w' (sp_unlock m s) \<and> mutexes_ok (sp_unlock m s)"
proof -
  have "m_lock y = 0" using mutexes_okD [OF ok m(2)] by (simp add: mutex_ok_def)
  moreover have "NULL \<notin> set (sp_queues s (Q_lock m))" using rep_member [OF r, of NULL] by blast
  ultimately show ?thesis
    using mutex_unlock_refines [OF r m(1,2) _ m(3) t] sp_unlock_ok [OF ok m(2,3)] by (auto simp: wp_def)
qed

theorem mutex_unlock_correct_witness:
  "\<exists>w'. melon_mutex_unlock 11 ex_world = Inr w' \<and> rep w' (sp_unlock 11 (abs0 ex_world))"
  using mutex_unlock_correct [OF rep_ex_world ex_ok(1), of 11] by auto

text \<open>
  \<^verbatim>\<open>melon_mutex_trylock\<close> never waits: it takes a free mutex, or one more count of
  a recursive mutex of its own, and otherwise returns \<^verbatim>\<open>EBUSY\<close> and leaves every
  mutex and queue as they were.
\<close>

theorem mutex_trylock_correct:
  assumes r: "rep w s" and ok: "mutexes_ok s" and self: "idle s (sp_self s)"
    and m: "m \<noteq> NULL" "sp_mutex s m = Some y" "m_lock_count y < INT_MAX"
  shows "\<exists>w' s'. melon_mutex_trylock m w = Inr (fst (sp_trylock m s), w') \<and> rep w' s' \<and> mutexes_ok s' \<and>
    s' = snd (sp_trylock m s) \<and> (fst (sp_trylock m s) \<noteq> 0 \<longrightarrow> sp_mutex s' = sp_mutex s \<and> sp_queues s' = sp_queues s)"
proof -
  have "m_lock y = 0" using mutexes_okD [OF ok m(2)] by (simp add: mutex_ok_def)
  with mutex_trylock_refines [OF r m(1,2) _ m(3)] sp_trylock_ok [OF ok m(2) self] show ?thesis
    by (auto simp: wp_yields sp_trylock_def Let_def)
qed

theorem mutex_trylock_correct_witness:
  "\<exists>w w'. melon_mutex_trylock 10 w = Inr (EBUSY, w')"
proof -
  obtain w where w: "rep w ex_held" using rep_ex_held by blast
  have ok: "mutexes_ok (sp_current 2 ex_held)" using ex_ok(2) by (simp add: mutexes_ok_def)
  have "idle (sp_current 2 ex_held) 2" by (simp add: idle_def)
  with mutex_trylock_correct [OF rep_current_upd [OF w] ok, of 10] show ?thesis
    by (auto simp: sp_trylock_def Let_def INT_MAX_def)
qed

text \<open>
  \<^verbatim>\<open>melon_mutex_timedlock\<close> with a timeout on a mutex that is taken puts the fiber
  both into the lock queue and, sorted, into the timer queue, with the callback that will
  undo the wait; without contention it takes the mutex, and without a timeout it is
  \<^verbatim>\<open>melon_mutex_lock\<close>. The invariant is kept.
\<close>

theorem mutex_timedlock_correct:
  assumes r: "rep w s" and ok: "mutexes_ok s" and self: "idle s (sp_self s)" "\<not> timed s (sp_self s)"
    and m: "m \<noteq> NULL" "sp_mutex s m = Some y" "m_lock_count y < INT_MAX"
    and rec: "m_owner y = sp_self s \<Longrightarrow> m_is_recursive y \<noteq> 0"
  shows "\<exists>w' s'. melon_mutex_timedlock m timeout w = Inr (fst (sp_timedlock m timeout s), w') \<and> rep w' s' \<and>
    mutexes_ok s' \<and> s' = snd (sp_timedlock m timeout s) \<and>
    (fst (sp_timedlock m timeout s) = Suspended K_timedlock \<longrightarrow>
      sp_queues s' (Q_lock m) = sp_queues s (Q_lock m) @ [sp_self s] \<and> timed s' (sp_self s))"
proof -
  have "m_lock y = 0" using mutexes_okD [OF ok m(2)] by (simp add: mutex_ok_def)
  with mutex_timedlock_refines [OF r refl self m(1,2) _ m(3)] sp_timedlock_ok [OF ok m(2) self(1) rec] rec
  have "\<exists>w'. melon_mutex_timedlock m timeout w = Inr (fst (sp_timedlock m timeout s), w') \<and>
    rep w' (snd (sp_timedlock m timeout s)) \<and> mutexes_ok (snd (sp_timedlock m timeout s))"
    by (auto simp: wp_yields)
  moreover have "fst (sp_timedlock m timeout s) = Suspended K_timedlock \<Longrightarrow>
    sp_queues (snd (sp_timedlock m timeout s)) (Q_lock m) = sp_queues s (Q_lock m) @ [sp_self s] \<and>
    timed (snd (sp_timedlock m timeout s)) (sp_self s)"
    by (auto simp: sp_timedlock_def sp_trylock_def Let_def split: if_splits prod.splits outcome.splits)
  ultimately show ?thesis by blast
qed

theorem mutex_timedlock_correct_witness:
  "\<exists>w w' s'. melon_mutex_timedlock 10 1000 w = Inr (Suspended K_timedlock, w') \<and> rep w' s' \<and> sp_queues s' (Q_lock 10) = [2]"
proof -
  obtain w where w: "rep w ex_held" using rep_ex_held by blast
  have ok: "mutexes_ok (sp_current 2 ex_held)" using ex_ok(2) by (simp add: mutexes_ok_def)
  have i: "idle (sp_current 2 ex_held) 2" by (simp add: idle_def)
  have "fst (sp_timedlock 10 1000 (sp_current 2 ex_held)) = Suspended K_timedlock"
    by (simp add: sp_timedlock_def sp_trylock_def Let_def EBUSY_def)
  with mutex_timedlock_correct [OF rep_current_upd [OF w] ok, of 10 _ 1000] i show ?thesis
    by (fastforce simp: timed_def INT_MAX_def)
qed

text \<open>
  When the timeout of a lock expires, the callback takes the fiber out of the lock
  queue, wherever it stands there, and makes it ready with the timeout flag set, so that
  \<^verbatim>\<open>melon_mutex_timedlock\<close> then returns \<^verbatim>\<open>-ETIMEDOUT\<close>.
\<close>

theorem mutex_timedlock_expires:
  assumes r: "rep w s" and ok: "mutexes_ok s" and m: "sp_mutex s (lc_mutex ctx) = Some y"
    and x: "lc_fiber ctx = x" "x \<in> set (sp_queues s (Q_lock (lc_mutex ctx)))"
  shows "\<exists>w' s'. melon_mutex_timedlock_cb x ctx w = Inr w' \<and> rep w' s' \<and> mutexes_ok s' \<and>
    sp_queues s' (Q_lock (lc_mutex ctx)) = remove1 x (sp_queues s (Q_lock (lc_mutex ctx))) \<and>
    sp_queues s' Q_ready = sp_queues s Q_ready @ [x] \<and>
    (\<exists>w''. melon_mutex_timedlock_resume K_timedlock (w'\<lparr>g_current_fiber := x\<rparr>) = Inr (- ETIMEDOUT, w''))"
proof -
  let ?s = "sp_timedlock_cb x ctx s"
  have "m_lock y = 0" using mutexes_okD [OF ok m] by (simp add: mutex_ok_def)
  with mutex_timedlock_cb_refines [OF r m _ x] obtain w' where w': "melon_mutex_timedlock_cb x ctx w = Inr w'" "rep w' ?s"
    by (auto simp: wp_def)
  obtain f where f: "sp_fiber s x = Some f" using rep_member [OF r x(2)] by blast
  have "\<exists>f'. sp_fiber ?s x = Some f' \<and> f_timer_ctx f' = Ctx_lock (ctx\<lparr>lc_timeout := 1\<rparr>)"
    using f x(1) by (simp add: sp_timedlock_cb_def)
  then obtain f' where f': "sp_fiber ?s x = Some f'" "f_timer_ctx f' = Ctx_lock (ctx\<lparr>lc_timeout := 1\<rparr>)" by blast
  obtain f2 where f2: "fibers w' x = Some f2" "f' = core f2" using rep_fiberE [OF w'(2) f'(1)] .
  have "melon_mutex_timedlock_resume K_timedlock (w'\<lparr>g_current_fiber := x\<rparr>) =
      Inr (- ETIMEDOUT, (w'\<lparr>g_current_fiber := x\<rparr>)\<lparr>errno := ETIMEDOUT\<rparr>)"
    using f2 f' by (simp add: melon_mutex_timedlock_resume_def melon_fiber_self_def)
  moreover have "mutexes_ok ?s" by (rule sp_timedlock_cb_ok [OF ok m])
  ultimately show ?thesis using w' x(1) by (auto simp: sp_timedlock_cb_def)
qed

theorem mutex_timedlock_expires_witness:
  "\<exists>w w' s'. rep w ex_contended \<and>
    melon_mutex_timedlock_cb 2 \<lparr>lc_mutex = 10, lc_fiber = 2, lc_timeout = 0\<rparr> w = Inr w' \<and> rep w' s' \<and> sp_queues s' Q_ready = [2]"
proof -
  obtain w where w: "rep w ex_contended" using rep_ex_contended by blast
  from mutex_timedlock_expires [OF w ex_ok(3), of "\<lparr>lc_mutex = 10, lc_fiber = 2, lc_timeout = 0\<rparr>" _ 2] show ?thesis
    using w by auto
qed

text \<open>
  \<^verbatim>\<open>melon_mutexattr_gettype\<close> does not return what
  \<^verbatim>\<open>melon_mutexattr_settype\<close> was given: the constants of the interface are 1 and 2,
  the member it returns is 0 or 1.
\<close>

theorem mutexattr_gettype_off_by_one:
  "melon_mutexattr_settype attr type = Inr attr' \<Longrightarrow> melon_mutexattr_gettype attr' = type - 1"
  by (auto simp: melon_mutexattr_settype_def melon_mutexattr_gettype_def MELON_MUTEX_NORMAL_def
      MELON_MUTEX_RECURSIVE_def split: if_splits)

theorem mutexattr_gettype_off_by_one_witness:
  "\<exists>attr'. melon_mutexattr_settype \<lparr>ma_is_recursive = 0\<rparr> MELON_MUTEX_RECURSIVE = Inr attr' \<and>
    melon_mutexattr_gettype attr' \<noteq> MELON_MUTEX_RECURSIVE"
proof -
  let ?a = "\<lparr>ma_is_recursive = 1\<rparr>"
  have s: "melon_mutexattr_settype \<lparr>ma_is_recursive = 0\<rparr> MELON_MUTEX_RECURSIVE = Inr ?a"
    by (simp add: melon_mutexattr_settype_def MELON_MUTEX_NORMAL_def MELON_MUTEX_RECURSIVE_def)
  have "melon_mutexattr_gettype ?a \<noteq> MELON_MUTEX_RECURSIVE" unfolding mutexattr_gettype_off_by_one [OF s] by simp
  with s show ?thesis by blast
qed

text \<open>
  A mutex that was created and is not in use can be destroyed, and this gives the
  heap back as it was.
\<close>

theorem mutex_init_destroy:
  assumes "p \<noteq> NULL" and "mutexes w p = None"
  shows "case melon_mutex_init p attr w of (ret, q, w') \<Rightarrow> ret = 0 \<and> q = p \<and> mutexes w' p \<noteq> None \<and> melon_mutex_destroy p w' = Inr w"
proof -
  have "(mutexes w)(p := None) = mutexes w" using assms(2) by auto
  with assms show ?thesis
    by (simp add: melon_mutex_init_def melon_mutex_destroy_def new_mutex_def world_defs melon_spin_init_def)
qed

theorem mutex_init_destroy_witness:
  "\<exists>w'. melon_mutex_init 12 None ex_world = (0, 12, w') \<and> melon_mutex_destroy 12 w' = Inr ex_world"
  using mutex_init_destroy [of 12 ex_world None] by (auto simp: ex_mutexes split: prod.splits)

end
