(* ===== verification/Melon_Cond_Properties.thy ===== *)
theory Melon_Cond_Properties
  imports Melon_Cond Melon_Mutex_Properties
begin

text \<open>
  The properties of the condition variable (\<^verbatim>\<open>src/cond.c\<close>), with concrete instances.
\<close>

section \<open>The mutex invariant\<close>

lemma sp_cond_wait_ok:
  assumes ok: "mutexes_ok s" and m: "sp_mutex s m = Some y" "m_owner y = sp_self s" and self: "idle s (sp_self s)"
    and n: "NULL \<notin> set (sp_queues s (Q_lock m))"
  shows "mutexes_ok (snd (sp_cond_wait c m s))"
proof -
  let ?s = "sp_mod_mutex m (\<lambda>x. x\<lparr>m_lock_count := 1\<rparr>) (sp_enq (Q_wait c) (sp_self s)
    (sp_mod_fiber (sp_self s) (\<lambda>f. f\<lparr>f_cond_mutex := m, f_lock_count := m_lock_count y, f_timer := 0\<rparr>) s))"
  have "sp_self s \<noteq> NULL" using self by (simp add: idle_def)
  then have "mutexes_ok ?s"
    by (intro mutexes_okI [OF ok m(1)]) (use m in \<open>auto simp: mutex_ok_def\<close>)
  then have "mutexes_ok (sp_unlock m ?s)" by (rule sp_unlock_ok) (use m n in auto)
  then show ?thesis using m by (simp add: sp_cond_wait_def Let_def)
qed

lemma sp_wake_ok:
  assumes ok: "mutexes_ok s" and x: "idle s x" "waiter_ok s x"
  shows "mutexes_ok (sp_wake x s)"
proof -
  from x(2) obtain f y where f: "sp_fiber s x = Some f" "sp_mutex s (f_cond_mutex f) = Some y" "m_owner y \<noteq> x"
    "f_lock_count f = 1 \<or> f_lock_count f > 1 \<and> m_is_recursive y \<noteq> 0" by (auto simp: waiter_ok_def)
  let ?s = "if timer_of (sp_fiber s) x > 0 then sp_timer_del x s else s"
  have "mutexes_ok ?s" using ok by (simp add: mutexes_ok_def)
  then have "mutexes_ok (sp_lock2 x (f_cond_mutex f) ?s)"
    by (rule sp_lock2_ok [where y = y and f = f]) (use f x(1) in auto)
  then show ?thesis using f by (simp add: sp_wake_def)
qed

lemma idle_sp_wake: "idle s y \<Longrightarrow> y \<noteq> x \<Longrightarrow> idle (sp_wake x s) y"
  by (auto simp: sp_wake_def sp_lock2_def Let_def idle_def)

lemma sp_wake_queues: "set (sp_queues (sp_wake x s) r) \<subseteq> insert x (set (sp_queues s r))"
  by (auto simp: sp_wake_def sp_lock2_def Let_def)

lemma sp_wake_all_ok:
  assumes "mutexes_ok s" and "sp_queues s q = xs" and "distinct xs" and "\<And>x. x \<in> set xs \<Longrightarrow> waiter_ok s x"
    and "\<And>x r. x \<in> set xs \<Longrightarrow> r \<noteq> q \<Longrightarrow> x \<notin> set (sp_queues s r)" and "NULL \<notin> set xs" and "q = Q_wait c \<or> q = Q_signal"
  shows "mutexes_ok (sp_wake_all q xs s)"
  using assms
proof (induction xs arbitrary: s)
  case (Cons x xs)
  let ?s = "sp_deq q s"
  obtain f where "sp_fiber s x = Some f" using Cons.prems(4) [of x] by (auto simp: waiter_ok_def)
  then have i: "idle ?s x" using Cons.prems by (auto simp: idle_def)
  have wk: "waiter_ok ?s x" using Cons.prems(4) [of x] by (simp add: waiter_ok_def)
  have "mutexes_ok ?s" using Cons.prems(1,7) by (auto simp: mutexes_ok_def)
  from sp_wake_ok [OF this i wk] have a: "mutexes_ok (sp_wake x ?s)" .
  have b: "sp_queues (sp_wake x ?s) q = xs" using Cons.prems(2,7) by auto
  have c: "waiter_ok (sp_wake x ?s) y" if "y \<in> set xs" for y
    using Cons.prems(3,4) that by (auto intro!: waiter_ok_wake)
  have d: "y \<notin> set (sp_queues (sp_wake x ?s) r)" if "y \<in> set xs" "r \<noteq> q" for y r
  proof -
    have "y \<noteq> x" "y \<notin> set (sp_queues ?s r)" using Cons.prems(3) Cons.prems(5) [of y r] that by auto
    then show ?thesis using sp_wake_queues [of x ?s r] by blast
  qed
  have "distinct xs" "NULL \<notin> set xs" using Cons.prems(3,6) by auto
  from Cons.IH [OF a b this(1) c d this(2) Cons.prems(7)] show ?case by simp
qed simp

text \<open>A broadcast under the mutex moves the waiting fibers to the lock queue.\<close>

lemma sp_broadcast_moves:
  assumes "sp_mutex s m = Some y" and "m_owner y \<noteq> NULL"
    and "\<And>x. x \<in> set (sp_queues s (Q_wait c)) \<Longrightarrow> \<exists>f. sp_fiber s x = Some f \<and> f_cond_mutex f = m"
  shows "sp_queues (sp_broadcast c s) (Q_lock m) = sp_queues s (Q_lock m) @ sp_queues s (Q_wait c) \<and>
    sp_queues (sp_broadcast c s) Q_ready = sp_queues s Q_ready"
proof -
  have step: "sp_queues (sp_wake x s) (Q_lock m) = sp_queues s (Q_lock m) @ [x] \<and> sp_queues (sp_wake x s) Q_ready = sp_queues s Q_ready \<and>
      sp_mutex (sp_wake x s) m = sp_mutex s m"
    if "sp_fiber s x = Some f" "f_cond_mutex f = m" "sp_mutex s m = Some y" for s x f
    using that assms(2) by (simp add: sp_wake_def sp_lock2_def Let_def)
  have other: "\<exists>f'. sp_fiber (sp_wake x s) z = Some f' \<and> f_cond_mutex f' = m" if "sp_fiber s z = Some f" "f_cond_mutex f = m" for s x z f
    using that by (auto simp: sp_wake_def sp_lock2_def Let_def)
  have "sp_queues (sp_wake_all (Q_wait c) xs s) (Q_lock m) = sp_queues s (Q_lock m) @ xs \<and>
      sp_queues (sp_wake_all (Q_wait c) xs s) Q_ready = sp_queues s Q_ready"
    if "sp_mutex s m = Some y" "\<And>x. x \<in> set xs \<Longrightarrow> \<exists>f. sp_fiber s x = Some f \<and> f_cond_mutex f = m" for s xs
    using that
  proof (induction xs arbitrary: s)
    case (Cons x xs)
    let ?s = "sp_wake x (sp_deq (Q_wait c) s)"
    obtain f where f: "sp_fiber s x = Some f" "f_cond_mutex f = m" using Cons.prems(2) [of x] by auto
    have st: "sp_queues ?s (Q_lock m) = sp_queues s (Q_lock m) @ [x]" "sp_queues ?s Q_ready = sp_queues s Q_ready" "sp_mutex ?s m = Some y"
      using step [of "sp_deq (Q_wait c) s" x f] f Cons.prems(1) by simp_all
    moreover have "\<exists>f. sp_fiber ?s z = Some f \<and> f_cond_mutex f = m" if z: "z \<in> set xs" for z
    proof -
      obtain g where "sp_fiber (sp_deq (Q_wait c) s) z = Some g" "f_cond_mutex g = m" using Cons.prems(2) [of z] z by auto
      then show ?thesis by (rule other)
    qed
    ultimately show ?case using Cons.IH [of ?s] by simp
  qed simp
  from this [OF assms(1) assms(3)] show ?thesis unfolding sp_broadcast_def by blast
qed

lemma sp_wake_all_wait: "sp_queues (sp_wake_all Q_signal xs s) (Q_wait c) = sp_queues s (Q_wait c)"
  by (induction xs arbitrary: s) simp_all

lemma sp_wake_all_rest: "sp_queues s Q_signal = xs @ ys \<Longrightarrow> sp_queues (sp_wake_all Q_signal xs s) Q_signal = ys"
  by (induction xs arbitrary: s) simp_all

section \<open>Properties\<close>

text \<open>
  C11: \<^verbatim>\<open>melon_cond_wait\<close>, called by the owner of the mutex, queues the fiber last on the
  condition, remembers the mutex and its count, releases the mutex completely, even a
  recursive one that is held several times, and suspends the fiber. Mutex and condition
  are well formed afterwards.
\<close>

theorem cond_wait_correct:
  assumes r: "rep w s" and ok: "mutexes_ok s" and self: "idle s (sp_self s)" "\<not> timed s (sp_self s)"
    and c: "c \<noteq> NULL" "sp_cond s c = Some z" "c_lock z = 0"
    and m: "m \<noteq> NULL" "sp_mutex s m = Some y" "m_owner y = sp_self s" and t: "lockers_timed s m"
  shows "\<exists>w' s'. melon_cond_wait c m w = Inr (Suspended (), w') \<and> rep w' s' \<and> mutexes_ok s' \<and>
    s' = snd (sp_cond_wait c m s) \<and> sp_queues s' (Q_wait c) = sp_queues s (Q_wait c) @ [sp_self s] \<and>
    (\<exists>y'. sp_mutex s' m = Some y' \<and> m_owner y' \<noteq> sp_self s)"
proof -
  have free: "m_lock y = 0" using mutexes_okD [OF ok m(2)] by (simp add: mutex_ok_def)
  have n: "NULL \<notin> set (sp_queues s (Q_lock m))" using rep_member [OF r, of NULL] by blast
  have i: "sp_self s \<notin> set (sp_queues s (Q_lock m))" "sp_self s \<noteq> NULL" using self(1) by (simp_all add: idle_def)
  then have "\<exists>y'. sp_mutex (snd (sp_cond_wait c m s)) m = Some y' \<and> m_owner y' \<noteq> sp_self s"
    using m(2) by (auto simp: sp_cond_wait_def sp_unlock_def Let_def split: list.splits)
  then show ?thesis
    using cond_wait_refines [OF r refl self c m(1,2) free m(3) t] sp_cond_wait_ok [OF ok m(2,3) self(1) n]
    by (auto simp: wp_yields sp_cond_wait_def Let_def)
qed

lemma ex_cond [simp]: "conds ex_world 20 = Some \<lparr>c_lock = 0, c_wait_queue = NULL\<rparr>"
  by (simp add: ex_world_def)

theorem cond_wait_correct_witness:
  "\<exists>w w' s'. rep w ex_contended \<and> melon_cond_wait 20 10 w = Inr (Suspended (), w') \<and> rep w' s' \<and> sp_queues s' (Q_wait 20) = [1]"
proof -
  obtain w where w: "rep w ex_contended" using rep_ex_contended by blast
  from cond_wait_correct [OF w ex_ok(3), of 20 _ 10] show ?thesis
    using w by (fastforce simp: idle_def timed_def lockers_timed_def timer_of_def)
qed

text \<open>
  C12: \<^verbatim>\<open>melon_cond_broadcast\<close>, and any signal whose limit the queue does not exceed,
  ends and wakes every waiting fiber: the wait queue is empty, the number of fibers is
  returned, and each fiber has taken its mutex or waits for it, in the order in which they
  waited. The mutex invariant is kept.
\<close>

theorem cond_signal_wakes_all:
  assumes r: "rep w s" and ok: "mutexes_ok s" and c: "sp_cond s c = Some z" "c_lock z = 0"
    and e: "sp_queues s Q_signal = []" and q: "\<And>x. x \<in> set (sp_queues s (Q_wait c)) \<Longrightarrow> waiter_ok s x"
    and nb: "nb = 0 \<or> length (sp_queues s (Q_wait c)) \<le> unat nb" and n: "length (sp_queues s (Q_wait c)) < 2 ^ 31"
  shows "\<exists>w' s'. melon_cond_signalnb c nb w = Inr (int (length (sp_queues s (Q_wait c))), w') \<and> rep w' s' \<and>
    mutexes_ok s' \<and> s' = sp_broadcast c s \<and> sp_queues s' (Q_wait c) = []"
proof -
  let ?xs = "sp_queues s (Q_wait c)"
  have s: "sint (word_of_nat (length ?xs) :: 32 word) = int (length ?xs)"
    using n by (simp add: signed_of_nat signed_take_bit_int_eq_self)
  have "mutexes_ok (sp_broadcast c s)"
    unfolding sp_broadcast_def
  proof (rule sp_wake_all_ok [OF ok])
    show "distinct ?xs" using rep_distinct [OF r] .
    show "x \<in> set ?xs \<Longrightarrow> r \<noteq> Q_wait c \<Longrightarrow> x \<notin> set (sp_queues s r)" for x r
      using qrep_disjoint [OF rep_qrep [OF r]] by blast
    show "NULL \<notin> set ?xs" using rep_member [OF r, of NULL] by blast
  qed (use q in auto)
  moreover have "sp_queues (sp_broadcast c s) (Q_wait c) = []"
    unfolding sp_broadcast_def by (rule sp_wake_all_empties) simp
  ultimately show ?thesis using cond_signalnb_refines [OF r c e q, of nb] sp_signalnb_all [OF e nb] s by (auto simp: wp_yields)
qed

text \<open>Fiber 1 waits on the condition 20, fiber 2 has got the mutex 10.\<close>

definition ex_waiting :: spec where
  "ex_waiting = sp_current 2 (snd (sp_cond_wait 20 10 ex_contended))"

lemma rep_ex_waiting: "\<exists>w. rep w ex_waiting"
proof -
  obtain w where w: "rep w ex_contended" using rep_ex_contended by blast
  have "wp (melon_cond_wait 20 10 w) (yields (sp_cond_wait 20 10 ex_contended))"
    by (rule cond_wait_refines [OF w])
      (auto simp: idle_def timed_def lockers_timed_def timer_of_def ex_mutexes)
  then show ?thesis using rep_current_upd by (auto simp: wp_yields ex_waiting_def)
qed

lemma ex_waiting_simps [simp]:
  "sp_mutex ex_waiting = (sp_mutex ex_held)(10 \<mapsto> \<lparr>m_lock = 0, m_owner = 2, m_lock_queue = NULL, m_lock_count = 1, m_is_recursive = 0\<rparr>)"
  "sp_cond ex_waiting = conds ex_world" "sp_timers ex_waiting = []" "sp_self ex_waiting = 2"
  "sp_queues ex_waiting = (\<lambda>q. [])(Q_wait 20 := [1], Q_ready := [2])"
  "sp_fiber ex_waiting 1 = Some (a_fiber\<lparr>f_lock_count := 1, f_cond_mutex := 10, f_timer := 0\<rparr>)"
  by (auto simp: ex_waiting_def sp_cond_wait_def sp_unlock_def timer_of_def Let_def fun_eq_iff a_fiber_def)

lemmas ex_waiting_fiber [simp] = ex_waiting_simps(6) [simplified]

lemma ex_waiting_fiber_2 [simp]: "sp_fiber ex_waiting 2 = Some (a_fiber\<lparr>f_lock_count := 1, f_timer := 0\<rparr>)"
  by (auto simp: ex_waiting_def sp_cond_wait_def sp_unlock_def timer_of_def Let_def a_fiber_def)

lemma ex_waiting_ok: "mutexes_ok ex_waiting" "waiter_ok ex_waiting 1"
  by (auto simp: mutexes_ok_def mutex_ok_def ex_mutexes waiter_ok_def timed_def split: if_splits)

theorem cond_signal_wakes_all_witness:
  "\<exists>w w' s'. rep w ex_waiting \<and> melon_cond_signalnb 20 1 w = Inr (1, w') \<and> rep w' s' \<and> sp_queues s' (Q_wait 20) = []"
proof -
  obtain w where w: "rep w ex_waiting" using rep_ex_waiting by blast
  from cond_signal_wakes_all [OF w ex_waiting_ok(1), of 20 _ 1] show ?thesis
    using w ex_waiting_ok(2) by fastforce
qed

text \<open>
  A broadcast by a fiber that holds the mutex wakes nobody too early: all the fibers
  that waited with this mutex move to its lock queue, in their order, and none becomes
  ready before the mutex is released.
\<close>

theorem cond_broadcast_moves_to_lock_queue:
  assumes r: "rep w s" and c: "sp_cond s c = Some z" "c_lock z = 0" and e: "sp_queues s Q_signal = []"
    and m: "sp_mutex s m = Some y" "m_owner y \<noteq> NULL"
    and q: "\<And>x. x \<in> set (sp_queues s (Q_wait c)) \<Longrightarrow> waiter_ok s x \<and> f_cond_mutex (the (sp_fiber s x)) = m"
  shows "\<exists>n w' s'. melon_cond_broadcast c w = Inr (n, w') \<and> rep w' s' \<and> sp_queues s' (Q_wait c) = [] \<and>
    sp_queues s' (Q_lock m) = sp_queues s (Q_lock m) @ sp_queues s (Q_wait c) \<and> sp_queues s' Q_ready = sp_queues s Q_ready"
proof -
  have "\<exists>f. sp_fiber s x = Some f \<and> f_cond_mutex f = m" if "x \<in> set (sp_queues s (Q_wait c))" for x
    using q [OF that] by (auto simp: waiter_ok_def)
  from sp_broadcast_moves [OF m this] have "sp_queues (sp_broadcast c s) (Q_lock m) = sp_queues s (Q_lock m) @ sp_queues s (Q_wait c)"
    "sp_queues (sp_broadcast c s) Q_ready = sp_queues s Q_ready" by blast+
  moreover have "sp_queues (sp_broadcast c s) (Q_wait c) = []"
    unfolding sp_broadcast_def by (rule sp_wake_all_empties) simp
  moreover have "wp (melon_cond_signalnb c 0 w) (yields (sint (word_of_nat (length (sp_queues s (Q_wait c))) :: 32 word), sp_broadcast c s))"
    using cond_signalnb_refines [OF r c e, of 0] sp_signalnb_all [OF e, of 0 c] q by simp
  ultimately show ?thesis by (auto simp: wp_yields melon_cond_broadcast_def)
qed

theorem cond_broadcast_moves_to_lock_queue_witness:
  "\<exists>w n w' s'. rep w ex_waiting \<and> melon_cond_broadcast 20 w = Inr (n, w') \<and> rep w' s' \<and> sp_queues s' (Q_lock 10) = [1]"
proof -
  obtain w where w: "rep w ex_waiting" using rep_ex_waiting by blast
  have "\<exists>n w' s'. melon_cond_broadcast 20 w = Inr (n, w') \<and> rep w' s' \<and> sp_queues s' (Q_wait 20) = [] \<and>
    sp_queues s' (Q_lock 10) = sp_queues ex_waiting (Q_lock 10) @ sp_queues ex_waiting (Q_wait 20) \<and>
    sp_queues s' Q_ready = sp_queues ex_waiting Q_ready"
  proof (rule cond_broadcast_moves_to_lock_queue [OF w])
    show "sp_cond ex_waiting 20 = Some \<lparr>c_lock = 0, c_wait_queue = NULL\<rparr>" by simp
    show "sp_mutex ex_waiting 10 = Some \<lparr>m_lock = 0, m_owner = 2, m_lock_queue = NULL, m_lock_count = 1, m_is_recursive = 0\<rparr>" by simp
    show "waiter_ok ex_waiting x \<and> f_cond_mutex (the (sp_fiber ex_waiting x)) = 10" if "x \<in> set (sp_queues ex_waiting (Q_wait 20))" for x
      using that ex_waiting_ok(2) by simp
  qed simp_all
  then show ?thesis using w by auto
qed

text \<open>
  C38: A signal with a limit below the number of waiting fibers, which
  \<^verbatim>\<open>melon_cond_signal\<close> is as soon as two fibers wait, takes all of them off the
  condition but wakes only as many as the limit allows: the wait queue is empty
  afterwards, and the others are in no queue that outlives the call, neither waiting,
  nor ready, nor queued for a mutex. No later signal can reach them.
\<close>

theorem cond_signal_loses_waiters:
  assumes r: "rep w s" and c: "sp_cond s c = Some z" "c_lock z = 0"
    and e: "sp_queues s Q_signal = []" and q: "\<And>x. x \<in> set (sp_queues s (Q_wait c)) \<Longrightarrow> waiter_ok s x"
    and nb: "0 < nb" "unat nb < length (sp_queues s (Q_wait c))" "unat nb < 2 ^ 31"
  shows "\<exists>w' s'. melon_cond_signalnb c nb w = Inr (uint nb, w') \<and> rep w' s' \<and> sp_queues s' (Q_wait c) = [] \<and>
    (\<forall>x \<in> set (drop (unat nb) (sp_queues s (Q_wait c))). \<forall>r. r \<noteq> Q_signal \<longrightarrow> x \<notin> set (sp_queues s' r))"
proof -
  let ?xs = "sp_queues s (Q_wait c)" and ?s = "sp_signalnb c nb s"
  have n: "signalled nb 0 (length ?xs) = unat nb" using nb by (auto simp: signalled_def)
  have i: "sint nb = uint nb"
    using nb(3) by (rule sint_eq_uint_32)
  obtain w' where w': "melon_cond_signalnb c nb w = Inr (uint nb, w')" "rep w' ?s"
    using cond_signalnb_refines [OF r c e q, of nb] by (auto simp: wp_yields n i)
  have "sp_queues ?s (Q_wait c) = []"
    by (simp add: sp_signalnb_def sp_wake_all_wait sp_detach_def)
  moreover have "sp_queues ?s Q_signal = drop (unat nb) ?xs"
    using sp_wake_all_rest [of "sp_detach c s" "take (unat nb) ?xs" "drop (unat nb) ?xs"]
    by (simp add: sp_signalnb_def n sp_detach_def)
  then have "x \<notin> set (sp_queues ?s r)" if "x \<in> set (drop (unat nb) ?xs)" "r \<noteq> Q_signal" for x r
    using qrep_disjoint [OF rep_qrep [OF w'(2)], of x r Q_signal] that by auto
  ultimately show ?thesis using w' by (intro exI [of _ w'] exI [of _ ?s]) simp
qed

text \<open>Fiber 2 waits too.\<close>

definition ex_both :: spec where
  "ex_both = snd (sp_cond_wait 20 10 (sp_current 2 (sp_deq Q_ready ex_waiting)))"

lemma rep_ex_both: "\<exists>w. rep w ex_both"
proof -
  let ?s = "sp_current 2 (sp_deq Q_ready ex_waiting)"
  obtain w where "rep w ex_waiting" using rep_ex_waiting by blast
  then obtain w' where w': "rep w' (sp_deq Q_ready ex_waiting)" using rep_ready_pop [of w ex_waiting 2 "[]"] by auto
  have "wp (melon_cond_wait 20 10 (w'\<lparr>g_current_fiber := 2\<rparr>)) (yields (sp_cond_wait 20 10 ?s))"
    by (rule cond_wait_refines [OF rep_current_upd [OF w']])
      (auto simp: idle_def timed_def lockers_timed_def)
  then show ?thesis by (auto simp: wp_yields ex_both_def)
qed

lemma ex_both_simps [simp]:
  "sp_mutex ex_both 10 = Some \<lparr>m_lock = 0, m_owner = NULL, m_lock_queue = NULL, m_lock_count = 0, m_is_recursive = 0\<rparr>"
  "sp_cond ex_both = conds ex_world" "sp_timers ex_both = []"
  "sp_queues ex_both = (\<lambda>q. [])(Q_wait 20 := [1, 2])"
  "sp_fiber ex_both (Suc 0) = Some (a_fiber\<lparr>f_lock_count := 1, f_cond_mutex := 10, f_timer := 0\<rparr>)"
  "sp_fiber ex_both 2 = Some (a_fiber\<lparr>f_lock_count := 1, f_cond_mutex := 10, f_timer := 0\<rparr>)"
  by (auto simp: ex_both_def sp_cond_wait_def sp_unlock_def timer_of_def Let_def fun_eq_iff a_fiber_def)

lemma ex_both_ok: "mutexes_ok ex_both" "sp_fiber ex_both 3 = Some a_fiber"
  by (auto simp: ex_both_def sp_cond_wait_def sp_unlock_def timer_of_def Let_def mutexes_ok_def mutex_ok_def ex_mutexes
      ex_waiting_def split: if_splits)

theorem cond_signal_loses_waiters_witness:
  "\<exists>w w' s'. rep w ex_both \<and> melon_cond_signalnb 20 1 w = Inr (1, w') \<and> rep w' s' \<and>
    sp_queues s' (Q_wait 20) = [] \<and> 2 \<notin> set (sp_queues s' Q_ready) \<and> 2 \<notin> set (sp_queues s' (Q_lock 10))"
proof -
  obtain w where w: "rep w ex_both" using rep_ex_both by blast
  have "waiter_ok ex_both x" if "x \<in> set (sp_queues ex_both (Q_wait 20))" for x
    using that by (auto simp: waiter_ok_def timed_def)
  with cond_signal_loses_waiters [OF w, of 20 "\<lparr>c_lock = 0, c_wait_queue = NULL\<rparr>" 1]
  have "\<exists>w' s'. melon_cond_signalnb 20 1 w = Inr (1, w') \<and> rep w' s' \<and> sp_queues s' (Q_wait 20) = [] \<and>
    (\<forall>r. r \<noteq> Q_signal \<longrightarrow> 2 \<notin> set (sp_queues s' r))" by simp
  then show ?thesis using w by blast
qed

text \<open>
  \<^verbatim>\<open>melon_cond_timedwait\<close> with a timeout does what \<^verbatim>\<open>melon_cond_wait\<close> does,
  and puts the fiber into the timer queue at the place of its deadline.
\<close>

theorem cond_timedwait_correct:
  assumes r: "rep w s" and ok: "mutexes_ok s" and self: "idle s (sp_self s)" "\<not> timed s (sp_self s)"
    and c: "c \<noteq> NULL" "sp_cond s c = Some z" "c_lock z = 0"
    and m: "m \<noteq> NULL" "sp_mutex s m = Some y" "m_owner y = sp_self s" and t: "lockers_timed s m" and d: "timeout \<noteq> 0"
  shows "\<exists>w' s'. melon_cond_timedwait c m timeout w = Inr (Suspended K_timedwait, w') \<and> rep w' s' \<and>
    s' = snd (sp_timedwait c m timeout s) \<and> sp_queues s' (Q_wait c) = sp_queues s (Q_wait c) @ [sp_self s] \<and>
    sorted (map (timer_of (sp_fiber s')) (sp_timers s')) \<and>
    (\<exists>f. sp_fiber s' (sp_self s) = Some f \<and> f_timer f = sint timeout \<and> f_timer_cb f = Cb_cond_timedwait)"
proof -
  have free: "m_lock y = 0" using mutexes_okD [OF ok m(2)] by (simp add: mutex_ok_def)
  have i: "sp_self s \<notin> set (sp_queues s (Q_lock m))" "sp_fiber s (sp_self s) \<noteq> None" using self(1) by (simp_all add: idle_def)
  let ?s = "snd (sp_timedwait c m timeout s)"
  have k: "fst (sp_timedwait c m timeout s) = Suspended K_timedwait" using d by (simp add: sp_timedwait_def Let_def)
  obtain w' where w': "melon_cond_timedwait c m timeout w = Inr (Suspended K_timedwait, w')" "rep w' ?s"
    using cond_timedwait_refines [OF r refl self c m(1,2) free m(3) t, of timeout] k by (auto simp: wp_yields)
  have "sorted (map (timer_of (fibers w')) (sp_timers ?s))"
    using w'(2) by (simp add: rep_def wrep_def trep_def)
  then have "sorted (map (timer_of (sp_fiber ?s)) (sp_timers ?s))"
    by (simp only: timer_of_cores [OF w'(2)])
  moreover have "\<exists>f. sp_fiber ?s (sp_self s) = Some f \<and> f_timer f = sint timeout \<and> f_timer_cb f = Cb_cond_timedwait"
    using i m(2) d by (auto simp: sp_timedwait_def sp_unlock_def Let_def split: list.splits)
  moreover have "sp_queues ?s (Q_wait c) = sp_queues s (Q_wait c) @ [sp_self s]"
    using d by (simp add: sp_timedwait_def Let_def)
  ultimately show ?thesis using w' by blast
qed

theorem cond_timedwait_correct_witness:
  "\<exists>w w'. rep w ex_contended \<and> melon_cond_timedwait 20 10 500 w = Inr (Suspended K_timedwait, w')"
proof -
  obtain w where w: "rep w ex_contended" using rep_ex_contended by blast
  from cond_timedwait_correct [OF w ex_ok(3), of 20 _ 10 _ 500] show ?thesis
    using w by (fastforce simp: idle_def timed_def lockers_timed_def timer_of_def)
qed

text \<open>
  C23: When the timeout of a wait expires, the callback takes the fiber off the condition
  and makes it lock its mutex again: it is ready at once if the mutex is free and waits in
  the lock queue if not; \<^verbatim>\<open>melon_cond_timedwait\<close> then returns \<^verbatim>\<open>-ETIMEDOUT\<close>.
\<close>

theorem cond_timedwait_expires:
  assumes r: "rep w s" and c: "sp_cond s (wc_cond ctx) = Some z" "c_lock z = 0"
    and x: "wc_fiber ctx = x" "wc_debug ctx = 0" "x \<in> set (sp_queues s (Q_wait (wc_cond ctx)))" "\<not> timed s x"
    and f: "sp_fiber s x = Some f" "f_cond_mutex f \<noteq> NULL" "sp_mutex s (f_cond_mutex f) = Some y" "m_lock y = 0"
      "m_owner y \<noteq> x" "f_lock_count f = 1 \<or> f_lock_count f > 1 \<and> m_is_recursive y \<noteq> 0"
  shows "\<exists>w' s'. melon_cond_timedwait_cb x ctx w = Inr w' \<and> rep w' s' \<and>
    sp_queues s' (Q_wait (wc_cond ctx)) = remove1 x (sp_queues s (Q_wait (wc_cond ctx))) \<and>
    (if m_owner y = NULL then sp_queues s' Q_ready = sp_queues s Q_ready @ [x]
     else sp_queues s' (Q_lock (f_cond_mutex f)) = sp_queues s (Q_lock (f_cond_mutex f)) @ [x]) \<and>
    (\<exists>w''. melon_cond_timedwait_resume K_timedwait (w'\<lparr>g_current_fiber := x\<rparr>) = Inr (- ETIMEDOUT, w''))"
proof -
  let ?s = "sp_timedwait_cb x ctx s"
  obtain w' where w': "melon_cond_timedwait_cb x ctx w = Inr w'" "rep w' ?s"
    using cond_timedwait_cb_refines [OF r c x f] by (auto simp: wp_def)
  have "\<exists>f'. sp_fiber ?s x = Some f' \<and> f_timer_ctx f' = Ctx_wait (ctx\<lparr>wc_timeout := 1, wc_debug := 1\<rparr>)"
    using f by (simp add: sp_timedwait_cb_def sp_lock2_def Let_def)
  then obtain f' where f': "sp_fiber ?s x = Some f'" "f_timer_ctx f' = Ctx_wait (ctx\<lparr>wc_timeout := 1, wc_debug := 1\<rparr>)" by blast
  obtain f2 where f2: "fibers w' x = Some f2" "f' = core f2" using rep_fiberE [OF w'(2) f'(1)] .
  have "melon_cond_timedwait_resume K_timedwait (w'\<lparr>g_current_fiber := x\<rparr>) =
      Inr (- ETIMEDOUT, (w'\<lparr>g_current_fiber := x\<rparr>)\<lparr>errno := ETIMEDOUT\<rparr>)"
    using f2 f' by (simp add: melon_cond_timedwait_resume_def)
  moreover have "if m_owner y = NULL then sp_queues ?s Q_ready = sp_queues s Q_ready @ [x]
     else sp_queues ?s (Q_lock (f_cond_mutex f)) = sp_queues s (Q_lock (f_cond_mutex f)) @ [x]"
    using f by (simp add: sp_timedwait_cb_def sp_lock2_def Let_def)
  moreover have "sp_queues ?s (Q_wait (wc_cond ctx)) = remove1 x (sp_queues s (Q_wait (wc_cond ctx)))"
    by (simp add: sp_timedwait_cb_def)
  ultimately show ?thesis using w' by blast
qed

theorem cond_timedwait_expires_witness:
  "\<exists>w w' s'. rep w ex_waiting \<and> melon_cond_timedwait_cb 1 \<lparr>wc_fiber = 1, wc_cond = 20, wc_timeout = 0, wc_debug = 0\<rparr> w = Inr w' \<and>
    rep w' s' \<and> sp_queues s' (Q_lock 10) = [1]"
proof -
  obtain w where w: "rep w ex_waiting" using rep_ex_waiting by blast
  let ?ctx = "\<lparr>wc_fiber = 1, wc_cond = 20, wc_timeout = 0, wc_debug = 0\<rparr>"
  have "\<exists>w' s'. melon_cond_timedwait_cb 1 ?ctx w = Inr w' \<and> rep w' s' \<and>
    sp_queues s' (Q_wait (wc_cond ?ctx)) = remove1 1 (sp_queues ex_waiting (Q_wait (wc_cond ?ctx))) \<and>
    (if (2 :: ptr) = NULL then sp_queues s' Q_ready = sp_queues ex_waiting Q_ready @ [1]
     else sp_queues s' (Q_lock 10) = sp_queues ex_waiting (Q_lock 10) @ [1]) \<and>
    (\<exists>w''. melon_cond_timedwait_resume K_timedwait (w'\<lparr>g_current_fiber := 1\<rparr>) = Inr (- ETIMEDOUT, w''))"
    using cond_timedwait_expires [OF w, of ?ctx "\<lparr>c_lock = 0, c_wait_queue = NULL\<rparr>" 1
        "a_fiber\<lparr>f_lock_count := 1, f_cond_mutex := 10, f_timer := 0\<rparr>"
        "\<lparr>m_lock = 0, m_owner = 2, m_lock_queue = NULL, m_lock_count = 1, m_is_recursive = 0\<rparr>"]
    by (simp add: timed_def)
  then show ?thesis using w by auto
qed

end
