(* ===== verification/Melon_Monitor.thy ===== *)
theory Melon_Monitor
  imports Melon_Cond_Properties
begin

text \<open>
  Barriers, read-write locks, semaphores and joining use a mutex and conditions in one
  way: they lock the mutex, look at their own data, wait on or broadcast a condition, and
  unlock. This theory states once what holds around such a section and what each of its
  steps does: \<open>monitor s m\<close> for the mutex, \<open>room s m c\<close> for a condition whose fibers wait
  with the mutex, \<open>runs s\<close> for the fiber that runs, \<open>held s m\<close> inside the section.
\<close>

definition monitor :: "spec \<Rightarrow> ptr \<Rightarrow> bool" where
  "monitor s m \<longleftrightarrow> m \<noteq> NULL \<and> mutexes_ok s \<and> (\<exists>y. sp_mutex s m = Some y \<and> m_is_recursive y = 0) \<and>
     lockers_timed s m \<and> sp_queues s Q_signal = []"

definition waits_with :: "spec \<Rightarrow> ptr \<Rightarrow> ptr \<Rightarrow> bool" where
  "waits_with s m x \<longleftrightarrow> (\<exists>f. sp_fiber s x = Some f \<and> f_cond_mutex f = m \<and> f_lock_count f = 1 \<and> (f_timer f > 0 \<longleftrightarrow> timed s x))"

definition room :: "spec \<Rightarrow> ptr \<Rightarrow> ptr \<Rightarrow> bool" where
  "room s m c \<longleftrightarrow> c \<noteq> NULL \<and> (\<exists>z. sp_cond s c = Some z \<and> c_lock z = 0) \<and> (\<forall>x \<in> set (sp_queues s (Q_wait c)). waits_with s m x)"

definition runs :: "spec \<Rightarrow> bool" where
  "runs s \<longleftrightarrow> idle s (sp_self s) \<and> \<not> timed s (sp_self s)"

definition owner :: "spec \<Rightarrow> ptr \<Rightarrow> ptr" where
  "owner s m = m_owner (the (sp_mutex s m))"

definition held :: "spec \<Rightarrow> ptr \<Rightarrow> bool" where
  "held s m \<longleftrightarrow> owner s m = sp_self s"

lemma monitorE:
  assumes "monitor s m"
  obtains ow lq n where "sp_mutex s m = Some \<lparr>m_lock = 0, m_owner = ow, m_lock_queue = lq, m_lock_count = n, m_is_recursive = 0\<rparr>"
    and "m \<noteq> NULL" and "mutexes_ok s" and "n = (if ow = NULL then 0 else 1)" and "lockers_timed s m" and "owner s m = ow"
proof -
  obtain y where y: "sp_mutex s m = Some y" "m_is_recursive y = 0" using assms by (auto simp: monitor_def)
  have ok: "mutexes_ok s" using assms by (simp add: monitor_def)
  from mutexes_okD [OF ok y(1)] y(2) have n: "m_lock y = 0" "m_lock_count y = (if m_owner y = NULL then 0 else 1)"
    by (auto simp: mutex_ok_def)
  show thesis by (rule that [of "m_owner y" "m_lock_queue y" "m_lock_count y"])
    (use assms y n ok in \<open>auto simp: monitor_def owner_def\<close>)
qed

lemma runsD: "runs s \<Longrightarrow> sp_self s \<noteq> NULL" "runs s \<Longrightarrow> idle s (sp_self s)" "runs s \<Longrightarrow> \<not> timed s (sp_self s)"
  "runs s \<Longrightarrow> sp_self s \<notin> set (sp_queues s q)" "runs s \<Longrightarrow> \<exists>f. sp_fiber s (sp_self s) = Some f"
  by (auto simp: runs_def idle_def)

lemma room_waiter:
  assumes "monitor s m" and "waits_with s m x" and "x \<noteq> owner s m"
  shows "waiter_ok s x"
  by (rule monitorE [OF assms(1)]) (use assms(2,3) in \<open>auto simp: waiter_ok_def waits_with_def\<close>)

section \<open>Entering\<close>

lemma lock_free:
  assumes r: "rep w s" and m: "monitor s m" "owner s m = NULL" and s: "runs s"
  shows "wp (melon_mutex_lock m w) (yields (Returned 0, snd (sp_lock m s)))"
proof -
  obtain ow lq n where y: "sp_mutex s m = Some \<lparr>m_lock = 0, m_owner = ow, m_lock_queue = lq, m_lock_count = n, m_is_recursive = 0\<rparr>"
    and y': "m \<noteq> NULL" "mutexes_ok s" "owner s m = ow" using monitorE [OF m(1)] by metis
  have "wp (melon_mutex_lock m w) (yields (sp_lock m s))"
    by (rule mutex_lock_refines [OF r refl]) (use y y' m(2) runsD [OF s] in auto)
  moreover have "fst (sp_lock m s) = Returned 0" using y y' m(2) by (simp add: sp_lock_def Let_def)
  ultimately show ?thesis by (metis prod.collapse)
qed

lemma lock_busy:
  assumes r: "rep w s" and m: "monitor s m" "owner s m \<noteq> NULL" "\<not> held s m" and s: "runs s"
  shows "wp (melon_mutex_lock m w) (yields (Suspended (), snd (sp_lock m s)))"
proof -
  obtain ow lq n where y: "sp_mutex s m = Some \<lparr>m_lock = 0, m_owner = ow, m_lock_queue = lq, m_lock_count = n, m_is_recursive = 0\<rparr>"
    and y': "m \<noteq> NULL" "mutexes_ok s" "owner s m = ow" using monitorE [OF m(1)] by metis
  have "wp (melon_mutex_lock m w) (yields (sp_lock m s))"
    by (rule mutex_lock_refines [OF r refl]) (use y y' m(2,3) runsD [OF s] in \<open>auto simp: held_def\<close>)
  moreover have "fst (sp_lock m s) = Suspended ()" using y y' m(2,3) by (simp add: sp_lock_def Let_def held_def)
  ultimately show ?thesis by (metis prod.collapse)
qed

lemma sp_lock_free:
  assumes "monitor s m" and "owner s m = NULL"
  shows "snd (sp_lock m s) = sp_mod_mutex m (\<lambda>x. x\<lparr>m_owner := sp_self s, m_lock_count := 1\<rparr>)
    (sp_mod_fiber (sp_self s) (\<lambda>f. f\<lparr>f_lock_count := 1, f_timer := 0\<rparr>) s)"
  by (rule monitorE [OF assms(1)]) (use assms(2) in \<open>simp add: sp_lock_def Let_def\<close>)

lemma monitor_lock_free:
  assumes m: "monitor s m" "owner s m = NULL" and s: "runs s"
  shows "monitor (snd (sp_lock m s)) m" "held (snd (sp_lock m s)) m" "runs (snd (sp_lock m s))"
    "room (snd (sp_lock m s)) m c \<longleftrightarrow> room s m c" "sp_queues (snd (sp_lock m s)) = sp_queues s" "sp_self (snd (sp_lock m s)) = sp_self s"
proof -
  note [simp] = sp_lock_free [OF m]
  have "lockers_timed s m" using m by (simp add: monitor_def)
  then have l: "lockers_timed (snd (sp_lock m s)) m"
    using runsD(4) [OF s, of "Q_lock m"] by (auto simp: lockers_timed_def timer_of_def)
  obtain y where y: "sp_mutex s m = Some y" "mutexes_ok s" "m_is_recursive y = 0" "m_owner y = NULL"
    using m by (auto simp: monitor_def owner_def)
  have "mutexes_ok (snd (sp_lock m s))"
    by (rule sp_lock_ok [OF y(2,1)]) (use y runsD [OF s] in auto)
  then show "monitor (snd (sp_lock m s)) m" using m l y by (auto simp: monitor_def)
  show "held (snd (sp_lock m s)) m" using y by (simp add: held_def owner_def)
  show "runs (snd (sp_lock m s))" using s by (simp add: runs_def)
  show "room (snd (sp_lock m s)) m c \<longleftrightarrow> room s m c"
    using runsD(4) [OF s, of "Q_wait c"] by (auto simp: room_def waits_with_def)
qed (simp_all add: sp_lock_free [OF m])

section \<open>Leaving\<close>

lemma unlock_held:
  assumes r: "rep w s" and m: "monitor s m" "held s m" and s: "runs s"
  shows "wp (melon_mutex_unlock m w) (\<lambda>w'. rep w' (sp_unlock m s))"
proof (rule monitorE [OF m(1)])
  fix ow lq n
  assume y: "sp_mutex s m = Some \<lparr>m_lock = 0, m_owner = ow, m_lock_queue = lq, m_lock_count = n, m_is_recursive = 0\<rparr>"
    and y': "m \<noteq> NULL" "n = (if ow = NULL then 0 else 1)" "lockers_timed s m" "owner s m = ow"
  have "ow \<noteq> NULL" using m(2) y' runsD(1) [OF s] by (simp add: held_def)
  then show ?thesis
    by (intro mutex_unlock_refines [OF r y'(1) y]) (use y' in \<open>auto simp: lockers_timed_def\<close>)
qed

lemma sp_unlock_held:
  assumes "monitor s m"
  shows "sp_unlock m s = (case sp_queues s (Q_lock m) of
      [] \<Rightarrow> sp_mod_mutex m (\<lambda>x. x\<lparr>m_lock_count := 0, m_owner := NULL\<rparr>) s
    | x # _ \<Rightarrow> sp_ready x (let s = sp_mod_mutex m (\<lambda>y. y\<lparr>m_owner := x, m_lock_count := 1\<rparr>) (sp_deq (Q_lock m) s) in
        if timer_of (sp_fiber s) x > 0 then sp_timer_del x s else s))"
  by (rule monitorE [OF assms]) (auto simp: sp_unlock_def Let_def split: list.splits)

text \<open>Who has the mutex afterwards, and what else changes.\<close>

lemma monitor_unlock:
  assumes r: "rep w s" and m: "monitor s m" "held s m" and s: "runs s"
  shows "monitor (sp_unlock m s) m" "runs (sp_unlock m s)" "\<not> held (sp_unlock m s) m"
    "owner (sp_unlock m s) m = (case sp_queues s (Q_lock m) of [] \<Rightarrow> NULL | x # _ \<Rightarrow> x)"
    "room s m c \<Longrightarrow> room (sp_unlock m s) m c" "sp_self (sp_unlock m s) = sp_self s"
    "sp_queues (sp_unlock m s) = (sp_queues s)(Q_lock m := tl (sp_queues s (Q_lock m)),
       Q_ready := sp_queues s Q_ready @ take 1 (sp_queues s (Q_lock m)))"
proof -
  note u = sp_unlock_held [OF m(1)]
  obtain y where y: "sp_mutex s m = Some y" "m_is_recursive y = 0" using m by (auto simp: monitor_def)
  have self: "sp_self s \<noteq> NULL" "\<And>q. sp_self s \<notin> set (sp_queues s q)" using runsD [OF s] by auto
  have "0 < m_lock_count y" by (rule monitorE [OF m(1)]) (use y m(2) self in \<open>auto simp: held_def\<close>)
  moreover have "NULL \<notin> set (sp_queues s (Q_lock m))" using rep_member [OF r, of NULL] by blast
  ultimately have ok: "mutexes_ok (sp_unlock m s)" using m by (intro sp_unlock_ok [OF _ y(1)]) (auto simp: monitor_def)
  have d: "distinct (sp_queues s (Q_lock m))" using rep_distinct [OF r] .
  have l: "lockers_timed s m" "sp_queues s Q_signal = []" "m \<noteq> NULL" using m by (simp_all add: monitor_def)
  have "lockers_timed (sp_unlock m s) m" unfolding u
    using l(1) d by (auto simp: lockers_timed_def timer_of_def timed_def Let_def split: list.splits)
  then show "monitor (sp_unlock m s) m" using ok l y unfolding u by (auto simp: monitor_def Let_def split: list.splits)
  show "sp_queues (sp_unlock m s) = (sp_queues s)(Q_lock m := tl (sp_queues s (Q_lock m)),
       Q_ready := sp_queues s Q_ready @ take 1 (sp_queues s (Q_lock m)))"
    unfolding u by (auto simp: Let_def split: list.splits)
  show o: "owner (sp_unlock m s) m = (case sp_queues s (Q_lock m) of [] \<Rightarrow> NULL | x # _ \<Rightarrow> x)"
    unfolding u owner_def using y by (auto simp: Let_def split: list.splits)
  show sf: "sp_self (sp_unlock m s) = sp_self s" unfolding u by (simp add: Let_def split: list.splits)
  show "\<not> held (sp_unlock m s) m" unfolding held_def sf o using self(1) self(2) [of "Q_lock m"] by (auto split: list.splits)
  show "runs (sp_unlock m s)"
  proof (cases "sp_queues s (Q_lock m)")
    case (Cons x xs)
    with self(2) [of "Q_lock m"] have "sp_self s \<noteq> x" "sp_self s \<notin> set xs" by auto
    with s Cons show ?thesis unfolding runs_def sf u
      by (auto simp: Let_def timed_def idle_def dest: notin_set_remove1)
  qed (use s in \<open>simp add: runs_def sf u\<close>)
  have dj: "x \<notin> set (sp_queues s (Q_wait c))" if "x \<in> set (sp_queues s (Q_lock m))" for x
    using qrep_disjoint [OF rep_qrep [OF r] that, of "Q_wait c"] by blast
  show "room s m c \<Longrightarrow> room (sp_unlock m s) m c"
    using dj unfolding u by (auto simp: room_def waits_with_def timed_def Let_def split: list.splits)
qed

section \<open>Broadcasting\<close>

lemma sp_wake_held:
  assumes m: "monitor s m" "held s m" and s: "runs s" and x: "waits_with s m x" "idle s x" "x \<noteq> sp_self s"
  shows "monitor (sp_wake x s) m" "held (sp_wake x s) m" "runs (sp_wake x s)" "sp_cond (sp_wake x s) = sp_cond s"
    "sp_queues (sp_wake x s) = (sp_queues s)(Q_lock m := sp_queues s (Q_lock m) @ [x])"
    "\<And>y. y \<noteq> x \<Longrightarrow> waits_with (sp_wake x s) m' y \<longleftrightarrow> waits_with s m' y"
proof -
  obtain f where f: "sp_fiber s x = Some f" "f_cond_mutex f = m" "f_lock_count f = 1"
    using x(1) by (auto simp: waits_with_def)
  obtain y where y: "sp_mutex s m = Some y" "m_is_recursive y = 0" "m_owner y = sp_self s" "m_owner y \<noteq> NULL"
    using m runsD(1) [OF s] by (auto simp: monitor_def held_def owner_def)
  have w: "sp_wake x s = sp_enq (Q_lock m) x (sp_mod_fiber x (\<lambda>f. f\<lparr>f_timer := 0\<rparr>)
      (if timer_of (sp_fiber s) x > 0 then sp_timer_del x s else s))"
    using f y by (simp add: sp_wake_def sp_lock2_def Let_def)
  have "waiter_ok s x" by (rule room_waiter [OF m(1) x(1)]) (use m(2) x(3) in \<open>simp add: held_def\<close>)
  with m(1) x(2) have ok: "mutexes_ok (sp_wake x s)" by (intro sp_wake_ok) (auto simp: monitor_def)
  show "sp_queues (sp_wake x s) = (sp_queues s)(Q_lock m := sp_queues s (Q_lock m) @ [x])" unfolding w by simp
  have lt: "lockers_timed s m" using m(1) by (simp add: monitor_def)
  have "lockers_timed (sp_wake x s) m" unfolding w
    using lt f(1) by (auto simp: lockers_timed_def timer_of_def timed_def)
  then show "monitor (sp_wake x s) m" using ok m(1) unfolding w by (auto simp: monitor_def)
  show "held (sp_wake x s) m" using m(2) unfolding w by (simp add: held_def owner_def)
  show "runs (sp_wake x s)" using s x(3) unfolding w runs_def by (auto simp: timed_def idle_def dest: notin_set_remove1)
  show "sp_cond (sp_wake x s) = sp_cond s" unfolding w by simp
  show "y \<noteq> x \<Longrightarrow> waits_with (sp_wake x s) m' y \<longleftrightarrow> waits_with s m' y" for y
    unfolding w by (auto simp: waits_with_def timed_def)
qed

text \<open>One turn, with the fiber at the head of the wait queue.\<close>

lemma sp_wake_head:
  assumes q: "sp_queues s (Q_wait c) = x # xs" "distinct (x # xs)" "x \<noteq> NULL"
    and dj: "\<And>r. r \<noteq> Q_wait c \<Longrightarrow> x \<notin> set (sp_queues s r)"
    and m: "monitor s m" "held s m" and s: "runs s" and c: "room s m c"
  defines "s' \<equiv> sp_wake x (sp_deq (Q_wait c) s)"
  shows "monitor s' m" "held s' m" "runs s'" "room s' m c" "sp_cond s' = sp_cond s"
    "sp_queues s' = (sp_queues s)(Q_wait c := xs, Q_lock m := sp_queues s (Q_lock m) @ [x])"
    "\<And>y. y \<noteq> x \<Longrightarrow> waits_with s' m' y \<longleftrightarrow> waits_with s m' y" "sp_self s' = sp_self s"
proof -
  let ?s = "sp_deq (Q_wait c) s"
  have x: "waits_with s m x" using c q(1) by (simp add: room_def)
  have d: "monitor ?s m" "held ?s m" "runs ?s" "waits_with ?s m x" "x \<noteq> sp_self ?s"
    using m s x q(1) runsD(4) [OF s, of "Q_wait c"]
    by (auto simp: monitor_def mutexes_ok_def lockers_timed_def held_def owner_def runs_def waits_with_def idle_def)
  have "x \<notin> set (sp_queues ?s r)" for r using dj [of r] q by auto
  then have "idle ?s x" using x q(3) by (auto simp: idle_def waits_with_def)
  note w = sp_wake_held [OF d(1-4) this d(5)]
  show "monitor s' m" "held s' m" "runs s'" "sp_cond s' = sp_cond s" "sp_self s' = sp_self s" using w by (simp_all add: s'_def)
  show q': "sp_queues s' = (sp_queues s)(Q_wait c := xs, Q_lock m := sp_queues s (Q_lock m) @ [x])"
    using w(5) q(1) by (auto simp: s'_def)
  show ww: "waits_with s' m' y \<longleftrightarrow> waits_with s m' y" if "y \<noteq> x" for m' y
    using w(6) [of y m'] that by (simp add: s'_def waits_with_def)
  have "waits_with s' m y" if "y \<in> set xs" for y using c q that ww [of y m] by (auto simp: room_def)
  then show "room s' m c" using c unfolding room_def q' by (simp add: w(4) s'_def)
qed

lemma sp_wake_all_held:
  assumes "sp_queues s (Q_wait c) = xs" "distinct xs" "NULL \<notin> set xs"
    and "\<And>x r. x \<in> set xs \<Longrightarrow> r \<noteq> Q_wait c \<Longrightarrow> x \<notin> set (sp_queues s r)"
    and "monitor s m" "held s m" "runs s" "room s m c"
  shows "let s' = sp_wake_all (Q_wait c) xs s in monitor s' m \<and> held s' m \<and> runs s' \<and> room s' m c \<and> sp_cond s' = sp_cond s \<and>
    sp_queues s' = (sp_queues s)(Q_wait c := [], Q_lock m := sp_queues s (Q_lock m) @ xs) \<and>
    (\<forall>y. y \<notin> set xs \<longrightarrow> waits_with s' m' y = waits_with s m' y) \<and> sp_self s' = sp_self s"
  using assms
proof (induction xs arbitrary: s)
  case Nil
  then show ?case by (auto simp: Let_def fun_eq_iff)
next
  case (Cons x xs)
  let ?s = "sp_wake x (sp_deq (Q_wait c) s)"
  have x: "x \<noteq> NULL" "\<And>r. r \<noteq> Q_wait c \<Longrightarrow> x \<notin> set (sp_queues s r)" using Cons.prems(3,4) by auto
  note h = sp_wake_head [OF Cons.prems(1,2) x Cons.prems(5-8)]
  have q: "sp_queues ?s (Q_wait c) = xs" "distinct xs" "NULL \<notin> set xs" using h(6) Cons.prems(2,3) by simp_all
  have dj: "y \<notin> set (sp_queues ?s r)" if "y \<in> set xs" "r \<noteq> Q_wait c" for y r
    using h(6) Cons.prems(2) Cons.prems(4) [of y r] that by auto
  note ih = Cons.IH [OF q dj h(1-4), unfolded Let_def]
  moreover have "sp_queues (sp_wake_all (Q_wait c) xs ?s) = (sp_queues s)(Q_wait c := [], Q_lock m := sp_queues s (Q_lock m) @ x # xs)"
    using ih h(6) by auto
  ultimately show ?case using h(5,7,8) unfolding Let_def sp_wake_all.simps by (metis list.set_intros)
qed

lemma broadcast_held:
  assumes r: "rep w s" and m: "monitor s m" "held s m" and s: "runs s" and c: "room s m c"
  shows "wp (melon_cond_broadcast c w) (\<lambda>(n, w'). rep w' (sp_broadcast c s))"
proof -
  obtain z where z: "sp_cond s c = Some z" "c_lock z = 0" using c by (auto simp: room_def)
  have e: "sp_queues s Q_signal = []" using m by (simp add: monitor_def)
  have "waiter_ok s x" if "x \<in> set (sp_queues s (Q_wait c))" for x
    using c m(2) that runsD(4) [OF s, of "Q_wait c"]
    by (intro room_waiter [OF m(1)]) (auto simp: room_def held_def)
  then have "wp (melon_cond_signalnb c 0 w) (yields (sint (word_of_nat (length (sp_queues s (Q_wait c))) :: 32 word), sp_broadcast c s))"
    using cond_signalnb_refines [OF r z e, of 0] sp_signalnb_all [OF e, of 0 c] by simp
  then show ?thesis by (auto simp: melon_cond_broadcast_def yields_def wp_def)
qed

text \<open>With at most one fiber waiting a signal is a broadcast.\<close>

lemma signal_held:
  assumes r: "rep w s" and m: "monitor s m" "held s m" and s: "runs s" and c: "room s m c" and q: "length (sp_queues s (Q_wait c)) \<le> 1"
  shows "wp (melon_cond_signal c w) (\<lambda>(n, w'). rep w' (sp_broadcast c s))"
proof -
  obtain z where z: "sp_cond s c = Some z" "c_lock z = 0" using c by (auto simp: room_def)
  have e: "sp_queues s Q_signal = []" using m by (simp add: monitor_def)
  have "waiter_ok s x" if "x \<in> set (sp_queues s (Q_wait c))" for x
    using c m(2) that runsD(4) [OF s, of "Q_wait c"]
    by (intro room_waiter [OF m(1)]) (auto simp: room_def held_def)
  then show ?thesis using cond_signalnb_refines [OF r z e, of 1] sp_signalnb_all [OF e, of 1 c] q
    by (auto simp: melon_cond_signal_def yields_def wp_def)
qed

lemma monitor_broadcast:
  assumes r: "rep w s" and m: "monitor s m" "held s m" and s: "runs s" and c: "room s m c"
  shows "monitor (sp_broadcast c s) m" "held (sp_broadcast c s) m" "runs (sp_broadcast c s)" "room (sp_broadcast c s) m c"
    "sp_queues (sp_broadcast c s) = (sp_queues s)(Q_wait c := [], Q_lock m := sp_queues s (Q_lock m) @ sp_queues s (Q_wait c))"
    "sp_self (sp_broadcast c s) = sp_self s" "sp_cond (sp_broadcast c s) = sp_cond s"
    "room s m c' \<Longrightarrow> room (sp_broadcast c s) m c'"
proof -
  let ?xs = "sp_queues s (Q_wait c)"
  have dj: "x \<notin> set (sp_queues s r)" if "x \<in> set ?xs" "r \<noteq> Q_wait c" for x r
    using qrep_disjoint [OF rep_qrep [OF r] that(1), of r] that(2) by blast
  have n: "NULL \<notin> set ?xs" using rep_member [OF r, of NULL] by blast
  note h = sp_wake_all_held [OF refl rep_distinct [OF r] n dj m s c, of m, folded sp_broadcast_def, unfolded Let_def]
  then show "monitor (sp_broadcast c s) m" "held (sp_broadcast c s) m" "runs (sp_broadcast c s)" "room (sp_broadcast c s) m c"
    "sp_queues (sp_broadcast c s) = (sp_queues s)(Q_wait c := [], Q_lock m := sp_queues s (Q_lock m) @ sp_queues s (Q_wait c))"
    "sp_self (sp_broadcast c s) = sp_self s" "sp_cond (sp_broadcast c s) = sp_cond s" by blast+
  show "room (sp_broadcast c s) m c'" if c': "room s m c'"
  proof (cases "c' = c")
    case False
    then have "x \<notin> set ?xs" if "x \<in> set (sp_queues s (Q_wait c'))" for x using dj [of x "Q_wait c'"] that by auto
    with c' False h show ?thesis by (auto simp: room_def)
  qed (use h in blast)
qed

text \<open>The end of a section that wakes all: the first of them has the mutex and is ready.\<close>

lemma broadcast_unlock:
  assumes r: "rep w s" and m: "monitor s m" "held s m" and s: "runs s" and c: "room s m c"
  obtains n w1 w2 where "melon_cond_broadcast c w = Inr (n, w1)" and "rep w1 (sp_broadcast c s)"
    and "melon_mutex_unlock m w1 = Inr w2" and "rep w2 (sp_unlock m (sp_broadcast c s))"
    and "monitor (sp_unlock m (sp_broadcast c s)) m" and "runs (sp_unlock m (sp_broadcast c s))"
    and "sp_queues (sp_unlock m (sp_broadcast c s)) = (let xs = sp_queues s (Q_lock m) @ sp_queues s (Q_wait c) in
      (sp_queues s)(Q_wait c := [], Q_lock m := tl xs, Q_ready := sp_queues s Q_ready @ take 1 xs))"
proof -
  note h = monitor_broadcast [OF r m s c]
  obtain n w1 where w1: "melon_cond_broadcast c w = Inr (n, w1)" "rep w1 (sp_broadcast c s)"
    using broadcast_held [OF r m s c] by (auto simp: wp_def)
  obtain w2 where w2: "melon_mutex_unlock m w1 = Inr w2" "rep w2 (sp_unlock m (sp_broadcast c s))"
    using unlock_held [OF w1(2) h(1-3)] by (auto simp: wp_def)
  note u = monitor_unlock [OF w1(2) h(1-3)]
  show thesis by (rule that [OF w1 w2 u(1,2)]) (use u(7) h(5) in \<open>auto simp: Let_def fun_eq_iff\<close>)
qed

section \<open>Waiting\<close>

lemma wait_held:
  assumes r: "rep w s" and m: "monitor s m" "held s m" and s: "runs s" and c: "room s m c"
  shows "wp (melon_cond_wait c m w) (yields (Suspended (), snd (sp_cond_wait c m s)))"
proof (rule monitorE [OF m(1)])
  fix ow lq n
  assume y: "sp_mutex s m = Some \<lparr>m_lock = 0, m_owner = ow, m_lock_queue = lq, m_lock_count = n, m_is_recursive = 0\<rparr>"
    and y': "m \<noteq> NULL" "lockers_timed s m" "owner s m = ow"
  obtain z where z: "c \<noteq> NULL" "sp_cond s c = Some z" "c_lock z = 0" using c by (auto simp: room_def)
  have "wp (melon_cond_wait c m w) (yields (sp_cond_wait c m s))"
    by (rule cond_wait_refines [OF r refl runsD(2,3) [OF s] z y'(1) y _ _ y'(2)]) (use m(2) y' in \<open>simp_all add: held_def\<close>)
  then show ?thesis by (simp add: wp_yields sp_cond_wait_def Let_def)
qed

text \<open>The fiber waits in the room, the mutex has passed on.\<close>

lemma monitor_wait:
  assumes r: "rep w s" and m: "monitor s m" "held s m" and s: "runs s" and c: "room s m c"
  defines "s' \<equiv> snd (sp_cond_wait c m s)"
  shows "room s' m c" "sp_queues s' = (sp_queues s)(Q_wait c := sp_queues s (Q_wait c) @ [sp_self s],
      Q_lock m := tl (sp_queues s (Q_lock m)), Q_ready := sp_queues s Q_ready @ take 1 (sp_queues s (Q_lock m)))"
    "owner s' m = (case sp_queues s (Q_lock m) of [] \<Rightarrow> NULL | x # _ \<Rightarrow> x)" "mutexes_ok s'" "monitor s' m"
proof -
  obtain ow lq n where y: "sp_mutex s m = Some \<lparr>m_lock = 0, m_owner = ow, m_lock_queue = lq, m_lock_count = n, m_is_recursive = 0\<rparr>"
    and y': "m \<noteq> NULL" "mutexes_ok s" "n = (if ow = NULL then 0 else 1)" "lockers_timed s m" "owner s m = ow"
    by (rule monitorE [OF m(1)])
  have n: "n = 1" "ow = sp_self s" using m(2) y' runsD(1) [OF s] by (auto simp: held_def)
  have self: "\<And>q. sp_self s \<notin> set (sp_queues s q)" "\<not> timed s (sp_self s)" using runsD [OF s] by auto
  obtain f where f: "sp_fiber s (sp_self s) = Some f" using runsD(5) [OF s] by blast
  have dj: "x \<notin> set (sp_queues s (Q_wait c))" if "x \<in> set (sp_queues s (Q_lock m))" for x
    using qrep_disjoint [OF rep_qrep [OF r] that, of "Q_wait c"] by blast
  have nn: "NULL \<notin> set (sp_queues s (Q_lock m))" using rep_member [OF r, of NULL] by blast
  have s': "s' = sp_unlock m (sp_mod_mutex m (\<lambda>x. x\<lparr>m_lock_count := 1\<rparr>) (sp_enq (Q_wait c) (sp_self s)
       (sp_mod_fiber (sp_self s) (\<lambda>f. f\<lparr>f_cond_mutex := m, f_lock_count := 1, f_timer := 0\<rparr>) s)))"
    using y n by (simp add: s'_def sp_cond_wait_def Let_def)
  show ok: "mutexes_ok s'" unfolding s'_def by (rule sp_cond_wait_ok [OF y'(2) y _ runsD(2) [OF s] nn]) (simp add: n)
  show "sp_queues s' = (sp_queues s)(Q_wait c := sp_queues s (Q_wait c) @ [sp_self s],
      Q_lock m := tl (sp_queues s (Q_lock m)), Q_ready := sp_queues s Q_ready @ take 1 (sp_queues s (Q_lock m)))"
    unfolding s' using y by (auto simp: sp_unlock_def Let_def split: list.splits)
  show "owner s' m = (case sp_queues s (Q_lock m) of [] \<Rightarrow> NULL | x # _ \<Rightarrow> x)"
    unfolding s' owner_def using y by (auto simp: sp_unlock_def Let_def split: list.splits)
  show "room s' m c" unfolding s' using y c dj self f
    by (auto simp: sp_unlock_def room_def waits_with_def timed_def Let_def split: list.splits)
  have "lockers_timed s' m" unfolding s' using y y'(4) f self(1) [of "Q_lock m"] self(2) rep_distinct [OF r, of "Q_lock m"]
    by (auto simp: sp_unlock_def lockers_timed_def timed_def timer_of_def Let_def split: list.splits)
  then show "monitor s' m" using ok m(1) y unfolding s' by (auto simp: monitor_def sp_unlock_def Let_def split: list.splits)
qed

section \<open>The data of a client\<close>

text \<open>
  A client keeps its objects in a heap of its own. The contract: a write to that heap
  changes nothing that the mutex, the conditions and the queues look at, and they do not
  change it. \<open>sp_data\<close> is the write on specification states.
\<close>

definition sp_data :: "(world \<Rightarrow> (ptr \<rightharpoonup> 'o)) \<Rightarrow> ((ptr \<rightharpoonup> 'o) \<Rightarrow> world \<Rightarrow> world) \<Rightarrow> ptr \<Rightarrow> ('o \<Rightarrow> 'o) \<Rightarrow> spec \<Rightarrow> spec" where
  "sp_data heap set_heap p f s = sp_lift (\<lambda>w. set_heap ((heap w)(p := map_option f (heap w p))) w) s"

locale client_data =
  fixes heap :: "world \<Rightarrow> (ptr \<rightharpoonup> 'o)" and set_heap :: "(ptr \<rightharpoonup> 'o) \<Rightarrow> world \<Rightarrow> world"
  assumes heap_set: "heap (set_heap h w) = h"
    and set_frame: "fibers (set_heap h w) = fibers w" "mutexes (set_heap h w) = mutexes w" "conds (set_heap h w) = conds w"
      "g_current_fiber (set_heap h w) = g_current_fiber w"
    and heap_frame: "heap (w\<lparr>fibers := F\<rparr>) = heap w" "heap (w\<lparr>mutexes := M\<rparr>) = heap w" "heap (w\<lparr>conds := C\<rparr>) = heap w"
      "heap (w\<lparr>g_melon := g\<rparr>) = heap w" "heap (w\<lparr>errno := e\<rparr>) = heap w" "heap (w\<lparr>signal_list := l\<rparr>) = heap w"
    and rep_set: "rep w s \<Longrightarrow> rep (set_heap h w) (sp_lift (set_heap h) s)"
begin

lemma heap_rep: "rep w s \<Longrightarrow> heap w = heap (sp_world s)"
  by (simp add: rep_def erase_def heap_frame)

lemma rep_write:
  assumes "rep w s" and "heap w p = Some x"
  shows "rep (set_heap ((heap w)(p \<mapsto> f x)) w) (sp_data heap set_heap p f s)"
  using rep_set [OF assms(1), of "(heap w)(p \<mapsto> f x)"] assms(2) heap_rep [OF assms(1)] by (simp add: sp_data_def sp_lift_def)

lemma sp_data_simps [simp]:
  "sp_mutex (sp_data heap set_heap p f s) = sp_mutex s" "sp_cond (sp_data heap set_heap p f s) = sp_cond s"
  "sp_fiber (sp_data heap set_heap p f s) = sp_fiber s" "sp_self (sp_data heap set_heap p f s) = sp_self s"
  "sp_queues (sp_data heap set_heap p f s) = sp_queues s" "sp_timers (sp_data heap set_heap p f s) = sp_timers s"
  "heap (sp_world (sp_data heap set_heap p f s)) = (heap (sp_world s))(p := map_option f (heap (sp_world s) p))"
  by (simp_all add: sp_data_def sp_lift_def set_frame heap_set)

lemma sp_data_keeps [simp]:
  "monitor (sp_data heap set_heap p f s) m = monitor s m" "room (sp_data heap set_heap p f s) m c = room s m c"
  "runs (sp_data heap set_heap p f s) = runs s" "held (sp_data heap set_heap p f s) m = held s m"
  "owner (sp_data heap set_heap p f s) m = owner s m" "waits_with (sp_data heap set_heap p f s) m x = waits_with s m x"
  "idle (sp_data heap set_heap p f s) x = idle s x" "timed (sp_data heap set_heap p f s) x = timed s x"
  by (simp_all add: monitor_def room_def runs_def held_def owner_def waits_with_def mutexes_ok_def lockers_timed_def timed_def idle_def)

lemma heap_kept [simp]:
  "heap (sp_world (sp_mod_fiber x k s)) = heap (sp_world s)" "heap (sp_world (sp_mod_mutex m g s)) = heap (sp_world s)"
  "heap (sp_world (sp_ready x s)) = heap (sp_world s)" "heap (sp_world (sp_timer_del x s)) = heap (sp_world s)"
  "heap (sp_world (sp_timer_push x s)) = heap (sp_world s)" "heap (sp_world (sp_errno n s)) = heap (sp_world s)"
  by (simp_all add: sp_defs sp_ready_def sp_timer_push_def heap_frame Let_def)

lemma heap_lock [simp]: "heap (sp_world (snd (sp_lock m s))) = heap (sp_world s)"
  by (simp add: sp_lock_def Let_def)

lemma heap_unlock [simp]: "heap (sp_world (sp_unlock m s)) = heap (sp_world s)"
  by (simp add: sp_unlock_def Let_def split: list.splits)

lemma heap_lock2 [simp]: "heap (sp_world (sp_lock2 x m s)) = heap (sp_world s)"
  by (simp add: sp_lock2_def Let_def)

lemma heap_wake_all [simp]: "heap (sp_world (sp_wake_all q xs s)) = heap (sp_world s)"
  by (induction xs arbitrary: s) (simp_all add: sp_wake_def)

lemma heap_broadcast [simp]: "heap (sp_world (sp_broadcast c s)) = heap (sp_world s)"
  by (simp add: sp_broadcast_def)

lemma heap_wait [simp]: "heap (sp_world (snd (sp_cond_wait c m s))) = heap (sp_world s)"
  by (simp add: sp_cond_wait_def Let_def)

end

end
