(* ===== verification/Melon_Fiber.thy ===== *)
theory Melon_Fiber
  imports Melon_Cond Melon_Run
begin

text \<open>
  Fibers (\<^verbatim>\<open>src/fiber.c\<close>): creation with all its failure paths, the function that
  runs a fiber and ends it, joining and detaching, destruction.
\<close>

section \<open>Attributes\<close>

definition melon_fiberattr_init :: "ptr \<Rightarrow> nat \<Rightarrow> int \<times> melon_fiberattr option" where
  "melon_fiberattr_init malloc SIGSTKSZ =
    (if malloc = NULL then (-1, None)
     else (0, Some \<lparr>fa_name = ''(none)'', fa_stack_size = melon_stack_size SIGSTKSZ\<rparr>))"

definition melon_fiberattr_setstacksize :: "32 word \<Rightarrow> melon_fiberattr \<Rightarrow> melon_fiberattr" where
  "melon_fiberattr_setstacksize sz attr = attr\<lparr>fa_stack_size := sz\<rparr>"

definition melon_fiberattr_getstacksize :: "melon_fiberattr \<Rightarrow> int" where
  "melon_fiberattr_getstacksize attr = sint (fa_stack_size attr)"

definition melon_fiber_name :: "ptr \<Rightarrow> world \<Rightarrow> string res" where
  "melon_fiber_name fiber w = res_bind (load (fibers w) fiber) (\<lambda>f. Inr (f_name f))"

definition melon_fiber_setname :: "ptr \<Rightarrow> string \<Rightarrow> world \<Rightarrow> world res" where
  "melon_fiber_setname fiber name w = mod_fiber fiber (\<lambda>f. f\<lparr>f_name := name\<rparr>) w"

section \<open>Creation\<close>

text \<open>
  What the calls of the C library return: the pointers of the three allocations (NULL on
  failure), the content of the memory of the fiber before it is initialised, the result
  of \<^verbatim>\<open>getcontext\<close>, a fresh mapping for the stack, and \<^verbatim>\<open>SIGSTKSZ\<close>.
\<close>

record fiber_env =
  fe_fiber :: ptr
  fe_mem :: melon_fiber
  fe_mutex :: ptr
  fe_cond :: ptr
  fe_getcontext :: int
  fe_mmap :: "ptr option"
  fe_sigstksz :: nat

definition fiber_fields :: "melon_fiber \<Rightarrow> melon_fiberattr option \<Rightarrow> ptr \<Rightarrow> ptr \<Rightarrow> melon_fiber" where
  "fiber_fields mem attr fct ctx = mem\<lparr>f_next := NULL, f_prev := NULL, f_timer := 0, f_timer_next := NULL,
     f_timer_prev := NULL, f_waited_event := kEventNone,
     f_name := (case attr of Some a \<Rightarrow> fa_name a | None \<Rightarrow> ''(none)''), f_io_canceled := 0, f_start_cb := fct,
     f_start_ctx := ctx, f_sched_next_cb := Sched_cb_none, f_sched_next_ctx := NULL, f_cond_mutex := NULL,
     f_lock_count := 0, f_sem_nb := 0, f_join_retval := NULL, f_join_is_detached := 0,
     f_join_is_finished := 0, f_join_mutex := NULL, f_join_cond := NULL, f_lock := melon_spin_init\<rparr>"

text \<open>The labels \<^verbatim>\<open>failure_mutex\<close>, \<^verbatim>\<open>failure_cond\<close>, \<^verbatim>\<open>failure_stack\<close>.\<close>

definition start_failure_mutex :: "ptr \<Rightarrow> world \<Rightarrow> (ptr \<times> world) res" where
  "start_failure_mutex fiber w = Inr (NULL, w\<lparr>fibers := (fibers w)(fiber := None)\<rparr>)"

definition start_failure_cond :: "ptr \<Rightarrow> world \<Rightarrow> (ptr \<times> world) res" where
  "start_failure_cond fiber w =
    res_bind (load (fibers w) fiber) (\<lambda>f.
    res_bind (if f_join_mutex f \<noteq> NULL then melon_mutex_destroy (f_join_mutex f) w else Inr w) (\<lambda>w.
    start_failure_mutex fiber w))"

definition start_failure_stack :: "ptr \<Rightarrow> world \<Rightarrow> (ptr \<times> world) res" where
  "start_failure_stack fiber w =
    res_bind (load (fibers w) fiber) (\<lambda>f.
    res_bind (if f_join_cond f \<noteq> NULL then melon_cond_destroy (f_join_cond f) w else Inr w) (\<lambda>w.
    start_failure_cond fiber w))"

text \<open>From the allocation of the stack to the end.\<close>

definition start_stack :: "fiber_env \<Rightarrow> world \<Rightarrow> (ptr \<times> world) res" where
  "start_stack env w =
    assert_that (fe_getcontext env = 0) (
    res_bind (melon_stack_alloc (fe_mmap env) (stacks w)) (\<lambda>(sp, st).
    res_bind (mod_fiber (fe_fiber env) (\<lambda>f. f\<lparr>f_uc_link := NULL, f_ss_size := melon_stack_size (fe_sigstksz env),
      f_ss_sp := sp\<rparr>) (w\<lparr>stacks := st\<rparr>)) (\<lambda>w.
    if sp = NULL then start_failure_stack (fe_fiber env) w
    else
      res_bind (int_inc (g_fibers_count (g_melon w))) (\<lambda>n.
      res_bind (melon_sched_ready (fe_fiber env) (mod_melon (\<lambda>g. g\<lparr>g_fibers_count := n\<rparr>) w)) (\<lambda>w.
      Inr (fe_fiber env, w))))))"

definition melon_fiber_start :: "fiber_env \<Rightarrow> melon_fiberattr option \<Rightarrow> ptr \<Rightarrow> ptr \<Rightarrow> bool \<Rightarrow> world \<Rightarrow> (ptr \<times> world) res" where
  "melon_fiber_start env attr fct ctx joinable w =
    assert_that (fct \<noteq> NULL) (
    let fiber = fe_fiber env in
    if fiber = NULL then Inr (NULL, w)
    else
      let w = w\<lparr>fibers := (fibers w)(fiber \<mapsto> fiber_fields (fe_mem env) attr fct ctx)\<rparr> in
      if \<not> joinable then start_stack env w
      else (case melon_mutex_init (fe_mutex env) None w of (ret, m, w) \<Rightarrow>
        res_bind (mod_fiber fiber (\<lambda>f. f\<lparr>f_join_mutex := m\<rparr>) w) (\<lambda>w.
        if ret \<noteq> 0 then start_failure_mutex fiber w
        else (case melon_cond_init (fe_cond env) w of (ret, c, w) \<Rightarrow>
          res_bind (mod_fiber fiber (\<lambda>f. f\<lparr>f_join_cond := c\<rparr>) w) (\<lambda>w.
          if ret \<noteq> 0 then start_failure_cond fiber w
          else start_stack env w)))))"

definition melon_fiber_createlight :: "fiber_env \<Rightarrow> melon_fiberattr option \<Rightarrow> ptr \<Rightarrow> ptr \<Rightarrow> world \<Rightarrow> (int \<times> world) res" where
  "melon_fiber_createlight env attr fct ctx w =
    res_bind (melon_fiber_start env attr fct ctx False w) (\<lambda>(p, w). Inr (if p \<noteq> NULL then 0 else -1, w))"

definition melon_fiber_create :: "fiber_env \<Rightarrow> melon_fiberattr option \<Rightarrow> ptr \<Rightarrow> ptr \<Rightarrow> world \<Rightarrow> (int \<times> ptr \<times> world) res" where
  "melon_fiber_create env attr fct ctx w =
    res_bind (melon_fiber_start env attr fct ctx True w) (\<lambda>(p, w). Inr (if p \<noteq> NULL then 0 else -1, p, w))"

section \<open>Destruction\<close>

definition melon_fiber_destroy :: "ptr \<Rightarrow> world \<Rightarrow> world res" where
  "melon_fiber_destroy fiber w =
    res_bind (load (fibers w) fiber) (\<lambda>f.
    res_bind (melon_stack_free (f_ss_sp f) (stacks w)) (\<lambda>st.
    let w = w\<lparr>stacks := st\<rparr> in
    res_bind
      (if f_join_mutex f \<noteq> NULL
       then res_bind (melon_cond_destroy (f_join_cond f) w) (\<lambda>w. melon_mutex_destroy (f_join_mutex f) w)
       else Inr w) (\<lambda>w.
    let w = w\<lparr>fibers := (fibers w)(fiber := None)\<rparr> in
    Inr (if g_current_fiber w = fiber then w\<lparr>g_current_fiber := NULL\<rparr> else w))))"

section \<open>The life of a fiber\<close>

text \<open>
  \<^verbatim>\<open>melon_fiber_wrapper\<close> calls the user's function, whose result is \<open>retval\<close>; then
  the fiber publishes it, waits to be joined unless it is detached, and leaves its
  destruction to the scheduler thread. Its three points of suspension are named.
\<close>

datatype wrapper_k = W_lock | W_wait | W_end

definition wrapper_end :: "world \<Rightarrow> (wrapper_k outcome \<times> world) res" where
  "wrapper_end w =
    (let self = melon_fiber_self w in
     res_bind (mod_fiber self (\<lambda>f. f\<lparr>f_waited_event := kEventDestroy\<rparr>) w) (\<lambda>w.
     res_bind (int_dec (g_fibers_count (g_melon w))) (\<lambda>n.
     let w = mod_melon (\<lambda>g. g\<lparr>g_fibers_count := n\<rparr>) w;
         w = (if n = 0 then glock_unlock (os_event Broadcast_fibers_count_zero (glock_lock w)) else w) in
     res_bind (mod_fiber self (\<lambda>f. f\<lparr>f_sched_next_cb := Sched_cb_fiber_destroy, f_sched_next_ctx := self\<rparr>) w) (\<lambda>w.
     res_bind (melon_sched_next w) (\<lambda>w.
     Inr (Suspended W_end, w))))))"

definition wrapper_unlock :: "world \<Rightarrow> (wrapper_k outcome \<times> world) res" where
  "wrapper_unlock w =
    res_bind (load (fibers w) (melon_fiber_self w)) (\<lambda>f.
    res_bind (melon_mutex_unlock (f_join_mutex f) w) (\<lambda>w.
    wrapper_end w))"

definition wrapper_locked :: "world \<Rightarrow> (wrapper_k outcome \<times> world) res" where
  "wrapper_locked w =
    (let self = melon_fiber_self w in
     res_bind (mod_fiber self (\<lambda>f. f\<lparr>f_join_is_finished := 1\<rparr>) w) (\<lambda>w.
     res_bind (load (fibers w) self) (\<lambda>f.
     res_bind (melon_cond_broadcast (f_join_cond f) w) (\<lambda>(_, w).
     res_bind (load (fibers w) self) (\<lambda>f.
     if f_join_is_detached f = 0
     then chain (melon_cond_wait (f_join_cond f) (f_join_mutex f) w) W_wait wrapper_unlock
     else wrapper_unlock w)))))"

definition melon_fiber_wrapper :: "ptr \<Rightarrow> world \<Rightarrow> (wrapper_k outcome \<times> world) res" where
  "melon_fiber_wrapper retval w =
    (let self = melon_fiber_self w in
     assert_that (self \<noteq> NULL) (
     res_bind (load (fibers w) self) (\<lambda>f.
     assert_that (f_uc_link f = NULL) (
     assert_that (f_start_cb f \<noteq> NULL) (
     res_bind (mod_fiber self (\<lambda>f. f\<lparr>f_join_retval := retval\<rparr>) w) (\<lambda>w.
     if f_join_mutex f \<noteq> NULL
     then chain (melon_mutex_lock (f_join_mutex f) w) W_lock wrapper_locked
     else wrapper_end w))))))"

definition melon_fiber_wrapper_resume :: "wrapper_k \<Rightarrow> world \<Rightarrow> (wrapper_k outcome \<times> world) res" where
  "melon_fiber_wrapper_resume k w =
    (case k of W_lock \<Rightarrow> wrapper_locked w | W_wait \<Rightarrow> wrapper_unlock w | W_end \<Rightarrow> Inl Assert_failed)"

text \<open>What the scheduler thread calls after the swap.\<close>

definition call_sched_next_cb :: "sched_callback \<Rightarrow> ptr \<Rightarrow> world \<Rightarrow> world res" where
  "call_sched_next_cb cb ctx w =
    (case cb of Sched_cb_none \<Rightarrow> Inl Null_deref | Sched_cb_fiber_destroy \<Rightarrow> melon_fiber_destroy ctx w)"

text \<open>A thread releases the fiber that has swapped back and calls the callback it left.\<close>

definition sched_leave :: "world \<Rightarrow> world res" where
  "sched_leave w = res_bind (sched_next_back w) (sched_run_callback call_sched_next_cb)"

section \<open>Joining\<close>

text \<open>
  \<open>want\<close> says that the caller gave a place for the result; what is written there is
  part of the result.
\<close>

datatype join_k = J_lock | J_wait

definition join_end :: "ptr \<Rightarrow> bool \<Rightarrow> world \<Rightarrow> (ptr option \<times> join_k outcome \<times> world) res" where
  "join_end fiber want w =
    res_bind (load (fibers w) fiber) (\<lambda>f.
    res_bind (melon_mutex_unlock (f_join_mutex f) w) (\<lambda>w.
    Inr (if want then Some (f_join_retval f) else None, Returned 0, w)))"

definition join_locked :: "ptr \<Rightarrow> bool \<Rightarrow> world \<Rightarrow> (ptr option \<times> join_k outcome \<times> world) res" where
  "join_locked fiber want w =
    res_bind (load (fibers w) fiber) (\<lambda>f.
    if f_join_is_finished f = 0
    then
      res_bind (melon_cond_wait (f_join_cond f) (f_join_mutex f) w) (\<lambda>(r, w).
      case r of Returned _ \<Rightarrow> join_end fiber want w | Suspended _ \<Rightarrow> Inr (None, Suspended J_wait, w))
    else
      res_bind (melon_cond_broadcast (f_join_cond f) w) (\<lambda>(_, w).
      join_end fiber want w))"

definition melon_fiber_join :: "ptr \<Rightarrow> bool \<Rightarrow> world \<Rightarrow> (ptr option \<times> join_k outcome \<times> world) res" where
  "melon_fiber_join fiber want w =
    assert_that (fiber \<noteq> NULL) (
    res_bind (load (fibers w) fiber) (\<lambda>f.
    res_bind (melon_mutex_lock (f_join_mutex f) w) (\<lambda>(r, w).
    case r of Returned _ \<Rightarrow> join_locked fiber want w | Suspended _ \<Rightarrow> Inr (None, Suspended J_lock, w))))"

definition melon_fiber_join_resume :: "join_k \<Rightarrow> ptr \<Rightarrow> bool \<Rightarrow> world \<Rightarrow> (ptr option \<times> join_k outcome \<times> world) res" where
  "melon_fiber_join_resume k fiber want w =
    (case k of J_lock \<Rightarrow> join_locked fiber want w | J_wait \<Rightarrow> join_end fiber want w)"

definition join_busy :: "world \<Rightarrow> (ptr option \<times> int \<times> world) res" where
  "join_busy w = Inr (None, - EBUSY, w\<lparr>errno := EBUSY\<rparr>)"

definition melon_fiber_tryjoin :: "ptr \<Rightarrow> bool \<Rightarrow> world \<Rightarrow> (ptr option \<times> int \<times> world) res" where
  "melon_fiber_tryjoin fiber want w =
    assert_that (fiber \<noteq> NULL) (
    res_bind (load (fibers w) fiber) (\<lambda>f.
    res_bind (melon_mutex_trylock (f_join_mutex f) w) (\<lambda>(ret, w).
    if ret \<noteq> 0 then join_busy w
    else
      res_bind (load (fibers w) fiber) (\<lambda>f.
      if f_join_is_finished f = 0
      then
        res_bind (melon_mutex_unlock (f_join_mutex f) w) (\<lambda>w.
        join_busy w)
      else
        res_bind (melon_cond_broadcast (f_join_cond f) w) (\<lambda>(_, w).
        res_bind (load (fibers w) fiber) (\<lambda>f.
        res_bind (melon_mutex_unlock (f_join_mutex f) w) (\<lambda>w.
        Inr (if want then Some (f_join_retval f) else None, 0, w))))))))"

datatype timedjoin_k = TJ_lock timedlock_k | TJ_wait timedwait_k

type_synonym timedjoin_res = "(ptr option \<times> timedjoin_k outcome \<times> world) res"

definition timedjoin_timedout :: "world \<Rightarrow> timedjoin_res" where
  "timedjoin_timedout w = Inr (None, Returned (- ETIMEDOUT), w\<lparr>errno := ETIMEDOUT\<rparr>)"

definition timedjoin_end :: "ptr \<Rightarrow> bool \<Rightarrow> world \<Rightarrow> timedjoin_res" where
  "timedjoin_end fiber want w =
    res_bind (load (fibers w) fiber) (\<lambda>f.
    res_bind (melon_cond_broadcast (f_join_cond f) w) (\<lambda>(_, w).
    res_bind (load (fibers w) fiber) (\<lambda>f.
    res_bind (melon_mutex_unlock (f_join_mutex f) w) (\<lambda>w.
    Inr (if want then Some (f_join_retval f) else None, Returned 0, w)))))"

definition timedjoin_waited :: "ptr \<Rightarrow> bool \<Rightarrow> int \<Rightarrow> world \<Rightarrow> timedjoin_res" where
  "timedjoin_waited fiber want ret w =
    (if ret \<noteq> 0
     then
       res_bind (load (fibers w) fiber) (\<lambda>f.
       res_bind (melon_mutex_unlock (f_join_mutex f) w) (\<lambda>w.
       timedjoin_timedout w))
     else timedjoin_end fiber want w)"

definition timedjoin_locked :: "ptr \<Rightarrow> bool \<Rightarrow> int \<Rightarrow> int \<Rightarrow> world \<Rightarrow> timedjoin_res" where
  "timedjoin_locked fiber want timeout ret w =
    (if ret \<noteq> 0 then timedjoin_timedout w
     else
       res_bind (load (fibers w) fiber) (\<lambda>f.
       if f_join_is_finished f = 0
       then
         res_bind (melon_cond_timedwait (f_join_cond f) (f_join_mutex f) (word_of_int timeout) w) (\<lambda>(r, w).
         case r of Returned ret \<Rightarrow> timedjoin_waited fiber want ret w | Suspended k \<Rightarrow> Inr (None, Suspended (TJ_wait k), w))
       else timedjoin_end fiber want w))"

definition melon_fiber_timedjoin :: "ptr \<Rightarrow> bool \<Rightarrow> int \<Rightarrow> world \<Rightarrow> timedjoin_res" where
  "melon_fiber_timedjoin fiber want timeout w =
    assert_that (fiber \<noteq> NULL) (
    res_bind (load (fibers w) fiber) (\<lambda>f.
    res_bind (melon_mutex_timedlock (f_join_mutex f) (word_of_int timeout) w) (\<lambda>(r, w).
    case r of Returned ret \<Rightarrow> timedjoin_locked fiber want timeout ret w | Suspended k \<Rightarrow> Inr (None, Suspended (TJ_lock k), w))))"

definition melon_fiber_timedjoin_resume :: "timedjoin_k \<Rightarrow> ptr \<Rightarrow> bool \<Rightarrow> int \<Rightarrow> world \<Rightarrow> timedjoin_res" where
  "melon_fiber_timedjoin_resume k fiber want timeout w =
    (case k of
       TJ_lock k \<Rightarrow> res_bind (melon_mutex_timedlock_resume k w) (\<lambda>(ret, w). timedjoin_locked fiber want timeout ret w)
     | TJ_wait k \<Rightarrow> res_bind (melon_cond_timedwait_resume k w) (\<lambda>(ret, w). timedjoin_waited fiber want ret w))"

definition detach_locked :: "ptr \<Rightarrow> world \<Rightarrow> (unit outcome \<times> world) res" where
  "detach_locked fiber w =
    res_bind (load (fibers w) fiber) (\<lambda>f.
    res_bind
      (if f_join_is_finished f = 0 then mod_fiber fiber (\<lambda>f. f\<lparr>f_join_is_detached := 1\<rparr>) w
       else res_bind (melon_cond_broadcast (f_join_cond f) w) (\<lambda>(_, w). Inr w)) (\<lambda>w.
    res_bind (melon_mutex_unlock (f_join_mutex f) w) (\<lambda>w.
    Inr (Returned 0, w))))"

definition melon_fiber_detach :: "ptr \<Rightarrow> world \<Rightarrow> (unit outcome \<times> world) res" where
  "melon_fiber_detach fiber w =
    assert_that (fiber \<noteq> NULL) (
    res_bind (load (fibers w) fiber) (\<lambda>f.
    chain (melon_mutex_lock (f_join_mutex f) w) () (detach_locked fiber)))"

end
