(* ===== verification/Melon_Fiber_Properties.thy ===== *)
theory Melon_Fiber_Properties
  imports Melon_Monitor Melon_Fiber
begin

text \<open>
  The properties of fibers (\<^verbatim>\<open>src/fiber.c\<close>): creation, and joining a finished fiber.
\<close>

section \<open>New objects\<close>

lemma queue_at_frame:
  assumes "queue_at c F l xs" and "\<And>y. y \<in> set xs \<Longrightarrow> F' y = F y"
  shows "queue_at c F' l xs"
  using assms by (auto simp: queue_at_def slist_def dlist_def next_map_def prev_map_def split: if_splits)

lemma trep_frame:
  assumes "trep F l ts" and "\<And>y. y \<in> set ts \<Longrightarrow> F' y = F y"
  shows "trep F' l ts"
proof -
  have "map (timer_of F') ts = map (timer_of F) ts" using assms(2) by (auto simp: timer_of_def)
  with assms show ?thesis by (auto simp: trep_def dlist_def next_map_def prev_map_def simp del: map_eq_conv)
qed

lemma rep_new_fiber:
  assumes r: "rep w s" and x: "fibers w x = None" "x \<noteq> NULL" and f: "f_next f = NULL"
  shows "rep (w\<lparr>fibers := (fibers w)(x \<mapsto> f)\<rparr>) (sp_lift (\<lambda>w. w\<lparr>fibers := (fibers w)(x \<mapsto> core f)\<rparr>) s)"
proof -
  let ?w = "w\<lparr>fibers := (fibers w)(x \<mapsto> f)\<rparr>"
  have h: "qhead ?w q = qhead w q" for q by (cases q) auto
  have q: "qrep (fibers w) (qhead w) (sp_queues s)" "trep (fibers w) (g_timer_queue (g_melon w)) (sp_timers s)"
    using r by (simp_all add: rep_def wrep_def)
  have nq: "y \<noteq> x" if "y \<in> set (sp_queues s c)" for y c using qrep_member [OF q(1) that] x by auto
  have dl: "dlist timer_link (fibers w) (g_timer_queue (g_melon w)) (sp_timers s)" using q(2) by (simp add: trep_def)
  have nt: "y \<noteq> x" if y: "y \<in> set (sp_timers s)" for y using dlist_node [OF dl y] x(1) by (metis option.distinct(1))
  have "queue_at c (fibers ?w) (qhead w c) (sp_queues s c)" for c
    by (rule queue_at_frame [of c "fibers w"]) (use q(1) nq [of _ c] in \<open>auto simp: qrep_def\<close>)
  then have "qrep (fibers ?w) (qhead w) (sp_queues s)" using q(1) by (simp add: qrep_def)
  moreover have "trep (fibers ?w) (g_timer_queue (g_melon w)) (sp_timers s)"
    by (rule trep_frame [OF q(2)]) (use nt in auto)
  moreover have "qhead ?w = qhead w" using h by blast
  ultimately show ?thesis using r x f by (auto simp: rep_def wrep_def sp_lift_def erase_def cores_upd)
qed

lemma rep_new_mutex:
  assumes r: "rep w s" and m: "mutexes w m = None" and x: "m_lock_queue x = NULL"
  shows "rep (w\<lparr>mutexes := (mutexes w)(m \<mapsto> x)\<rparr>) (sp_lift (\<lambda>w. w\<lparr>mutexes := (mutexes w)(m \<mapsto> x)\<rparr>) s)"
proof -
  have "qhead (w\<lparr>mutexes := (mutexes w)(m \<mapsto> x)\<rparr>) q = qhead w q" for q using m x by (cases q) auto
  then have "qhead (w\<lparr>mutexes := (mutexes w)(m \<mapsto> x)\<rparr>) = qhead w" by blast
  moreover have "bare_mutex x = x" using x by (simp add: bare_mutex_def)
  ultimately show ?thesis using r by (simp add: rep_def wrep_def sp_lift_def erase_def bare_upd)
qed

lemma rep_new_cond:
  assumes r: "rep w s" and c: "conds w c = None" and x: "c_wait_queue x = NULL"
  shows "rep (w\<lparr>conds := (conds w)(c \<mapsto> x)\<rparr>) (sp_lift (\<lambda>w. w\<lparr>conds := (conds w)(c \<mapsto> x)\<rparr>) s)"
proof -
  have "qhead (w\<lparr>conds := (conds w)(c \<mapsto> x)\<rparr>) q = qhead w q" for q using c x by (cases q) auto
  then have "qhead (w\<lparr>conds := (conds w)(c \<mapsto> x)\<rparr>) = qhead w" by blast
  moreover have "bare_cond x = x" using x by (simp add: bare_cond_def)
  ultimately show ?thesis using r by (simp add: rep_def wrep_def sp_lift_def erase_def bare_upd)
qed

section \<open>Creation that fails\<close>

text \<open>The calls return new memory, and \<^verbatim>\<open>getcontext\<close> succeeds.\<close>

definition fresh_env :: "fiber_env \<Rightarrow> world \<Rightarrow> bool" where
  "fresh_env env w \<longleftrightarrow> fibers w (fe_fiber env) = None \<and> mutexes w (fe_mutex env) = None \<and> conds w (fe_cond env) = None \<and> fe_getcontext env = 0"

definition no_stack :: "fiber_env \<Rightarrow> world \<Rightarrow> bool" where
  "no_stack env w \<longleftrightarrow> g_stack_list (stacks w) = NULL \<and> fe_mmap env = None"

lemma no_stack_alloc:
  assumes "no_stack env w" and "g_stack_list_lock (stacks w) = 0"
  shows "melon_stack_alloc (fe_mmap env) (stacks w) = Inr (NULL, stacks w)"
  using assms by (simp add: melon_stack_alloc_def no_stack_def melon_spin_unlock_def Let_def)

lemma fun_upd_undo: "h p = None \<Longrightarrow> h(p := None) = h"
  by (simp add: fun_upd_idem)

lemmas start_failure_defs = start_failure_mutex_def start_failure_cond_def start_failure_stack_def melon_mutex_init_def
  melon_cond_init_def melon_mutex_destroy_def melon_cond_destroy_def mutex_spin_lock_def cond_spin_lock_def mod_fiber_def
  new_mutex_def new_cond_def melon_spin_init_def fiber_fields_def

lemma fiber_start_fails:
  assumes fct: "fct \<noteq> NULL" and env: "fresh_env env w" and l: "g_stack_list_lock (stacks w) = 0"
    and bad: "fe_fiber env = NULL \<or> joinable \<and> (fe_mutex env = NULL \<or> fe_cond env = NULL) \<or> no_stack env w"
  shows "melon_fiber_start env attr fct ctx joinable w = Inr (NULL, w)"
proof -
  consider (fiber) "fe_fiber env = NULL"
    | (mutex) "fe_fiber env \<noteq> NULL" "joinable" "fe_mutex env = NULL"
    | (cond) "fe_fiber env \<noteq> NULL" "joinable" "fe_mutex env \<noteq> NULL" "fe_cond env = NULL"
    | (stack) "fe_fiber env \<noteq> NULL" "joinable \<longrightarrow> fe_mutex env \<noteq> NULL \<and> fe_cond env \<noteq> NULL" "no_stack env w"
    using bad by blast
  then show ?thesis
  proof cases
    case fiber
    with fct show ?thesis by (simp add: melon_fiber_start_def)
  next
    case mutex
    with fct env show ?thesis by (simp add: melon_fiber_start_def start_failure_defs fresh_env_def fun_upd_undo Let_def)
  next
    case cond
    with fct env show ?thesis by (simp add: melon_fiber_start_def start_failure_defs fresh_env_def fun_upd_undo Let_def)
  next
    case stack
    have "melon_stack_alloc (fe_mmap env) (stacks w) = Inr (NULL, stacks w)" by (rule no_stack_alloc [OF stack(3) l])
    with stack fct env show ?thesis
      by (cases joinable) (simp_all add: melon_fiber_start_def start_stack_def start_failure_defs fresh_env_def fun_upd_undo Let_def)
  qed
qed

section \<open>Creation that succeeds\<close>

lemma stack_taken:
  assumes inv: "stack_inv st xs used" and a: "\<And>a. mmap = Some a \<Longrightarrow> a \<noteq> NULL \<and> a \<notin> used"
    and ok: "\<not> (g_stack_list st = NULL \<and> mmap = None)"
  obtains sp st' ys where "melon_stack_alloc mmap st = Inr (sp, st')" and "sp \<noteq> NULL" and "sp \<notin> used" and "stack_inv st' ys (insert sp used)"
proof (cases xs)
  case Nil
  then have "g_stack_list st = NULL" using inv by (simp add: stack_inv_def)
  then obtain b where b: "mmap = Some b" using ok by (cases mmap) auto
  then show thesis using stack_alloc_fresh [of st used b] inv a [OF b] Nil that by auto
next
  case (Cons x ys)
  have "x \<noteq> NULL" "x \<notin> used" using inv Cons by (auto simp: stack_inv_def slist_def)
  then show thesis using stack_alloc_cached [of st x ys used mmap] inv Cons that by blast
qed

definition counted :: "int \<Rightarrow> world \<Rightarrow> world" where
  "counted n = mod_melon (\<lambda>g. g\<lparr>g_fibers_count := n\<rparr>)"

lemma rep_counted: "rep w s \<Longrightarrow> rep (counted n w) (sp_lift (counted n) s)"
  using rep_melon_upd [of w s "(g_melon w)\<lparr>g_fibers_count := n\<rparr>"]
  by (simp add: counted_def sp_lift_def mod_melon_def bare_melon_def rep_def erase_def)

definition sp_started :: "fiber_env \<Rightarrow> ptr \<Rightarrow> stack_alloc \<Rightarrow> int \<Rightarrow> spec \<Rightarrow> spec" where
  "sp_started env sp st n s = sp_ready (fe_fiber env) (sp_lift (counted n) (sp_mod_fiber (fe_fiber env)
     (\<lambda>f. f\<lparr>f_uc_link := NULL, f_ss_size := melon_stack_size (fe_sigstksz env), f_ss_sp := sp\<rparr>) (sp_lift (\<lambda>w. w\<lparr>stacks := st\<rparr>) s)))"

lemma start_stack_refines:
  assumes r: "rep w s" and x: "idle s (fe_fiber env)" and c: "fe_getcontext env = 0"
    and st: "melon_stack_alloc (fe_mmap env) (stacks w) = Inr (sp, st)" "sp \<noteq> NULL" and n: "g_fibers_count (g_melon w) < INT_MAX"
  obtains w' where "start_stack env w = Inr (fe_fiber env, w')" and "rep w' (sp_started env sp st (g_fibers_count (g_melon w) + 1) s)"
proof -
  let ?g = "\<lambda>f :: melon_fiber. f\<lparr>f_uc_link := NULL, f_ss_size := melon_stack_size (fe_sigstksz env), f_ss_sp := sp\<rparr>"
  let ?s = "sp_mod_fiber (fe_fiber env) ?g (sp_lift (\<lambda>w. w\<lparr>stacks := st\<rparr>) s)" and ?n = "g_fibers_count (g_melon w) + 1"
  have r1: "rep (w\<lparr>stacks := st\<rparr>) (sp_lift (\<lambda>w. w\<lparr>stacks := st\<rparr>) s)" using rep_other_upd(6) [OF r] by (simp add: sp_lift_def)
  have "wp (mod_fiber (fe_fiber env) ?g (w\<lparr>stacks := st\<rparr>)) (\<lambda>w'. rep w' ?s \<and> g_melon w' = g_melon w)"
  proof -
    obtain f where f: "fibers w (fe_fiber env) = Some f" using rep_fiberE [OF r] x by (fastforce simp: idle_def)
    then show ?thesis using wp_mod_fiber [OF r1, of "fe_fiber env" ?g "\<lambda>w'. rep w' ?s"] x
      by (auto simp: mod_fiber_def core_def idle_def sp_lift_def)
  qed
  then obtain w1 where w1: "mod_fiber (fe_fiber env) ?g (w\<lparr>stacks := st\<rparr>) = Inr w1" "rep w1 ?s" "g_melon w1 = g_melon w" by (auto simp: wp_def)
  have "idle (sp_lift (counted ?n) ?s) (fe_fiber env)" using x by (simp add: idle_def sp_lift_def counted_def mod_melon_def)
  then obtain w' where w': "melon_sched_ready (fe_fiber env) (counted ?n w1) = Inr w'" "rep w' (sp_started env sp st ?n s)"
    using wp_sched_ready [OF rep_counted [OF w1(2)], of ?n "fe_fiber env" "\<lambda>w'. rep w' (sp_started env sp st ?n s)"]
    by (auto simp: wp_def sp_started_def)
  show thesis by (rule that [OF _ w'(2)]) (use c st w1 w'(1) n in \<open>simp add: start_stack_def int_inc_def counted_def\<close>)
qed

definition sp_created :: "fiber_env \<Rightarrow> melon_fiberattr option \<Rightarrow> ptr \<Rightarrow> ptr \<Rightarrow> bool \<Rightarrow> spec \<Rightarrow> spec" where
  "sp_created env attr fct ctx joinable s =
    (let s = sp_lift (\<lambda>w. w\<lparr>fibers := (fibers w)(fe_fiber env \<mapsto> core (fiber_fields (fe_mem env) attr fct ctx))\<rparr>) s in
     if joinable
     then sp_mod_fiber (fe_fiber env) (\<lambda>f. f\<lparr>f_join_cond := fe_cond env\<rparr>) (sp_lift (\<lambda>w. w\<lparr>conds := (conds w)(fe_cond env \<mapsto> new_cond)\<rparr>)
       (sp_mod_fiber (fe_fiber env) (\<lambda>f. f\<lparr>f_join_mutex := fe_mutex env\<rparr>) (sp_lift (\<lambda>w. w\<lparr>mutexes := (mutexes w)(fe_mutex env \<mapsto> new_mutex 0)\<rparr>) s)))
     else s)"

lemma fiber_start_runs:
  assumes r: "rep w s" and fct: "fct \<noteq> NULL" and env: "fresh_env env w"
    and ok: "fe_fiber env \<noteq> NULL" "joinable \<longrightarrow> fe_mutex env \<noteq> NULL \<and> fe_cond env \<noteq> NULL"
  obtains w1 where "melon_fiber_start env attr fct ctx joinable w = start_stack env w1" and "rep w1 (sp_created env attr fct ctx joinable s)"
    and "stacks w1 = stacks w" and "g_melon w1 = g_melon w"
proof -
  let ?x = "fe_fiber env" and ?f = "fiber_fields (fe_mem env) attr fct ctx"
  let ?w = "w\<lparr>fibers := (fibers w)(?x \<mapsto> ?f)\<rparr>" and ?s = "sp_lift (\<lambda>w. w\<lparr>fibers := (fibers w)(?x \<mapsto> core ?f)\<rparr>) s"
  have r0: "rep ?w ?s" by (rule rep_new_fiber [OF r]) (use env ok in \<open>simp_all add: fresh_env_def fiber_fields_def\<close>)
  show thesis
  proof (cases joinable)
    case False
    with r0 fct ok show thesis by (intro that [of ?w]) (simp_all add: melon_fiber_start_def sp_created_def Let_def)
  next
    case True
    let ?m = "fe_mutex env" and ?c = "fe_cond env"
    let ?w1 = "?w\<lparr>mutexes := (mutexes w)(?m \<mapsto> new_mutex 0)\<rparr>" and ?s1 = "sp_lift (\<lambda>w. w\<lparr>mutexes := (mutexes w)(?m \<mapsto> new_mutex 0)\<rparr>) ?s"
    have r1: "rep ?w1 ?s1" using rep_new_mutex [OF r0, of ?m "new_mutex 0"] env by (simp add: fresh_env_def new_mutex_def)
    let ?w2 = "?w1\<lparr>fibers := (fibers w)(?x \<mapsto> ?f\<lparr>f_join_mutex := ?m\<rparr>)\<rparr>" and ?s2 = "sp_mod_fiber ?x (\<lambda>f. f\<lparr>f_join_mutex := ?m\<rparr>) ?s1"
    have r2: "rep ?w2 ?s2" using rep_mod_fiber [OF r1, of ?x ?f "\<lambda>f. f\<lparr>f_join_mutex := ?m\<rparr>"] by (simp add: core_def)
    let ?w3 = "?w2\<lparr>conds := (conds w)(?c \<mapsto> new_cond)\<rparr>" and ?s3 = "sp_lift (\<lambda>w. w\<lparr>conds := (conds w)(?c \<mapsto> new_cond)\<rparr>) ?s2"
    have r3: "rep ?w3 ?s3" using rep_new_cond [OF r2, of ?c new_cond] env by (simp add: fresh_env_def new_cond_def)
    let ?w4 = "?w3\<lparr>fibers := (fibers w)(?x \<mapsto> ?f\<lparr>f_join_mutex := ?m, f_join_cond := ?c\<rparr>)\<rparr>" and ?s4 = "sp_mod_fiber ?x (\<lambda>f. f\<lparr>f_join_cond := ?c\<rparr>) ?s3"
    have r4: "rep ?w4 ?s4" using rep_mod_fiber [OF r3, of ?x "?f\<lparr>f_join_mutex := ?m\<rparr>" "\<lambda>f. f\<lparr>f_join_cond := ?c\<rparr>"] by (simp add: core_def)
    show thesis
      by (rule that [of ?w4]) (use True r4 fct ok in \<open>simp_all add: melon_fiber_start_def melon_mutex_init_def melon_cond_init_def mod_fiber_def sp_created_def Let_def\<close>)
  qed
qed

section \<open>What joining looks at\<close>

definition join_of :: "melon_fiber \<Rightarrow> ptr \<times> ptr \<times> ptr \<times> int \<times> int" where
  "join_of f = (f_join_retval f, f_join_mutex f, f_join_cond f, f_join_is_finished f, f_join_is_detached f)"

lemma join_of_core [simp]: "join_of (core f) = join_of f"
  by (simp add: join_of_def)

lemma join_of_upd [simp]:
  "join_of (f\<lparr>f_timer := t\<rparr>) = join_of f" "join_of (f\<lparr>f_waited_event := e\<rparr>) = join_of f" "join_of (f\<lparr>f_lock_count := n\<rparr>) = join_of f"
  by (simp_all add: join_of_def)

lemma join_wake: "map_option join_of (sp_fiber (sp_wake x s) y) = map_option join_of (sp_fiber s y)"
  by (auto simp: sp_wake_def sp_lock2_def Let_def option.map_comp o_def)

lemma join_wake_all: "map_option join_of (sp_fiber (sp_wake_all q xs s) y) = map_option join_of (sp_fiber s y)"
  by (induction xs arbitrary: s) (simp_all add: join_wake)

lemma join_kept:
  "map_option join_of (sp_fiber (sp_broadcast c s) y) = map_option join_of (sp_fiber s y)"
  "monitor s m \<Longrightarrow> map_option join_of (sp_fiber (sp_unlock m s) y) = map_option join_of (sp_fiber s y)"
  "monitor s m \<Longrightarrow> owner s m = NULL \<Longrightarrow> map_option join_of (sp_fiber (snd (sp_lock m s)) y) = map_option join_of (sp_fiber s y)"
proof -
  show "map_option join_of (sp_fiber (sp_broadcast c s) y) = map_option join_of (sp_fiber s y)" by (simp add: sp_broadcast_def join_wake_all)
  show "monitor s m \<Longrightarrow> map_option join_of (sp_fiber (sp_unlock m s) y) = map_option join_of (sp_fiber s y)"
    by (auto simp: sp_unlock_held Let_def option.map_comp o_def split: list.splits)
  show "monitor s m \<Longrightarrow> owner s m = NULL \<Longrightarrow> map_option join_of (sp_fiber (snd (sp_lock m s)) y) = map_option join_of (sp_fiber s y)"
    by (simp add: sp_lock_free option.map_comp o_def)
qed

lemma join_load:
  assumes "rep w s" and "map_option join_of (sp_fiber s x) = Some (r, m, c, fin, det)"
  obtains f where "fibers w x = Some f" and "f_join_retval f = r" and "f_join_mutex f = m" and "f_join_cond f = c"
    and "f_join_is_finished f = fin" and "f_join_is_detached f = det"
proof -
  obtain g where g: "sp_fiber s x = Some g" "join_of g = (r, m, c, fin, det)" using assms(2) by auto
  obtain f where "fibers w x = Some f" "g = core f" using rep_fiberE [OF assms(1) g(1)] .
  then show thesis using g(2) that by (simp add: join_of_def)
qed

text \<open>The fiber \<open>x\<close> can be joined: its mutex is free and the fibers of its condition wait with it.\<close>

definition joinable_fiber :: "spec \<Rightarrow> ptr \<Rightarrow> ptr \<Rightarrow> ptr \<Rightarrow> ptr \<Rightarrow> int \<Rightarrow> int \<Rightarrow> bool" where
  "joinable_fiber s x r m c fin det \<longleftrightarrow> x \<noteq> NULL \<and> map_option join_of (sp_fiber s x) = Some (r, m, c, fin, det) \<and>
     monitor s m \<and> owner s m = NULL \<and> room s m c \<and> runs s"

lemma join_finished_refines:
  assumes r: "rep w s" and x: "joinable_fiber s x ret m c fin det" "fin \<noteq> 0" and q: "sp_queues s (Q_lock m) = []"
  obtains w' s' where "melon_fiber_join x want w = Inr (if want then Some ret else None, Returned 0, w')" and "rep w' s'"
    and "monitor s' m" and "sp_queues s' = (sp_queues s)(Q_wait c := [], Q_lock m := tl (sp_queues s (Q_wait c)),
      Q_ready := sp_queues s Q_ready @ take 1 (sp_queues s (Q_wait c)))"
proof -
  note j = x(1) [unfolded joinable_fiber_def]
  let ?s1 = "snd (sp_lock m s)" let ?s2 = "sp_broadcast c ?s1" let ?s3 = "sp_unlock m ?s2"
  have k: "monitor s m" "owner s m = NULL" "runs s" using j by auto
  obtain w1 where w1: "melon_mutex_lock m w = Inr (Returned 0, w1)" "rep w1 ?s1" using lock_free [OF r k] by (auto simp: wp_yields)
  note l = monitor_lock_free [OF k]
  have c1: "room ?s1 m c" using l(4) j by simp
  obtain n w2 w3 where w3: "melon_cond_broadcast c w1 = Inr (n, w2)" "rep w2 ?s2" "melon_mutex_unlock m w2 = Inr w3" "rep w3 ?s3" "monitor ?s3 m"
    "sp_queues ?s3 = (let xs = sp_queues ?s1 (Q_lock m) @ sp_queues ?s1 (Q_wait c) in
      (sp_queues ?s1)(Q_wait c := [], Q_lock m := tl xs, Q_ready := sp_queues ?s1 Q_ready @ take 1 xs))"
    by (rule broadcast_unlock [OF w1(2) l(1-3) c1])
  have j0: "map_option join_of (sp_fiber s x) = Some (ret, m, c, fin, det)" using j by blast
  have j1: "map_option join_of (sp_fiber ?s1 x) = Some (ret, m, c, fin, det)" using join_kept(3) [OF k(1,2)] j0 by simp
  have j2: "map_option join_of (sp_fiber ?s2 x) = Some (ret, m, c, fin, det)" using join_kept(1) j1 by simp
  obtain f0 where f0: "fibers w x = Some f0" "f_join_mutex f0 = m" by (rule join_load [OF r j0])
  obtain f1 where f1: "fibers w1 x = Some f1" "f_join_cond f1 = c" "f_join_is_finished f1 = fin" by (rule join_load [OF w1(2) j1])
  obtain f2 where f2: "fibers w2 x = Some f2" "f_join_retval f2 = ret" "f_join_mutex f2 = m" by (rule join_load [OF w3(2) j2])
  show thesis
  proof (rule that [OF _ w3(4,5)])
    show "melon_fiber_join x want w = Inr (if want then Some ret else None, Returned 0, w3)"
      using j f0 f1 f2 w1(1) w3(1,3) x(2) by (simp add: melon_fiber_join_def join_locked_def join_end_def)
  qed (use w3(6) l(5) q in \<open>simp add: Let_def\<close>)
qed

section \<open>A start that succeeds\<close>

lemma fiber_start_succeeds:
  assumes r: "rep w s" and fct: "fct \<noteq> NULL" and env: "fresh_env env w" and st: "stack_inv (stacks w) xs used"
    and a: "\<And>a. fe_mmap env = Some a \<Longrightarrow> a \<noteq> NULL \<and> a \<notin> used" and n: "g_fibers_count (g_melon w) < INT_MAX"
    and ok: "\<not> (fe_fiber env = NULL \<or> joinable \<and> (fe_mutex env = NULL \<or> fe_cond env = NULL) \<or> no_stack env w)"
  obtains w' s' f ys where "melon_fiber_start env attr fct ctx joinable w = Inr (fe_fiber env, w')" and "rep w' s'"
    and "sp_queues s' = (sp_queues s)(Q_ready := sp_queues s Q_ready @ [fe_fiber env])"
    and "g_fibers_count (g_melon (sp_world s')) = g_fibers_count (g_melon w) + 1"
    and "sp_fiber s' = (sp_fiber s)(fe_fiber env \<mapsto> f)" and "f_start_cb f = fct" and "f_start_ctx f = ctx"
    and "f_join_mutex f = (if joinable then fe_mutex env else NULL)" and "f_ss_sp f \<notin> used"
    and "stack_inv (stacks (sp_world s')) ys (insert (f_ss_sp f) used)"
    and "f_lock f = 0" "f_sched_next_cb f = Sched_cb_none" "f_uc_link f = NULL"
    and "sp_timers s' = sp_timers s" and "g_stop (g_melon (sp_world s')) = g_stop (g_melon (sp_world s))"
    and "g_threads_nb (g_melon (sp_world s')) = g_threads_nb (g_melon (sp_world s))"
    and "sp_self s' = sp_self s" and "g_io (g_melon (sp_world s')) = g_io (g_melon (sp_world s))"
proof -
  let ?x = "fe_fiber env" and ?s = "sp_created env attr fct ctx joinable s"
  have ok': "?x \<noteq> NULL" "joinable \<longrightarrow> fe_mutex env \<noteq> NULL \<and> fe_cond env \<noteq> NULL" using ok by auto
  obtain w1 where w1: "melon_fiber_start env attr fct ctx joinable w = start_stack env w1" "rep w1 ?s" "stacks w1 = stacks w" "g_melon w1 = g_melon w"
    by (rule fiber_start_runs [OF r fct env ok'])
  obtain sp st' ys where sp: "melon_stack_alloc (fe_mmap env) (stacks w) = Inr (sp, st')" "sp \<noteq> NULL" "sp \<notin> used" "stack_inv st' ys (insert sp used)"
    by (rule stack_taken [OF st a]) (use ok in \<open>auto simp: no_stack_def\<close>)
  have "?x \<notin> set (sp_queues s q)" for q using rep_member [OF r, of ?x q] env r by (auto simp: fresh_env_def rep_def erase_def cores_def)
  then have i: "idle ?s ?x" using ok by (auto simp: idle_def sp_created_def sp_lift_def Let_def)
  let ?s' = "sp_started env sp st' (g_fibers_count (g_melon w) + 1) ?s"
  obtain w' where w': "start_stack env w1 = Inr (?x, w')" "rep w' ?s'"
    using start_stack_refines [OF w1(2) i, of sp st'] env sp w1(3,4) n by (metis fresh_env_def)
  obtain f where f: "sp_fiber ?s' = (sp_fiber s)(?x \<mapsto> f)" "f_start_cb f = fct" "f_start_ctx f = ctx" "f_join_mutex f = (if joinable then fe_mutex env else NULL)" "f_ss_sp f = sp"
    "f_lock f = 0" "f_sched_next_cb f = Sched_cb_none" "f_uc_link f = NULL"
    by (cases joinable) (simp_all add: sp_started_def sp_created_def sp_lift_def Let_def counted_def mod_melon_def core_def fiber_fields_def melon_spin_init_def)
  have q: "sp_queues ?s' = (sp_queues s)(Q_ready := sp_queues s Q_ready @ [?x])" "sp_timers ?s' = sp_timers s"
    by (simp_all add: sp_started_def sp_created_def Let_def)
  have g: "g_fibers_count (g_melon (sp_world ?s')) = g_fibers_count (g_melon w) + 1" "stacks (sp_world ?s') = st'"
    "g_stop (g_melon (sp_world ?s')) = g_stop (g_melon (sp_world s))" "g_threads_nb (g_melon (sp_world ?s')) = g_threads_nb (g_melon (sp_world s))"
    "sp_self ?s' = sp_self s" "g_io (g_melon (sp_world ?s')) = g_io (g_melon (sp_world s))"
    by (simp_all add: sp_started_def sp_created_def sp_ready_def sp_defs counted_def Let_def)
  show thesis by (rule that [OF _ w'(2) q(1) g(1) f(1-4) _ _ f(6-8) q(2) g(3-6)]) (use w1(1) w'(1) f(5) sp(3,4) g(2) in simp_all)
qed

section \<open>Properties\<close>

text \<open>
  C29: \<^verbatim>\<open>__melon_fiber_start\<close> is atomic: when an allocation fails, of the fiber, of
  its mutex or condition, or of its stack, it returns NULL and the state is as before on
  each of the failure paths. Otherwise the new fiber is last in the ready queue with its
  function and argument, one more fiber is counted, and its stack belongs to no other
  fiber.
\<close>

theorem fiber_start_correct:
  assumes r: "rep w s" and fct: "fct \<noteq> NULL" and env: "fresh_env env w" and st: "stack_inv (stacks w) xs used"
    and a: "\<And>a. fe_mmap env = Some a \<Longrightarrow> a \<noteq> NULL \<and> a \<notin> used" and n: "g_fibers_count (g_melon w) < INT_MAX"
  shows "if fe_fiber env = NULL \<or> joinable \<and> (fe_mutex env = NULL \<or> fe_cond env = NULL) \<or> no_stack env w
    then melon_fiber_start env attr fct ctx joinable w = Inr (NULL, w)
    else \<exists>w' s' f ys. melon_fiber_start env attr fct ctx joinable w = Inr (fe_fiber env, w') \<and> rep w' s' \<and>
      sp_queues s' = (sp_queues s)(Q_ready := sp_queues s Q_ready @ [fe_fiber env]) \<and>
      g_fibers_count (g_melon (sp_world s')) = g_fibers_count (g_melon w) + 1 \<and>
      sp_fiber s' (fe_fiber env) = Some f \<and> f_start_cb f = fct \<and> f_start_ctx f = ctx \<and>
      f_join_mutex f = (if joinable then fe_mutex env else NULL) \<and> f_ss_sp f \<notin> used \<and>
      stack_inv (stacks (sp_world s')) ys (insert (f_ss_sp f) used)"
proof (cases "fe_fiber env = NULL \<or> joinable \<and> (fe_mutex env = NULL \<or> fe_cond env = NULL) \<or> no_stack env w")
  case True
  then show ?thesis using fiber_start_fails [OF fct env _ True] st by (simp add: stack_inv_def)
next
  case False
  show ?thesis unfolding if_not_P [OF False]
    by (rule fiber_start_succeeds [OF r fct env st a n False, of attr ctx]) (blast, metis fun_upd_same)
qed

definition ex_fiber_env :: fiber_env where
  "ex_fiber_env = \<lparr>fe_fiber = 4, fe_mem = a_fiber, fe_mutex = 12, fe_cond = 22, fe_getcontext = 0, fe_mmap = Some 100, fe_sigstksz = 8192\<rparr>"

theorem fiber_start_correct_witness:
  "\<exists>w' s'. melon_fiber_start ex_fiber_env None 1 0 True ex_world = Inr (4, w') \<and> rep w' s' \<and> sp_queues s' Q_ready = [4]"
proof -
  have i: "stack_inv (stacks ex_world) [] {}" by (simp add: stack_inv_def ex_world_def)
  have e: "fresh_env ex_fiber_env ex_world" by (simp add: fresh_env_def ex_fiber_env_def ex_world_def)
  have n: "g_fibers_count (g_melon ex_world) < INT_MAX" by (simp add: ex_world_def INT_MAX_def)
  have "\<not> no_stack ex_fiber_env ex_world" by (simp add: no_stack_def ex_fiber_env_def)
  then obtain w' s' where "melon_fiber_start ex_fiber_env None 1 0 True ex_world = Inr (fe_fiber ex_fiber_env, w')" "rep w' s'"
    "sp_queues s' = (sp_queues (abs0 ex_world))(Q_ready := sp_queues (abs0 ex_world) Q_ready @ [fe_fiber ex_fiber_env])"
    using fiber_start_correct [OF rep_abs0 [OF quiet_ex_world] _ e i _ n, of 1 True None 0]
    by (auto simp: ex_fiber_env_def NULL_def)
  then show ?thesis by (auto simp: ex_fiber_env_def)
qed

text \<open>
  C31: Joining a fiber that has finished returns its result and lets it go: the fibers
  that wait on its condition, the finished fiber itself first among them, are woken in
  order, and the first has the mutex and is ready to run to its end.
\<close>

theorem fiber_join_finished:
  assumes "rep w s" and "joinable_fiber s x ret m c fin det" and "fin \<noteq> 0" and "sp_queues s (Q_lock m) = []"
  shows "\<exists>w' s'. melon_fiber_join x want w = Inr (if want then Some ret else None, Returned 0, w') \<and> rep w' s' \<and> monitor s' m \<and>
    sp_queues s' = (sp_queues s)(Q_wait c := [], Q_lock m := tl (sp_queues s (Q_wait c)),
      Q_ready := sp_queues s Q_ready @ take 1 (sp_queues s (Q_wait c)))"
  by (rule join_finished_refines [OF assms, of want]) blast

definition finished :: "melon_fiber \<Rightarrow> melon_fiber" where
  "finished f = f\<lparr>f_join_retval := 77, f_join_mutex := 10, f_join_cond := 20, f_join_is_finished := 1\<rparr>"

text \<open>Fiber 1 has finished and waits on its condition 20, with its mutex 10; fiber 3 runs.\<close>

definition ex_finished :: spec where
  "ex_finished = sp_mod_fiber 1 finished (sp_current 3 ex_both)"

lemma rep_finished:
  assumes "rep w s" and "sp_fiber s 1 \<noteq> None"
  shows "\<exists>w'. rep w' (sp_mod_fiber 1 finished s)"
proof -
  have "wp (mod_fiber 1 finished w) (\<lambda>w'. rep w' (sp_mod_fiber 1 finished s))"
    by (rule wp_mod_fiber [OF assms]) (simp_all add: finished_def core_def)
  then show ?thesis by (auto simp: wp_def)
qed

lemma ex_finished_ready: "joinable_fiber ex_finished 1 77 10 20 1 0"
proof -
  have "mutexes_ok ex_finished" using ex_both_ok by (simp add: ex_finished_def mutexes_ok_def)
  then show ?thesis using ex_both_ok(2)
    by (simp add: joinable_fiber_def ex_finished_def join_of_def finished_def a_fiber_def monitor_def lockers_timed_def owner_def room_def waits_with_def runs_def idle_def timed_def)
qed

theorem fiber_join_finished_witness:
  "\<exists>w w' s'. rep w ex_finished \<and> melon_fiber_join 1 True w = Inr (Some 77, Returned 0, w') \<and> rep w' s' \<and> sp_queues s' Q_ready = [1]"
proof -
  obtain v where "rep v (sp_current 3 ex_both)" using rep_ex_both rep_current_upd by blast
  then obtain w where w: "rep w ex_finished" using rep_finished by (fastforce simp: ex_finished_def)
  have "sp_queues ex_finished (Q_lock 10) = []" by (simp add: ex_finished_def)
  with fiber_join_finished [OF w ex_finished_ready, of True] obtain w' s' where "melon_fiber_join 1 True w = Inr (Some 77, Returned 0, w')" "rep w' s'"
    and "sp_queues s' Q_ready = sp_queues ex_finished Q_ready @ take 1 (sp_queues ex_finished (Q_wait 20))" by auto
  then show ?thesis using w by (auto simp: ex_finished_def)
qed

text \<open>
  C39: A fiber that joined before the other one had finished only returns the result when
  it is woken: it does not touch the condition. The finished fiber, which waits there to
  be joined, stays there.
\<close>

theorem fiber_join_waited_leaves:
  assumes r: "rep w s" and x: "map_option join_of (sp_fiber s x) = Some (ret, m, c, fin, det)"
    and m: "monitor s m" "held s m" "runs s"
  shows "\<exists>w' s'. melon_fiber_join_resume J_wait x want w = Inr (if want then Some ret else None, Returned 0, w') \<and> rep w' s' \<and>
    monitor s' m \<and> sp_queues s' (Q_wait c) = sp_queues s (Q_wait c)"
proof -
  obtain w' where w': "melon_mutex_unlock m w = Inr w'" "rep w' (sp_unlock m s)" using unlock_held [OF r m] by (auto simp: wp_def)
  obtain f where f: "fibers w x = Some f" "f_join_retval f = ret" "f_join_mutex f = m" by (rule join_load [OF r x])
  then have "melon_fiber_join_resume J_wait x want w = Inr (if want then Some ret else None, Returned 0, w')"
    using w'(1) by (simp add: melon_fiber_join_resume_def join_end_def)
  then show ?thesis using w'(2) monitor_unlock(1) [OF r m] by auto
qed

text \<open>Fiber 1 has finished and waits to be joined; fiber 2, which waited for it, runs again with the mutex.\<close>

definition ex_joiner :: spec where
  "ex_joiner = sp_mod_fiber 1 finished (sp_current 2 (sp_deq Q_ready ex_waiting))"

lemma ex_joiner_ok: "\<exists>w. rep w ex_joiner" "monitor ex_joiner 10" "held ex_joiner 10" "runs ex_joiner"
proof -
  obtain v where "rep v ex_waiting" using rep_ex_waiting by blast
  then obtain u where "rep u (sp_deq Q_ready ex_waiting)" using rep_ready_pop [of v ex_waiting 2 "[]"] by auto
  then show "\<exists>w. rep w ex_joiner" unfolding ex_joiner_def by (intro rep_finished [OF rep_current_upd]) auto
  have "mutexes_ok ex_joiner" using ex_waiting_ok(1) by (simp add: ex_joiner_def mutexes_ok_def)
  then show "monitor ex_joiner 10" by (simp add: monitor_def ex_joiner_def lockers_timed_def)
  show "held ex_joiner 10" "runs ex_joiner" by (simp_all add: held_def owner_def runs_def idle_def timed_def ex_joiner_def)
qed

theorem fiber_join_waited_leaves_witness:
  "\<exists>w w' s'. rep w ex_joiner \<and> melon_fiber_join_resume J_wait 1 True w = Inr (Some 77, Returned 0, w') \<and> rep w' s' \<and> sp_queues s' (Q_wait 20) = [1]"
proof -
  obtain w where w: "rep w ex_joiner" using ex_joiner_ok(1) ..
  have "map_option join_of (sp_fiber ex_joiner 1) = Some (77, 10, 20, 1, 0)" by (simp add: ex_joiner_def join_of_def finished_def a_fiber_def)
  from fiber_join_waited_leaves [OF w this ex_joiner_ok(2-4), of True] w show ?thesis by (auto simp: ex_joiner_def)
qed

end
