(* ===== verification/Melon_Switch.thy ===== *)
theory Melon_Switch
  imports Melon_Fiber_Properties
begin

text \<open>
  A scheduler thread between two fibers (\<^verbatim>\<open>melon_sched_run\<close> of \<^verbatim>\<open>src/sched.c\<close>): the
  fiber that ran has swapped back, the thread releases it, calls the callback it left and
  takes the next fiber. The lemmas say that this changes nothing that a monitor looks at,
  so that the steps of several fibers on one monitor can be put one after the other.
\<close>

definition melon_sched_run_turn :: "world \<Rightarrow> (sched_outcome \<times> world) res" where
  "melon_sched_run_turn w =
    res_bind (sched_next_back w) (\<lambda>w.
    res_bind (sched_run_callback call_sched_next_cb w) (\<lambda>w.
    if g_stop (g_melon w) \<noteq> 0 then Inr (Sched_stopped, w)
    else sched_next w))"

text \<open>What the thread looks at: the callback of a fiber, its lock, and whether the runtime stops.\<close>

definition thread_of :: "melon_fiber \<Rightarrow> sched_callback \<times> int" where
  "thread_of f = (f_sched_next_cb f, f_lock f)"

definition threads :: "spec \<Rightarrow> ptr \<Rightarrow> (sched_callback \<times> int) option" where
  "threads s x = map_option thread_of (sp_fiber s x)"

abbreviation stopping :: "spec \<Rightarrow> bool" where
  "stopping s \<equiv> g_stop (g_melon (sp_world s)) \<noteq> 0"

text \<open>The fiber \<open>x\<close> runs instead of the current one.\<close>

definition sp_switch :: "ptr \<Rightarrow> spec \<Rightarrow> spec" where
  "sp_switch x s = sp_mod_fiber x (\<lambda>f. f\<lparr>f_lock := 1\<rparr>) (sp_current x (sp_deq Q_ready
     (sp_mod_fiber (sp_self s) (\<lambda>f. f\<lparr>f_lock := 0\<rparr>) s)))"

lemma switch_refines:
  assumes r: "rep w s" and self: "sp_self s \<noteq> NULL" "threads s (sp_self s) = Some (Sched_cb_none, l)"
    and q: "sp_queues s Q_ready = x # xs" "x \<noteq> sp_self s" "threads s x = Some (cb, 0)" and st: "\<not> stopping s"
  obtains w' where "melon_sched_run_turn w = Inr (Sched_runs, w')" and "rep w' (sp_switch x s)"
proof -
  let ?s = "sp_mod_fiber (sp_self s) (\<lambda>f. f\<lparr>f_lock := 0\<rparr>) s"
  obtain g where g: "sp_fiber s (sp_self s) = Some g" "f_sched_next_cb g = Sched_cb_none" using self(2) by (auto simp: threads_def thread_of_def)
  obtain f where "fibers w (sp_self s) = Some f" "g = core f" by (rule rep_fiberE [OF r g(1)])
  with g have f: "fibers w (sp_self s) = Some f" "f_sched_next_cb f = Sched_cb_none" by (simp_all add: core_def)
  let ?w = "w\<lparr>fibers := (fibers w)(sp_self s \<mapsto> f\<lparr>f_lock := 0\<rparr>)\<rparr>"
  have c: "g_current_fiber w = sp_self s" using rep_current [OF r] by simp
  have w1: "rep ?w ?s" using rep_mod_fiber [OF r f(1), of "\<lambda>f. f\<lparr>f_lock := 0\<rparr>"] by (simp add: core_def)
  have stop: "g_stop (g_melon (sp_world s)) = g_stop (g_melon w)" using r by (simp add: rep_def erase_def bare_melon_def)
  have "wp (sched_next ?w) (yields (sp_sched_next ?s))"
    by (rule sched_next_refines [OF w1]) (use q in \<open>auto simp: threads_def thread_of_def\<close>)
  moreover have "sp_sched_next ?s = (Sched_runs, sp_switch x s)"
    using q st by (simp add: sp_sched_next_def sp_switch_def sp_mod_fiber_def)
  ultimately obtain w' where w': "sched_next ?w = Inr (Sched_runs, w')" "rep w' (sp_switch x s)" by (auto simp: wp_yields)
  show thesis
    by (rule that [OF _ w'(2)]) (use w'(1) f c self(1) stop st in \<open>simp add: melon_sched_run_turn_def sched_next_back_def mod_fiber_def sched_run_callback_def\<close>)
qed

section \<open>What a switch keeps\<close>

lemma sp_switch_simps [simp]:
  "sp_self (sp_switch x s) = x" "sp_mutex (sp_switch x s) = sp_mutex s" "sp_cond (sp_switch x s) = sp_cond s"
  "sp_queues (sp_switch x s) = (sp_queues s)(Q_ready := tl (sp_queues s Q_ready))" "sp_timers (sp_switch x s) = sp_timers s"
  "stopping (sp_switch x s) \<longleftrightarrow> stopping s"
  by (simp_all add: sp_switch_def sp_current_def sp_lift_def sp_mod_fiber_def)

lemma switch_fiber:
  "sp_fiber (sp_switch x s) y = map_option (\<lambda>f. if y = x then f\<lparr>f_lock := 1\<rparr> else if y = sp_self s then f\<lparr>f_lock := 0\<rparr> else f) (sp_fiber s y)"
  by (auto simp: sp_switch_def option.map_comp o_def option.map_ident)

lemma switch_keeps [simp]:
  "monitor (sp_switch x s) m \<longleftrightarrow> monitor s m" "room (sp_switch x s) m c \<longleftrightarrow> room s m c" "owner (sp_switch x s) m = owner s m"
proof -
  have "timer_of (sp_fiber (sp_switch x s)) y = timer_of (sp_fiber s) y" for y
    by (cases "sp_fiber s y") (simp_all add: timer_of_def switch_fiber)
  then show "monitor (sp_switch x s) m \<longleftrightarrow> monitor s m" by (auto simp: monitor_def mutexes_ok_def lockers_timed_def timed_def)
  have "waits_with (sp_switch x s) m y \<longleftrightarrow> waits_with s m y" for y
    by (cases "sp_fiber s y") (simp_all add: waits_with_def switch_fiber timed_def)
  then show "room (sp_switch x s) m c \<longleftrightarrow> room s m c" by (simp add: room_def)
qed (simp add: owner_def)

lemma switch_runs:
  assumes r: "rep w s" and q: "sp_queues s Q_ready = x # xs" and t: "\<not> timed s x"
  shows "runs (sp_switch x s)"
proof -
  have "x \<notin> set (sp_queues s q)" if "q \<noteq> Q_ready" for q
    using qrep_disjoint [OF rep_qrep [OF r], of x Q_ready q] q that by auto
  moreover have "x \<notin> set xs" using rep_distinct [OF r, of Q_ready] q by simp
  moreover have "x \<noteq> NULL" "sp_fiber s x \<noteq> None" using rep_member [OF r, of x Q_ready] q by auto
  ultimately show ?thesis using q t by (auto simp: runs_def idle_def timed_def switch_fiber)
qed

lemma threads_switch:
  "threads (sp_switch x s) y = map_option (\<lambda>(cb, l). (cb, if y = x then 1 else if y = sp_self s then 0 else l)) (threads s y)"
  by (cases "sp_fiber s y") (simp_all add: threads_def switch_fiber thread_of_def)

section \<open>What the other steps keep of a thread\<close>

lemma thread_of_upd [simp]:
  "thread_of (f\<lparr>f_timer := t\<rparr>) = thread_of f" "thread_of (f\<lparr>f_waited_event := e\<rparr>) = thread_of f"
  "thread_of (f\<lparr>f_lock_count := n\<rparr>) = thread_of f" "thread_of (f\<lparr>f_cond_mutex := m\<rparr>) = thread_of f"
  by (simp_all add: thread_of_def)

lemma threads_kept:
  "threads (snd (sp_lock m s)) y = threads s y" "threads (sp_unlock m s) y = threads s y" "threads (snd (sp_cond_wait c m s)) y = threads s y"
proof -
  show u: "threads (sp_unlock m s) y = threads s y" for s
    by (auto simp: threads_def sp_unlock_def Let_def option.map_comp o_def split: list.splits)
  show "threads (snd (sp_lock m s)) y = threads s y" by (auto simp: threads_def sp_lock_def Let_def option.map_comp o_def)
  show "threads (snd (sp_cond_wait c m s)) y = threads s y" by (simp add: sp_cond_wait_def Let_def u) (simp add: threads_def option.map_comp o_def)
qed

lemma stop_kept:
  "g_stop (g_melon (sp_world (snd (sp_lock m s)))) = g_stop (g_melon (sp_world s))"
  "g_stop (g_melon (sp_world (sp_unlock m s))) = g_stop (g_melon (sp_world s))"
  "g_stop (g_melon (sp_world (snd (sp_cond_wait c m s)))) = g_stop (g_melon (sp_world s))"
proof -
  show u: "g_stop (g_melon (sp_world (sp_unlock m s))) = g_stop (g_melon (sp_world s))" for s
    by (simp add: sp_unlock_def sp_ready_def sp_defs Let_def split: list.splits)
  show "g_stop (g_melon (sp_world (snd (sp_lock m s)))) = g_stop (g_melon (sp_world s))" by (simp add: sp_lock_def sp_defs Let_def)
  show "g_stop (g_melon (sp_world (snd (sp_cond_wait c m s)))) = g_stop (g_melon (sp_world s))"
    by (simp add: sp_cond_wait_def Let_def u) (simp add: sp_defs)
qed

section \<open>A fiber that has to wait for the mutex\<close>

lemma sp_lock_busy:
  assumes "owner s m \<noteq> NULL" and "\<not> held s m"
  shows "snd (sp_lock m s) = sp_enq (Q_lock m) (sp_self s) (sp_mod_fiber (sp_self s) (\<lambda>f. f\<lparr>f_lock_count := 1, f_timer := 0\<rparr>) s)"
  using assms by (simp add: sp_lock_def Let_def owner_def held_def)

lemma monitor_lock_busy:
  assumes m: "monitor s m" "owner s m \<noteq> NULL" "\<not> held s m" and s: "runs s"
  defines "s' \<equiv> snd (sp_lock m s)"
  shows "monitor s' m" "owner s' m = owner s m" "sp_queues s' = (sp_queues s)(Q_lock m := sp_queues s (Q_lock m) @ [sp_self s])"
    "sp_timers s' = sp_timers s" "sp_self s' = sp_self s" "room s m c \<Longrightarrow> room s' m c"
proof -
  note e = sp_lock_busy [OF m(2,3)]
  obtain y where y: "sp_mutex s m = Some y" "m_is_recursive y = 0" "mutexes_ok s" "lockers_timed s m" "sp_queues s Q_signal = []"
    using m(1) by (auto simp: monitor_def)
  have "mutexes_ok s'" unfolding s'_def
    by (rule sp_lock_ok [OF y(3,1) runsD(2) [OF s]]) (use m(3) y(1) in \<open>auto simp: held_def owner_def\<close>)
  moreover have "lockers_timed s' m"
    using y(4) runsD(4) [OF s, of "Q_lock m"] runsD(5) [OF s] by (auto simp: s'_def e lockers_timed_def timer_of_def timed_def)
  ultimately show "monitor s' m" using m(1) y by (simp add: monitor_def s'_def e)
  show "owner s' m = owner s m" by (simp add: s'_def e owner_def)
  show "sp_queues s' = (sp_queues s)(Q_lock m := sp_queues s (Q_lock m) @ [sp_self s])" by (simp add: s'_def e)
  show "sp_timers s' = sp_timers s" "sp_self s' = sp_self s" by (simp_all add: s'_def e)
  show "room s' m c" if "room s m c"
    using that runsD(4) [OF s, of "Q_wait c"] by (auto simp: s'_def e room_def waits_with_def timed_def)
qed

section \<open>Two fibers and a monitor\<close>

text \<open>
  The fiber \<open>a\<close> holds the mutex \<open>m\<close> and is ready; another one runs. Nobody waits for the
  mutex or on the condition \<open>c\<close>.
\<close>

definition contended :: "spec \<Rightarrow> ptr \<Rightarrow> ptr \<Rightarrow> ptr \<Rightarrow> bool" where
  "contended s m c a \<longleftrightarrow> monitor s m \<and> room s m c \<and> runs s \<and> owner s m = a \<and> a \<noteq> sp_self s \<and> \<not> timed s a \<and>
     sp_queues s Q_ready = [a] \<and> sp_queues s (Q_lock m) = [] \<and> sp_queues s (Q_wait c) = [] \<and>
     threads s (sp_self s) = Some (Sched_cb_none, 1) \<and> threads s a = Some (Sched_cb_none, 0) \<and> \<not> stopping s"

text \<open>The running fiber asks for the mutex, is suspended, and the holder runs.\<close>

lemma contended_lock:
  assumes r: "rep w s" and h: "contended s m c a"
  obtains w1 w2 s2 where "melon_mutex_lock m w = Inr (Suspended (), w1)" and "melon_sched_run_turn w1 = Inr (Sched_runs, w2)" and "rep w2 s2"
    and "monitor s2 m" "room s2 m c" "held s2 m" "runs s2" "sp_self s2 = a" "\<not> stopping s2"
    and "sp_queues s2 = (sp_queues s)(Q_lock m := [sp_self s], Q_ready := [])" "sp_timers s2 = sp_timers s"
    and "threads s2 a = Some (Sched_cb_none, 1)" "threads s2 (sp_self s) = Some (Sched_cb_none, 0)"
proof -
  note h = h [unfolded contended_def]
  have a: "a \<noteq> NULL" using rep_member [OF r, of a Q_ready] h by auto
  have m: "monitor s m" "owner s m \<noteq> NULL" "\<not> held s m" "runs s" using h a by (auto simp: held_def)
  let ?s1 = "snd (sp_lock m s)"
  obtain w1 where w1: "melon_mutex_lock m w = Inr (Suspended (), w1)" "rep w1 ?s1" using lock_busy [OF r m] by (auto simp: wp_yields)
  note l = monitor_lock_busy [OF m]
  have q1: "sp_queues ?s1 Q_ready = [a]" using h l(3) by simp
  obtain w2 where w2: "melon_sched_run_turn w1 = Inr (Sched_runs, w2)" "rep w2 (sp_switch a ?s1)"
    by (rule switch_refines [OF w1(2) _ _ q1, of 1 Sched_cb_none]) (use h l runsD(1) [OF m(4)] in \<open>auto simp: threads_kept stop_kept\<close>)
  have "runs (sp_switch a ?s1)" by (rule switch_runs [OF w1(2) q1]) (use h l in \<open>simp add: timed_def\<close>)
  then show thesis
    by (intro that [OF w1(1) w2]) (use h l in \<open>simp_all add: held_def threads_switch threads_kept stop_kept fun_upd_twist\<close>)
qed

text \<open>The holder waits on the condition, and the one that asked runs with the mutex.\<close>

lemma contended_wait:
  assumes r: "rep w s" and m: "monitor s m" "held s m" "runs s" "room s m c" and q: "sp_queues s (Q_lock m) = [x]" "sp_queues s Q_ready = []"
    and t: "threads s (sp_self s) = Some (Sched_cb_none, 1)" "threads s x = Some (Sched_cb_none, 0)" "\<not> timed s x" "\<not> stopping s"
  obtains w1 w2 s2 where "melon_cond_wait c m w = Inr (Suspended (), w1)" and "melon_sched_run_turn w1 = Inr (Sched_runs, w2)" and "rep w2 s2"
    and "monitor s2 m" "room s2 m c" "held s2 m" "runs s2" "sp_self s2 = x"
    and "sp_queues s2 = (sp_queues s)(Q_wait c := sp_queues s (Q_wait c) @ [sp_self s], Q_lock m := [])"
proof -
  let ?s1 = "snd (sp_cond_wait c m s)"
  obtain w1 where w1: "melon_cond_wait c m w = Inr (Suspended (), w1)" "rep w1 ?s1" using wait_held [OF r m] by (auto simp: wp_yields)
  note l = monitor_wait [OF r m]
  have q1: "sp_queues ?s1 Q_ready = [x]" using q l(2) by simp
  have self: "sp_self ?s1 = sp_self s" "x \<noteq> sp_self s" using runsD(4) [OF m(3), of "Q_lock m"] q by (auto simp: sp_cond_wait_def Let_def)
  have "set (sp_timers ?s1) \<subseteq> set (sp_timers s)"
    by (auto simp: sp_cond_wait_def sp_unlock_def Let_def split: list.splits if_splits dest: subsetD [OF set_remove1_subset])
  then have t1: "\<not> timed ?s1 x" using t(3) by (auto simp: timed_def)
  obtain w2 where w2: "melon_sched_run_turn w1 = Inr (Sched_runs, w2)" "rep w2 (sp_switch x ?s1)"
    by (rule switch_refines [OF w1(2) _ _ q1, of 1 Sched_cb_none]) (use t self runsD(1) [OF m(3)] in \<open>auto simp: threads_kept stop_kept\<close>)
  have "runs (sp_switch x ?s1)" by (rule switch_runs [OF w1(2) q1 t1])
  then show thesis
    by (intro that [OF w1(1) w2]) (use l q in \<open>auto simp: held_def\<close>)
qed

end
