(* ===== verification/Melon_System.thy ===== *)
theory Melon_System
  imports Melon_Switch
begin

text \<open>
  Any number of fibers on any number of scheduler threads, which use any number of mutexes
  and conditions in any order.
\<close>

section \<open>What the mutexes and conditions need\<close>

text \<open>
  \<open>Ms\<close> are the mutexes and \<open>cm\<close> gives the mutex that the fibers of a condition wait with.
  No fiber waits with a timeout and none is about to be destroyed.
\<close>

definition served :: "ptr set \<Rightarrow> (ptr \<rightharpoonup> ptr) \<Rightarrow> spec \<Rightarrow> bool" where
  "served Ms cm s \<longleftrightarrow> mutexes_ok s \<and> sp_queues s Q_signal = [] \<and> sp_timers s = [] \<and> \<not> stopping s \<and>
     (\<forall>x f. sp_fiber s x = Some f \<longrightarrow> f_timer f = 0 \<and> f_sched_next_cb f = Sched_cb_none) \<and>
     (\<forall>m \<in> Ms. m \<noteq> NULL \<and> (\<exists>y. sp_mutex s m = Some y \<and> m_is_recursive y = 0)) \<and>
     (\<forall>c m. cm c = Some m \<longrightarrow> m \<in> Ms \<and> c \<noteq> NULL \<and> (\<exists>z. sp_cond s c = Some z \<and> c_lock z = 0) \<and>
       (\<forall>x \<in> set (sp_queues s (Q_wait c)). \<exists>f. sp_fiber s x = Some f \<and> f_cond_mutex f = m \<and> f_lock_count f = 1))"

lemma served_monitor: "served Ms cm s \<Longrightarrow> m \<in> Ms \<Longrightarrow> monitor s m"
  by (auto simp: served_def monitor_def lockers_timed_def timer_of_def split: option.splits)

lemma served_room:
  assumes "served Ms cm s" and "cm c = Some m"
  shows "m \<in> Ms" and "room s m c"
  using assms by (fastforce simp: served_def room_def waits_with_def timed_def)+

lemma served_waiter:
  assumes "served Ms cm s" and "cm c = Some m" and "x \<in> set (sp_queues s (Q_wait c))"
  obtains f where "sp_fiber s x = Some f" and "f_cond_mutex f = m" and "f_lock_count f = 1" and "f_timer f = 0"
  using assms unfolding served_def by meson

lemma served_runs: "served Ms cm s \<Longrightarrow> idle s (sp_self s) \<Longrightarrow> runs s"
  by (simp add: served_def runs_def timed_def)

text \<open>What a step has to keep for that: everything but the queues of the mutexes and the owners.\<close>

lemma servedI:
  assumes "served Ms cm s" and "mutexes_ok s'" and "sp_queues s' Q_signal = []" and "sp_timers s' = []"
    and "g_stop (g_melon (sp_world s')) = g_stop (g_melon (sp_world s))" and "sp_cond s' = sp_cond s"
    and "\<And>m. map_option m_is_recursive (sp_mutex s' m) = map_option m_is_recursive (sp_mutex s m)"
    and "\<And>x f. sp_fiber s' x = Some f \<Longrightarrow> f_timer f = 0 \<and> f_sched_next_cb f = Sched_cb_none"
    and "\<And>c m x. cm c = Some m \<Longrightarrow> x \<in> set (sp_queues s' (Q_wait c)) \<Longrightarrow> \<exists>f. sp_fiber s' x = Some f \<and> f_cond_mutex f = m \<and> f_lock_count f = 1"
  shows "served Ms cm s'"
proof -
  have "\<exists>y. sp_mutex s' m = Some y \<and> m_is_recursive y = 0" if "m \<in> Ms" for m
    using assms(1) assms(7) [of m] that by (auto simp: served_def)
  then show ?thesis using assms by (auto simp: served_def)
qed

lemma stop_simps [simp]:
  "g_stop (g_melon (sp_world (sp_mod_mutex m k s))) = g_stop (g_melon (sp_world s))"
  "g_stop (g_melon (sp_world (sp_mod_fiber x g s))) = g_stop (g_melon (sp_world s))"
  "g_stop (g_melon (sp_world (sp_ready x s))) = g_stop (g_melon (sp_world s))"
  "g_stop (g_melon (sp_world (sp_enq q x s))) = g_stop (g_melon (sp_world s))"
  "g_stop (g_melon (sp_world (sp_deq q s))) = g_stop (g_melon (sp_world s))"
  "g_stop (g_melon (sp_world (sp_timer_del x s))) = g_stop (g_melon (sp_world s))"
  "g_stop (g_melon (sp_world (sp_current x s))) = g_stop (g_melon (sp_world s))"
  by (simp_all add: sp_defs sp_ready_def sp_current_def)

section \<open>Mutual exclusion and order as lists\<close>

text \<open>The effect of a call on the queues and on the owners, and whether it suspends the caller.\<close>

datatype call = C_lock ptr | C_unlock ptr | C_wait ptr ptr | C_broadcast ptr ptr

definition handover :: "ptr \<Rightarrow> queues \<Rightarrow> (ptr \<Rightarrow> ptr) \<Rightarrow> queues \<times> (ptr \<Rightarrow> ptr)" where
  "handover m qs ow = (qs(Q_lock m := tl (qs (Q_lock m)), Q_ready := qs Q_ready @ take 1 (qs (Q_lock m))),
     ow(m := (case qs (Q_lock m) of [] \<Rightarrow> NULL | x # _ \<Rightarrow> x)))"

fun effect :: "call \<Rightarrow> ptr \<Rightarrow> queues \<Rightarrow> (ptr \<Rightarrow> ptr) \<Rightarrow> bool \<times> queues \<times> (ptr \<Rightarrow> ptr)" where
  "effect (C_lock m) x qs ow = (if ow m = NULL then (False, qs, ow(m := x)) else (True, qs(Q_lock m := qs (Q_lock m) @ [x]), ow))"
| "effect (C_unlock m) x qs ow = (False, handover m qs ow)"
| "effect (C_wait c m) x qs ow = (True, handover m (qs(Q_wait c := qs (Q_wait c) @ [x])) ow)"
| "effect (C_broadcast c m) x qs ow = (False, qs(Q_wait c := [], Q_lock m := qs (Q_lock m) @ qs (Q_wait c)), ow)"

text \<open>The call itself.\<close>

fun perform :: "call \<Rightarrow> world \<Rightarrow> (unit outcome \<times> world) res" where
  "perform (C_lock m) w = melon_mutex_lock m w"
| "perform (C_unlock m) w = res_bind (melon_mutex_unlock m w) (\<lambda>w. Inr (Returned 0, w))"
| "perform (C_wait c m) w = melon_cond_wait c m w"
| "perform (C_broadcast c m) w = res_bind (melon_cond_broadcast c w) (\<lambda>(n, w). Inr (Returned n, w))"

text \<open>The callers' side of the contract, in terms of the owners.\<close>

fun entitled :: "ptr set \<Rightarrow> (ptr \<rightharpoonup> ptr) \<Rightarrow> call \<Rightarrow> ptr \<Rightarrow> (ptr \<Rightarrow> ptr) \<Rightarrow> bool" where
  "entitled Ms cm (C_lock m) x ow \<longleftrightarrow> m \<in> Ms \<and> ow m \<noteq> x"
| "entitled Ms cm (C_unlock m) x ow \<longleftrightarrow> m \<in> Ms \<and> ow m = x"
| "entitled Ms cm (C_wait c m) x ow \<longleftrightarrow> cm c = Some m \<and> ow m = x"
| "entitled Ms cm (C_broadcast c m) x ow \<longleftrightarrow> cm c = Some m \<and> ow m = x"

text \<open>The lock of a fiber, that a thread holds while it runs the fiber.\<close>

definition flock :: "spec \<Rightarrow> ptr \<Rightarrow> int option" where
  "flock s x = map_option f_lock (sp_fiber s x)"

lemma flock_dom: "flock s x = None \<longleftrightarrow> x \<notin> dom (sp_fiber s)"
  by (auto simp: flock_def)

lemma flock_domI: "(\<And>x. flock s' x = None \<longleftrightarrow> flock s x = None) \<Longrightarrow> dom (sp_fiber s') = dom (sp_fiber s)"
  by (auto simp: flock_def dom_def)

lemma flock_current [simp]: "flock (sp_current y s) x = flock s x"
  by (simp add: flock_def)

definition did :: "spec \<Rightarrow> bool \<times> queues \<times> (ptr \<Rightarrow> ptr) \<Rightarrow> spec \<Rightarrow> bool" where
  "did s e s' \<longleftrightarrow> sp_queues s' = fst (snd e) \<and> owner s' = snd (snd e) \<and> sp_self s' = sp_self s \<and>
     (\<forall>x. flock s' x = flock s x)"

lemma owner_alt: "owner s' = (owner s)(m := a)"
  if "sp_mutex s' = (sp_mutex s)(m := Some y)" "m_owner y = a"
  using that by (auto simp: owner_def fun_eq_iff)

lemma lock_effect:
  assumes r: "rep w s" and h: "served Ms cm s" and i: "idle s (sp_self s)" and e: "m \<in> Ms" "owner s m \<noteq> sp_self s"
  defines "s' \<equiv> snd (sp_lock m s)"
  shows "served Ms cm s'" "did s (effect (C_lock m) (sp_self s) (sp_queues s) (owner s)) s'"
proof -
  have m: "monitor s m" "runs s" "\<not> held s m" using served_monitor [OF h e(1)] served_runs [OF h i] e(2) by (simp_all add: held_def)
  obtain y where y: "sp_mutex s m = Some y" "m_is_recursive y = 0" "m_owner y \<noteq> sp_self s" using m(1) e(2) by (auto simp: monitor_def owner_def)
  have n: "sp_self s \<notin> set (sp_queues s q)" "sp_self s \<noteq> NULL" for q using i by (simp_all add: idle_def)
  have "mutexes_ok s'" unfolding s'_def by (rule sp_lock_ok [OF _ y(1) i]) (use h y in \<open>simp_all add: served_def\<close>)
  then show "served Ms cm s'"
    by (rule servedI [OF h]) (use h y n in \<open>auto simp: s'_def sp_lock_def Let_def served_def stop_kept split: if_splits\<close>)
  show "did s (effect (C_lock m) (sp_self s) (sp_queues s) (owner s)) s'"
    using y by (auto simp: did_def flock_def s'_def sp_lock_def Let_def owner_def fun_eq_iff option.map_comp o_def)
qed

lemma unlock_effect:
  assumes r: "rep w s" and h: "served Ms cm s" and i: "idle s (sp_self s)" and e: "m \<in> Ms" "owner s m = sp_self s"
  defines "s' \<equiv> sp_unlock m s"
  shows "served Ms cm s'" "did s (effect (C_unlock m) (sp_self s) (sp_queues s) (owner s)) s'"
proof -
  have m: "monitor s m" "held s m" "runs s" using served_monitor [OF h e(1)] served_runs [OF h i] e(2) by (simp_all add: held_def)
  obtain y where y: "sp_mutex s m = Some y" using m(1) by (auto simp: monitor_def)
  note u = sp_unlock_held [OF m(1)]
  have t: "timer_of (sp_fiber s) x = 0" for x using h by (auto simp: served_def timer_of_def split: option.splits)
  have d: "x \<notin> set (sp_queues s (Q_wait c))" if "x \<in> set (sp_queues s (Q_lock m))" for x c
    using qrep_disjoint [OF rep_qrep [OF r] that, of "Q_wait c"] by blast
  have "mutexes_ok s'" using monitor_unlock(1) [OF r m] by (simp add: s'_def monitor_def)
  then show "served Ms cm s'"
    by (rule servedI [OF h]) (use h y t d in \<open>auto simp: s'_def u Let_def served_def split: list.splits if_splits\<close>)
  show "did s (effect (C_unlock m) (sp_self s) (sp_queues s) (owner s)) s'"
    using y t by (auto simp: did_def flock_def s'_def u handover_def Let_def owner_def fun_eq_iff option.map_comp o_def split: list.splits)
qed

lemma wait_effect:
  assumes r: "rep w s" and h: "served Ms cm s" and i: "idle s (sp_self s)" and e: "cm c = Some m" "owner s m = sp_self s"
  defines "s' \<equiv> snd (sp_cond_wait c m s)"
  shows "served Ms cm s'" "did s (effect (C_wait c m) (sp_self s) (sp_queues s) (owner s)) s'"
proof -
  note c = served_room [OF h e(1)]
  have m: "monitor s m" "held s m" "runs s" using served_monitor [OF h c(1)] served_runs [OF h i] e(2) by (simp_all add: held_def)
  obtain y where y: "sp_mutex s m = Some y" "m_lock_count y = 1"
    by (rule monitorE [OF m(1)]) (use m(2) runsD(1) [OF m(3)] in \<open>auto simp: held_def\<close>)
  have n: "sp_self s \<notin> set (sp_queues s q)" "sp_self s \<noteq> NULL" for q using i by (simp_all add: idle_def)
  obtain f where f: "sp_fiber s (sp_self s) = Some f" using i by (auto simp: idle_def)
  have t: "timer_of (sp_fiber s) x = 0" for x using h by (auto simp: served_def timer_of_def split: option.splits)
  have d: "x \<notin> set (sp_queues s (Q_wait c'))" if "x \<in> set (sp_queues s (Q_lock m))" for x c'
    using qrep_disjoint [OF rep_qrep [OF r] that, of "Q_wait c'"] by blast
  have u: "s' = sp_unlock m (sp_mod_mutex m (\<lambda>x. x\<lparr>m_lock_count := 1\<rparr>) (sp_enq (Q_wait c) (sp_self s)
       (sp_mod_fiber (sp_self s) (\<lambda>f. f\<lparr>f_cond_mutex := m, f_lock_count := 1, f_timer := 0\<rparr>) s)))"
    using y by (simp add: s'_def sp_cond_wait_def Let_def)
  have t': "timer_of ((sp_fiber s)(sp_self s := Some (f\<lparr>f_cond_mutex := m, f_lock_count := 1, f_timer := 0\<rparr>))) x = 0" for x
    using t [of x] by (simp add: timer_of_def)
  have "mutexes_ok s'" using monitor_wait(4) [OF r m c(2)] by (simp add: s'_def)
  moreover have "sp_queues s' = (sp_queues s)(Q_wait c := sp_queues s (Q_wait c) @ [sp_self s],
      Q_lock m := tl (sp_queues s (Q_lock m)), Q_ready := sp_queues s Q_ready @ take 1 (sp_queues s (Q_lock m)))"
    using monitor_wait(2) [OF r m c(2)] by (simp add: s'_def)
  ultimately show "served Ms cm s'"
    by - (rule servedI [OF h], use h y t' d n f e(1) in \<open>auto simp: u sp_unlock_def Let_def served_def split: list.splits if_splits\<close>)
  show "did s (effect (C_wait c m) (sp_self s) (sp_queues s) (owner s)) s'"
    using y t' f by (auto simp: did_def flock_def u sp_unlock_def handover_def Let_def owner_def fun_eq_iff option.map_comp o_def split: list.splits)
qed

text \<open>Fibers that wait without a timeout for a mutex that is held only change queues.\<close>

lemma wake_all_frame:
  assumes "owner s m \<noteq> NULL" and "\<And>x. x \<in> set xs \<Longrightarrow> \<exists>f. sp_fiber s x = Some f \<and> f_cond_mutex f = m \<and> f_timer f = 0"
  shows "sp_mutex (sp_wake_all q xs s) = sp_mutex s \<and> sp_fiber (sp_wake_all q xs s) = sp_fiber s \<and> sp_timers (sp_wake_all q xs s) = sp_timers s \<and>
    g_stop (g_melon (sp_world (sp_wake_all q xs s))) = g_stop (g_melon (sp_world s))"
  using assms
proof (induction xs arbitrary: s)
  case (Cons x xs)
  obtain f where f: "sp_fiber s x = Some f" "f_cond_mutex f = m" "f_timer f = 0" using Cons.prems(2) by force
  let ?s = "sp_wake x (sp_deq q s)"
  have w: "?s = sp_enq (Q_lock m) x (sp_mod_fiber x (\<lambda>f. f\<lparr>f_timer := 0\<rparr>) (sp_deq q s))"
    using f Cons.prems(1) by (simp add: sp_wake_def sp_lock2_def Let_def timer_of_def owner_def)
  have "f\<lparr>f_timer := 0\<rparr> = f" using f(3) by (cases f) simp
  then have e: "sp_fiber ?s = sp_fiber s" "sp_mutex ?s = sp_mutex s" "sp_timers ?s = sp_timers s"
    using f(1) by (auto simp: w fun_eq_iff)
  have "g_stop (g_melon (sp_world ?s)) = g_stop (g_melon (sp_world s))" by (simp add: w)
  moreover have "owner ?s m \<noteq> NULL" using Cons.prems(1) e(2) by (simp add: owner_def)
  moreover have "\<exists>f. sp_fiber ?s y = Some f \<and> f_cond_mutex f = m \<and> f_timer f = 0" if "y \<in> set xs" for y
    unfolding e(1) using Cons.prems(2) that by simp
  ultimately show ?case using Cons.IH [of ?s] unfolding e sp_wake_all.simps by presburger
qed simp

lemma broadcast_effect:
  assumes r: "rep w s" and h: "served Ms cm s" and i: "idle s (sp_self s)" and e: "cm c = Some m" "owner s m = sp_self s"
  defines "s' \<equiv> sp_broadcast c s"
  shows "served Ms cm s'" "did s (effect (C_broadcast c m) (sp_self s) (sp_queues s) (owner s)) s'"
proof -
  note c = served_room [OF h e(1)]
  have m: "monitor s m" "held s m" "runs s" using served_monitor [OF h c(1)] served_runs [OF h i] e(2) by (simp_all add: held_def)
  note b = monitor_broadcast [OF r m c(2), folded s'_def]
  have "owner s m \<noteq> NULL" using e(2) i by (simp add: idle_def)
  moreover have "\<exists>f. sp_fiber s x = Some f \<and> f_cond_mutex f = m \<and> f_timer f = 0" if "x \<in> set (sp_queues s (Q_wait c))" for x
    by (rule served_waiter [OF h e(1) that]) blast
  ultimately have f: "sp_mutex s' = sp_mutex s" "sp_fiber s' = sp_fiber s" "sp_timers s' = sp_timers s" "g_stop (g_melon (sp_world s')) = g_stop (g_melon (sp_world s))"
    using wake_all_frame [of s m "sp_queues s (Q_wait c)" "Q_wait c"] by (simp_all add: s'_def sp_broadcast_def)
  have "mutexes_ok s'" using b(1) by (simp add: monitor_def)
  then show "served Ms cm s'"
    by (rule servedI [OF h]) (use h f b(5,7) in \<open>auto simp: served_def split: if_splits\<close>)
  show "did s (effect (C_broadcast c m) (sp_self s) (sp_queues s) (owner s)) s'"
    using f b(5,6) by (auto simp: did_def flock_def owner_def fun_eq_iff)
qed

text \<open>Each call does what its effect says, and does not fail.\<close>

lemma perform_refines:
  assumes r: "rep w s" and h: "served Ms cm s" and i: "idle s (sp_self s)" and e: "entitled Ms cm k (sp_self s) (owner s)"
  obtains p w' s' where "perform k w = Inr (p, w')" and "rep w' s'" and "served Ms cm s'"
    and "did s (effect k (sp_self s) (sp_queues s) (owner s)) s'" and "p = Suspended () \<longleftrightarrow> fst (effect k (sp_self s) (sp_queues s) (owner s))"
proof (cases k)
  case (C_lock m)
  with e have e': "m \<in> Ms" "owner s m \<noteq> sp_self s" by simp_all
  note m = served_monitor [OF h e'(1)] served_runs [OF h i] and l = lock_effect [OF r h i e']
  show thesis
  proof (cases "owner s m = NULL")
    case True
    with lock_free [OF r m(1) True m(2)] show thesis using that [unfolded C_lock, OF _ _ l] by (auto simp: wp_yields)
  next
    case False
    with lock_busy [OF r m(1) False _ m(2)] e'(2) show thesis using that [unfolded C_lock, OF _ _ l] by (auto simp: wp_yields held_def)
  qed
next
  case (C_unlock m)
  with e have e': "m \<in> Ms" "owner s m = sp_self s" by simp_all
  show thesis using unlock_held [OF r served_monitor [OF h e'(1)] _ served_runs [OF h i]] e'(2) that [unfolded C_unlock, OF _ _ unlock_effect [OF r h i e']]
    by (auto simp: wp_def held_def)
next
  case (C_wait c m)
  with e have e': "cm c = Some m" "owner s m = sp_self s" by simp_all
  note c = served_room [OF h e'(1)]
  show thesis using wait_held [OF r served_monitor [OF h c(1)] _ served_runs [OF h i] c(2)] e'(2) that [unfolded C_wait, OF _ _ wait_effect [OF r h i e']]
    by (auto simp: wp_yields held_def)
next
  case (C_broadcast c m)
  with e have e': "cm c = Some m" "owner s m = sp_self s" by simp_all
  note c = served_room [OF h e'(1)]
  show thesis using broadcast_held [OF r served_monitor [OF h c(1)] _ served_runs [OF h i] c(2)] e'(2) that [unfolded C_broadcast, OF _ _ broadcast_effect [OF r h i e']]
    by (auto simp: wp_def held_def)
qed

section \<open>Threads\<close>

lemma leave_refines:
  assumes r: "rep w s" and h: "served Ms cm s" and i: "sp_fiber s (sp_self s) \<noteq> None" "sp_self s \<noteq> NULL"
  obtains w' where "sched_leave w = Inr w'" and "rep w' (sp_mod_fiber (sp_self s) (\<lambda>f. f\<lparr>f_lock := 0\<rparr>) s)"
proof -
  obtain g where g: "sp_fiber s (sp_self s) = Some g" using i by auto
  obtain f where f: "fibers w (sp_self s) = Some f" "g = core f" by (rule rep_fiberE [OF r g])
  have "f_sched_next_cb g = Sched_cb_none" using h g unfolding served_def by blast
  then have cb: "f_sched_next_cb f = Sched_cb_none" using f(2) by (simp add: core_def)
  have c: "g_current_fiber w = sp_self s" using rep_current [OF r] by simp
  show thesis
    by (rule that [of "w\<lparr>fibers := (fibers w)(sp_self s \<mapsto> f\<lparr>f_lock := 0\<rparr>)\<rparr>"])
      (use f(1) cb c i rep_mod_fiber [OF r f(1), of "\<lambda>f. f\<lparr>f_lock := 0\<rparr>"]
        in \<open>simp_all add: sched_leave_def sched_next_back_def mod_fiber_def sched_run_callback_def core_def\<close>)
qed

lemma served_mod_lock:
  assumes h: "served Ms cm s"
  shows "served Ms cm (sp_mod_fiber x (\<lambda>f. f\<lparr>f_lock := l\<rparr>) s)"
proof (rule servedI [OF h])
  fix c m y
  assume "cm c = Some m" and "y \<in> set (sp_queues (sp_mod_fiber x (\<lambda>f. f\<lparr>f_lock := l\<rparr>) s) (Q_wait c))"
  then obtain f where "sp_fiber s y = Some f" "f_cond_mutex f = m" "f_lock_count f = 1" by (auto elim: served_waiter [OF h])
  then show "\<exists>f. sp_fiber (sp_mod_fiber x (\<lambda>f. f\<lparr>f_lock := l\<rparr>) s) y = Some f \<and> f_cond_mutex f = m \<and> f_lock_count f = 1" by auto
qed (use h in \<open>auto simp: served_def mutexes_ok_def split: if_splits\<close>)

lemma served_current: "served Ms cm (sp_current x s) = served Ms cm s"
  by (simp add: served_def mutexes_ok_def)

lemma served_deq_ready: "served Ms cm s \<Longrightarrow> served Ms cm (sp_deq Q_ready s)"
  by (rule servedI, assumption) (auto simp: served_def mutexes_ok_def sp_deq_def)

lemma owner_simps [simp]:
  "owner (sp_mod_fiber x g s) = owner s" "owner (sp_current x s) = owner s" "owner (sp_deq q s) = owner s"
  by (simp_all add: owner_def fun_eq_iff sp_deq_def)

section \<open>The system\<close>

text \<open>
  The state: the world, the fiber that each thread runs (\<^verbatim>\<open>g_current_fiber\<close> is local to
  a thread; NULL for a thread that runs none), and what each fiber knows. \<open>sy_holds x\<close> are
  the mutexes whose lock or wait has returned to the fiber \<open>x\<close> and which it has not
  unlocked, \<open>sy_pend x\<close> is the mutex that the call in which it is suspended has to give it.
\<close>

record sys =
  sy_world :: world
  sy_cur :: "nat \<Rightarrow> ptr"
  sy_pend :: "ptr \<Rightarrow> ptr option"
  sy_holds :: "ptr \<Rightarrow> ptr set"

text \<open>The rules that the fibers keep: they know what they hold.\<close>

fun legal :: "ptr set \<Rightarrow> (ptr \<rightharpoonup> ptr) \<Rightarrow> call \<Rightarrow> ptr set \<Rightarrow> bool" where
  "legal Ms cm (C_lock m) H \<longleftrightarrow> m \<in> Ms \<and> m \<notin> H"
| "legal Ms cm (C_unlock m) H \<longleftrightarrow> m \<in> H"
| "legal Ms cm (C_wait c m) H \<longleftrightarrow> cm c = Some m \<and> m \<in> H"
| "legal Ms cm (C_broadcast c m) H \<longleftrightarrow> cm c = Some m \<and> m \<in> H"

fun after_return :: "call \<Rightarrow> ptr set \<Rightarrow> ptr set" where
  "after_return (C_lock m) H = insert m H"
| "after_return (C_unlock m) H = H - {m}"
| "after_return (C_wait c m) H = H"
| "after_return (C_broadcast c m) H = H"

fun wanted :: "call \<Rightarrow> ptr option" where
  "wanted (C_lock m) = Some m"
| "wanted (C_unlock m) = None"
| "wanted (C_wait c m) = Some m"
| "wanted (C_broadcast c m) = None"

definition sy_return :: "call \<Rightarrow> ptr \<Rightarrow> world \<Rightarrow> sys \<Rightarrow> sys" where
  "sy_return k x w y = y\<lparr>sy_world := w, sy_holds := (sy_holds y)(x := after_return k (sy_holds y x))\<rparr>"

definition sy_suspend :: "call \<Rightarrow> nat \<Rightarrow> ptr \<Rightarrow> world \<Rightarrow> sys \<Rightarrow> sys" where
  "sy_suspend k t x w y = y\<lparr>sy_world := w, sy_cur := (sy_cur y)(t := NULL), sy_pend := (sy_pend y)(x := wanted k),
     sy_holds := (sy_holds y)(x := sy_holds y x - set_option (wanted k))\<rparr>"

definition sy_take :: "nat \<Rightarrow> ptr \<Rightarrow> world \<Rightarrow> sys \<Rightarrow> sys" where
  "sy_take t x w y = y\<lparr>sy_world := w, sy_cur := (sy_cur y)(t := x), sy_pend := (sy_pend y)(x := None),
     sy_holds := (sy_holds y)(x := sy_holds y x \<union> set_option (sy_pend y x))\<rparr>"

text \<open>
  A step of some thread: its fiber makes a call that returns, or one that suspends the
  fiber, upon which the thread lets it go; or a thread without a fiber takes one.
\<close>

inductive sys_step :: "ptr set \<Rightarrow> (ptr \<rightharpoonup> ptr) \<Rightarrow> sys \<Rightarrow> sys \<Rightarrow> bool" for Ms cm where
  returns: "sy_cur y t = x \<Longrightarrow> x \<noteq> NULL \<Longrightarrow> legal Ms cm k (sy_holds y x) \<Longrightarrow>
    perform k ((sy_world y)\<lparr>g_current_fiber := x\<rparr>) = Inr (Returned n, w) \<Longrightarrow> sys_step Ms cm y (sy_return k x w y)"
| suspends: "sy_cur y t = x \<Longrightarrow> x \<noteq> NULL \<Longrightarrow> legal Ms cm k (sy_holds y x) \<Longrightarrow>
    perform k ((sy_world y)\<lparr>g_current_fiber := x\<rparr>) = Inr (Suspended (), w) \<Longrightarrow> sched_leave w = Inr w' \<Longrightarrow>
    sys_step Ms cm y (sy_suspend k t x w' y)"
| takes: "sy_cur y t = NULL \<Longrightarrow> sched_next (sy_world y) = Inr (Sched_runs, w) \<Longrightarrow>
    sys_step Ms cm y (sy_take t (g_current_fiber w) w y)"

section \<open>The invariant\<close>

text \<open>
  Every fiber runs on one thread or is in one queue; what a fiber holds is what it owns,
  except for the mutex that has been handed to it before its call returned.
\<close>

fun queued_right :: "ptr set \<Rightarrow> (ptr \<rightharpoonup> ptr) \<Rightarrow> ptr option \<Rightarrow> (ptr \<Rightarrow> ptr) \<Rightarrow> ptr \<Rightarrow> qid \<Rightarrow> bool" where
  "queued_right Ms cm p ow x Q_ready \<longleftrightarrow> (\<forall>m. p = Some m \<longrightarrow> ow m = x)"
| "queued_right Ms cm p ow x (Q_lock m) \<longleftrightarrow> m \<in> Ms \<and> p = Some m"
| "queued_right Ms cm p ow x (Q_wait c) \<longleftrightarrow> cm c \<noteq> None \<and> p = cm c"
| "queued_right Ms cm p ow x (Q_read fd) \<longleftrightarrow> False"
| "queued_right Ms cm p ow x (Q_write fd) \<longleftrightarrow> False"
| "queued_right Ms cm p ow x Q_signal \<longleftrightarrow> False"

definition queued :: "queues \<Rightarrow> ptr set" where
  "queued qs = (\<Union>q. set (qs q))"

definition book :: "ptr set \<Rightarrow> (ptr \<rightharpoonup> ptr) \<Rightarrow> sys \<Rightarrow> queues \<Rightarrow> (ptr \<Rightarrow> ptr) \<Rightarrow> ptr set \<Rightarrow> bool" where
  "book Ms cm y qs ow alive \<longleftrightarrow>
     (\<forall>t. sy_cur y t \<noteq> NULL \<longrightarrow> sy_cur y t \<in> alive \<and> sy_cur y t \<notin> queued qs \<and> sy_pend y (sy_cur y t) = None) \<and>
     (\<forall>t u. sy_cur y t = sy_cur y u \<longrightarrow> sy_cur y t \<noteq> NULL \<longrightarrow> t = u) \<and>
     (\<forall>x \<in> alive. x \<noteq> NULL \<longrightarrow> (\<exists>t. sy_cur y t = x) \<or> x \<in> queued qs) \<and>
     (\<forall>x q. x \<in> set (qs q) \<longrightarrow> queued_right Ms cm (sy_pend y x) ow x q) \<and>
     (\<forall>x m. sy_pend y x = Some m \<longrightarrow> m \<in> Ms) \<and>
     (\<forall>x. x \<noteq> NULL \<longrightarrow> sy_holds y x = {m \<in> Ms. ow m = x \<and> sy_pend y x \<noteq> Some m}) \<and>
     queued qs \<subseteq> alive \<and> (\<forall>m \<in> Ms. ow m \<noteq> NULL \<longrightarrow> ow m \<in> alive) \<and>
     (\<forall>c m x. cm c = Some m \<longrightarrow> x \<in> set (qs (Q_wait c)) \<longrightarrow> ow m \<noteq> x)"

text \<open>The queues of a represented state.\<close>

definition apart :: "queues \<Rightarrow> bool" where
  "apart qs \<longleftrightarrow> (\<forall>q. distinct (qs q) \<and> NULL \<notin> set (qs q)) \<and> (\<forall>x q r. x \<in> set (qs q) \<longrightarrow> x \<in> set (qs r) \<longrightarrow> q = r)"

lemma rep_apart:
  assumes r: "rep w s"
  shows "apart (sp_queues s)"
  unfolding apart_def
proof (intro conjI allI impI)
  show "distinct (sp_queues s q)" for q by (rule rep_distinct [OF r])
  show "NULL \<notin> set (sp_queues s q)" for q using rep_member [OF r, of NULL q] by blast
  show "q = p" if "x \<in> set (sp_queues s q)" "x \<in> set (sp_queues s p)" for x q p by (rule qrep_disjoint [OF rep_qrep [OF r] that])
qed

lemmas book_cur = book_def [THEN iffD1, THEN conjunct1, rule_format]
lemmas book_thread = book_def [THEN iffD1, THEN conjunct2, THEN conjunct1, rule_format]
lemmas book_alive = book_def [THEN iffD1, THEN conjunct2, THEN conjunct2, THEN conjunct1, rule_format]
lemmas book_queued = book_def [THEN iffD1, THEN conjunct2, THEN conjunct2, THEN conjunct2, THEN conjunct1, rule_format]
lemmas book_pend = book_def [THEN iffD1, THEN conjunct2, THEN conjunct2, THEN conjunct2, THEN conjunct2, THEN conjunct1, rule_format]
lemmas book_holds = book_def [THEN iffD1, THEN conjunct2, THEN conjunct2, THEN conjunct2, THEN conjunct2, THEN conjunct2, THEN conjunct1, rule_format]
lemmas book_queues = book_def [THEN iffD1, THEN conjunct2, THEN conjunct2, THEN conjunct2, THEN conjunct2, THEN conjunct2, THEN conjunct2, THEN conjunct1, THEN subsetD]
lemmas book_owner = book_def [THEN iffD1, THEN conjunct2, THEN conjunct2, THEN conjunct2, THEN conjunct2, THEN conjunct2, THEN conjunct2, THEN conjunct2, THEN conjunct1, rule_format]
lemmas book_waits = book_def [THEN iffD1, THEN conjunct2, THEN conjunct2, THEN conjunct2, THEN conjunct2, THEN conjunct2, THEN conjunct2, THEN conjunct2, THEN conjunct2, rule_format]

text \<open>What the books say of the fiber that a thread runs.\<close>

lemma book_running:
  assumes b: "book Ms cm y qs ow alive" and t: "sy_cur y t = x" "x \<noteq> NULL"
  shows "sy_pend y x = None" "x \<in> alive" "x \<notin> queued qs" "sy_holds y x = {m \<in> Ms. ow m = x}"
proof -
  from book_cur [OF b, of t] t show p: "sy_pend y x = None" "x \<in> alive" "x \<notin> queued qs" by simp_all
  from book_holds [OF b t(2)] p(1) show "sy_holds y x = {m \<in> Ms. ow m = x}" by simp
qed

lemma book_entitled:
  assumes b: "book Ms cm y qs ow alive" and t: "sy_cur y t = x" "x \<noteq> NULL" and l: "legal Ms cm k (sy_holds y x)"
  shows "entitled Ms cm k x ow"
  using l book_running(4) [OF b t] by (cases k) auto

text \<open>Each step keeps the books. First the steps on the queues and the owners.\<close>

lemma bookI:
  assumes c: "\<And>t. sy_cur y' t \<noteq> NULL \<Longrightarrow> sy_cur y' t \<in> alive \<and> sy_cur y' t \<notin> queued qs' \<and> sy_pend y' (sy_cur y' t) = None"
    and d: "\<And>t u. sy_cur y' t = sy_cur y' u \<Longrightarrow> sy_cur y' t \<noteq> NULL \<Longrightarrow> t = u"
    and l: "\<And>z. z \<in> alive \<Longrightarrow> z \<noteq> NULL \<Longrightarrow> (\<exists>t. sy_cur y' t = z) \<or> z \<in> queued qs'"
    and q: "\<And>z q. z \<in> set (qs' q) \<Longrightarrow> queued_right Ms cm (sy_pend y' z) ow' z q"
    and p: "\<And>z m. sy_pend y' z = Some m \<Longrightarrow> m \<in> Ms"
    and h: "\<And>z. z \<noteq> NULL \<Longrightarrow> sy_holds y' z = {m \<in> Ms. ow' m = z \<and> sy_pend y' z \<noteq> Some m}"
    and a: "queued qs' \<subseteq> alive" and o: "\<And>m. m \<in> Ms \<Longrightarrow> ow' m \<noteq> NULL \<Longrightarrow> ow' m \<in> alive"
    and v: "\<And>c m z. cm c = Some m \<Longrightarrow> z \<in> set (qs' (Q_wait c)) \<Longrightarrow> ow' m \<noteq> z"
  shows "book Ms cm y' qs' ow' alive"
  unfolding book_def using c d l q p h a o v by (intro conjI allI ballI impI) simp_all

lemma handover_Nil: "qs (Q_lock m) = [] \<Longrightarrow> handover m qs ow = (qs, ow(m := NULL))"
  by (auto simp: handover_def fun_eq_iff)

lemma handover_right:
  assumes e: "handover m qs ow = (qs', ow')" and x: "ow m \<notin> set (qs Q_ready)"
    and q: "\<And>z q. z \<in> set (qs q) \<Longrightarrow> queued_right Ms cm (pend z) ow z q" and z: "z \<in> set (qs' q)"
  shows "queued_right Ms cm (pend z) ow' z q"
proof (cases "qs (Q_lock m)")
  case Nil
  then have qs': "qs' = qs" "ow' = ow(m := NULL)" using e by (simp_all add: handover_Nil)
  with q [of z q] z x show ?thesis by (cases q) auto
next
  case (Cons a as)
  then have qs': "qs' = qs(Q_lock m := as, Q_ready := qs Q_ready @ [a])" "ow' = ow(m := a)" using e by (auto simp: handover_def)
  show ?thesis
  proof (cases "q = Q_ready \<and> z = a")
    case True
    then show ?thesis using q [of a "Q_lock m"] Cons qs'(2) by simp
  next
    case False
    then have "z \<in> set (qs q)" using z qs'(1) Cons by (auto split: if_splits)
    with q [of z q] x qs'(2) show ?thesis by (cases q) auto
  qed
qed

lemma queuedI: "z \<in> set (qs q) \<Longrightarrow> z \<in> queued qs"
  by (auto simp: queued_def)

lemma queued_push: "queued (qs(q := qs q @ [x])) = insert x (queued qs)"
  by (auto simp: queued_def split: if_splits)

lemma queued_pop: "qs q = x # xs \<Longrightarrow> queued qs = insert x (queued (qs(q := xs)))"
proof (intro set_eqI iffI)
  fix z
  assume q: "qs q = x # xs" and "z \<in> queued qs"
  then obtain r where "z \<in> set (qs r)" by (auto simp: queued_def)
  then have "z = x \<or> z \<in> set ((qs(q := xs)) r)" using q by (cases "r = q") auto
  then show "z \<in> insert x (queued (qs(q := xs)))" by (auto simp only: queued_def)
next
  fix z
  assume q: "qs q = x # xs" and "z \<in> insert x (queued (qs(q := xs)))"
  then obtain r where "z = x \<or> z \<in> set ((qs(q := xs)) r)" by (auto simp: queued_def)
  then have "z \<in> set (qs q) \<or> z \<in> set (qs r)" using q by (auto split: if_splits)
  then show "z \<in> queued qs" by (auto simp: queued_def)
qed

lemma queued_move:
  assumes "p \<noteq> q" and "qs q = as @ bs"
  shows "queued (qs(q := bs, p := qs p @ as)) = queued qs"
proof (intro set_eqI iffI)
  fix z
  assume "z \<in> queued (qs(q := bs, p := qs p @ as))"
  then obtain r where "z \<in> set ((qs(q := bs, p := qs p @ as)) r)" by (auto simp: queued_def)
  then have "z \<in> set (qs r) \<or> z \<in> set (qs q)" using assms by (auto split: if_splits)
  then show "z \<in> queued qs" by (auto simp: queued_def)
next
  fix z
  assume "z \<in> queued qs"
  then obtain r where "z \<in> set (qs r)" by (auto simp: queued_def)
  then have "z \<in> set ((qs(q := bs, p := qs p @ as)) r) \<or> z \<in> set ((qs(q := bs, p := qs p @ as)) p)"
    using assms by (cases "r = q") auto
  then show "z \<in> queued (qs(q := bs, p := qs p @ as))" by (auto simp only: queued_def)
qed

lemma queued_handover:
  assumes e: "handover m qs ow = (qs', ow')"
  shows "queued qs' = queued qs"
proof (cases "qs (Q_lock m)")
  case (Cons a as)
  then show ?thesis using e queued_move [of Q_ready "Q_lock m" qs "[a]" as] by (auto simp: handover_def)
qed (use e in \<open>simp add: handover_Nil\<close>)

lemma handover_alive:
  assumes "handover m qs ow = (qs', ow')" and "queued qs \<subseteq> alive" and "\<And>n. n \<in> Ms \<Longrightarrow> ow n \<noteq> NULL \<Longrightarrow> ow n \<in> alive"
    and "n \<in> Ms" and "ow' n \<noteq> NULL"
  shows "ow' n \<in> alive"
proof (cases "qs (Q_lock m)")
  case (Cons a as)
  then have "a \<in> alive" using assms(2) queuedI [of a qs "Q_lock m"] by auto
  then show ?thesis using assms(1,3-5) Cons by (auto simp: handover_def split: if_splits)
qed (use assms in \<open>auto simp: handover_Nil split: if_splits\<close>)

lemma handover_waits:
  assumes "handover m qs ow = (qs', ow')" and "z \<notin> set (qs (Q_lock m))" and "z \<noteq> NULL" and "n \<noteq> m \<Longrightarrow> ow n \<noteq> z"
  shows "ow' n \<noteq> z"
  using assms by (cases "n = m"; cases "qs (Q_lock m)") (auto simp: handover_def)

lemma apart_wait: "apart qs \<Longrightarrow> z \<in> set (qs (Q_wait c)) \<Longrightarrow> z \<notin> set (qs (Q_lock m)) \<and> z \<noteq> NULL"
  unfolding apart_def by (metis qid.distinct(11))

lemma handover_owned:
  assumes e: "handover m qs ow = (qs', ow')" and z: "z \<noteq> NULL"
    and q: "\<And>a. a \<in> set (qs (Q_lock m)) \<Longrightarrow> pend a = Some m"
  shows "ow' n = z \<and> pend z \<noteq> Some n \<longleftrightarrow> n \<noteq> m \<and> ow n = z \<and> pend z \<noteq> Some n"
  using e z q by (cases "qs (Q_lock m)") (auto simp: handover_def)

lemma book_unlock:
  assumes b: "book Ms cm y qs ow alive" and t: "sy_cur y t = x" "x \<noteq> NULL" and l: "m \<in> sy_holds y x" and e: "handover m qs ow = (qs', ow')" and a: "apart qs"
  shows "book Ms cm (sy_return (C_unlock m) x w y) qs' ow' alive" (is "book Ms cm ?y qs' ow' alive")
proof -
  note p = book_running [OF b t]
  have m: "m \<in> Ms" "ow m = x" using l p(4) by auto
  have q: "queued_right Ms cm (sy_pend y z) ow z q" if "z \<in> set (qs q)" for z q by (rule book_queued [OF b that])
  have g: "sy_pend y a = Some m" if "a \<in> set (qs (Q_lock m))" for a using q [OF that] by simp
  show ?thesis
  proof (rule bookI)
    show "ow' n \<noteq> z" if "cm c = Some n" "z \<in> set (qs' (Q_wait c))" for c n z
    proof -
      have z: "z \<in> set (qs (Q_wait c))" using that(2) e by (auto simp: handover_def)
      show ?thesis by (rule handover_waits [OF e]) (use apart_wait [OF a z] book_waits [OF b that(1) z] in auto)
    qed
    show "\<And>z q. z \<in> set (qs' q) \<Longrightarrow> queued_right Ms cm (sy_pend ?y z) ow' z q"
      by (simp add: sy_return_def, rule handover_right [OF e]) (use m(2) p(3) q in \<open>auto dest: queuedI\<close>)
    show "sy_holds ?y z = {n \<in> Ms. ow' n = z \<and> sy_pend ?y z \<noteq> Some n}" if "z \<noteq> NULL" for z
      using handover_owned [OF e that, of "sy_pend y"] g book_holds [OF b that] m(2) p(1,4) by (auto simp: sy_return_def)
  qed (use book_cur [OF b] book_thread [OF b] book_alive [OF b] book_pend [OF b] book_queues [OF b] handover_alive [OF e _ book_owner [OF b]]
    in \<open>simp_all add: sy_return_def queued_handover [OF e] subset_iff\<close>)
qed

lemma book_lock:
  assumes b: "book Ms cm y qs ow alive" and t: "sy_cur y t = x" "x \<noteq> NULL" and m: "m \<in> Ms" "ow m = NULL" and a: "apart qs"
  shows "book Ms cm (sy_return (C_lock m) x w y) qs (ow(m := x)) alive" (is "book Ms cm ?y qs ?ow alive")
proof -
  note p = book_running [OF b t]
  have n: "NULL \<notin> set (qs q)" for q using a by (simp add: apart_def)
  show ?thesis
  proof (rule bookI)
    show "queued_right Ms cm (sy_pend ?y z) ?ow z q" if "z \<in> set (qs q)" for z q
      using book_queued [OF b that] m that n by (cases q) (auto simp: sy_return_def)
    show "sy_holds ?y z = {n \<in> Ms. ?ow n = z \<and> sy_pend ?y z \<noteq> Some n}" if "z \<noteq> NULL" for z
      using book_holds [OF b that] m p(1,4) that by (auto simp: sy_return_def)
    show "?ow n \<noteq> z" if "cm c = Some n" "z \<in> set (qs (Q_wait c))" for c n z
      using book_waits [OF b that] p(3) queuedI [of z qs "Q_wait c"] that(2) by auto
    show "?ow n \<in> alive" if "n \<in> Ms" "?ow n \<noteq> NULL" for n using that book_owner [OF b, of n] p(2) by (cases "n = m") simp_all
  qed (use book_cur [OF b] book_thread [OF b] book_alive [OF b] book_pend [OF b] book_queues [OF b] in \<open>simp_all add: sy_return_def subset_iff\<close>)
qed

lemma book_broadcast:
  assumes b: "book Ms cm y qs ow alive" and t: "sy_cur y t = x" "x \<noteq> NULL" and c: "cm c = Some m" "m \<in> sy_holds y x"
  shows "book Ms cm (sy_return (C_broadcast c m) x w y) (qs(Q_wait c := [], Q_lock m := qs (Q_lock m) @ qs (Q_wait c))) ow alive"
    (is "book Ms cm ?y ?qs ow alive")
proof -
  have m: "m \<in> Ms" using c book_running(4) [OF b t] by simp
  have y: "sy_cur ?y = sy_cur y" "sy_pend ?y = sy_pend y" "sy_holds ?y = sy_holds y" by (simp_all add: sy_return_def)
  have mem: "queued ?qs = queued qs" using queued_move [of "Q_lock m" "Q_wait c" qs "qs (Q_wait c)" "[]"] by simp
  show ?thesis
  proof (rule bookI)
    show "ow n \<noteq> z" if "cm d = Some n" "z \<in> set (?qs (Q_wait d))" for d n z
      using book_waits [OF b that(1), of z] that(2) by (auto split: if_splits)
    show "queued_right Ms cm (sy_pend ?y z) ow z q" if "z \<in> set (?qs q)" for z q
    proof (cases "z \<in> set (qs q)")
      case True
      then show ?thesis using book_queued [OF b True] by (simp add: y)
    next
      case False
      with that have "z \<in> set (qs (Q_wait c))" "q = Q_lock m" by (auto split: if_splits)
      with book_queued [OF b this(1)] m c(1) show ?thesis by (simp add: y)
    qed
  qed (use book_cur [OF b] book_thread [OF b] book_alive [OF b] book_pend [OF b] book_holds [OF b] book_queues [OF b] book_owner [OF b]
    in \<open>simp_all add: y mem subset_iff\<close>)
qed

text \<open>Then the calls that suspend: the fiber is queued before its thread lets it go.\<close>

lemma book_suspend:
  assumes b: "book Ms cm y qs ow alive" and t: "sy_cur y t = x" "x \<noteq> NULL" and k: "wanted k = Some m" "m \<in> Ms"
    and m: "queued qs' = insert x (queued qs)" and q: "\<And>z q. z \<in> set (qs' q) \<Longrightarrow> queued_right Ms cm (((sy_pend y)(x := Some m)) z) ow' z q"
    and h: "\<And>z n. z \<noteq> NULL \<Longrightarrow> n \<in> Ms \<Longrightarrow> ow' n = z \<and> ((sy_pend y)(x := Some m)) z \<noteq> Some n \<longleftrightarrow> ow n = z \<and> ((sy_pend y)(x := Some m)) z \<noteq> Some n"
    and o: "\<And>n. n \<in> Ms \<Longrightarrow> ow' n \<noteq> NULL \<Longrightarrow> ow' n \<in> alive"
    and v: "\<And>c n z. cm c = Some n \<Longrightarrow> z \<in> set (qs' (Q_wait c)) \<Longrightarrow> ow' n \<noteq> z"
  shows "book Ms cm (sy_suspend k t x w y) qs' ow' alive" (is "book Ms cm ?y qs' ow' alive")
proof (rule bookI)
  note p = book_running [OF b t]
  have c: "sy_cur ?y u = (if u = t then NULL else sy_cur y u)" "sy_pend ?y = (sy_pend y)(x := Some m)" for u
    using k by (simp_all add: sy_suspend_def)
  show "sy_cur ?y u \<in> alive \<and> sy_cur ?y u \<notin> queued qs' \<and> sy_pend ?y (sy_cur ?y u) = None" if "sy_cur ?y u \<noteq> NULL" for u
  proof -
    have u: "u \<noteq> t" "sy_cur y u \<noteq> NULL" using that by (auto simp: c split: if_splits)
    then have "sy_cur y u \<noteq> x" using book_thread [OF b, of u t] t by metis
    then show ?thesis using book_cur [OF b u(2)] u(1) m by (simp add: c)
  qed
  show "u = v" if "sy_cur ?y u = sy_cur ?y v" "sy_cur ?y u \<noteq> NULL" for u v
    using book_thread [OF b, of u v] that by (auto simp: c split: if_splits)
  show "(\<exists>u. sy_cur ?y u = z) \<or> z \<in> queued qs'" if "z \<in> alive" "z \<noteq> NULL" for z
    using book_alive [OF b that] t m by (simp add: c) metis
  show "queued_right Ms cm (sy_pend ?y z) ow' z q" if "z \<in> set (qs' q)" for z q using q [OF that] by (simp only: c)
  show "n \<in> Ms" if "sy_pend ?y z = Some n" for z n using that k book_pend [OF b, of z n] by (auto simp: c split: if_splits)
  show "sy_holds ?y z = {n \<in> Ms. ow' n = z \<and> sy_pend ?y z \<noteq> Some n}" if "z \<noteq> NULL" for z
  proof -
    have "sy_holds ?y z = {n \<in> Ms. ow n = z \<and> sy_pend ?y z \<noteq> Some n}"
      using book_holds [OF b that] p(1) k by (cases "z = x") (simp_all add: sy_suspend_def, blast)
    also have "\<dots> = {n \<in> Ms. ow' n = z \<and> sy_pend ?y z \<noteq> Some n}" unfolding c(2) using h [OF that] by blast
    finally show ?thesis .
  qed
  show "queued qs' \<subseteq> alive" using m p(2) book_queues [OF b] by auto
qed (rule o, assumption+, rule v)

lemma book_lock_busy:
  assumes b: "book Ms cm y qs ow alive" and t: "sy_cur y t = x" "x \<noteq> NULL" and m: "m \<in> Ms"
  shows "book Ms cm (sy_suspend (C_lock m) t x w y) (qs(Q_lock m := qs (Q_lock m) @ [x])) ow alive" (is "book Ms cm ?y ?qs ow alive")
proof (rule book_suspend [OF b t])
  show "queued_right Ms cm (((sy_pend y)(x := Some m)) z) ow z q" if "z \<in> set (?qs q)" for z q
  proof (cases "z = x")
    case True
    then have "q = Q_lock m" using that book_running(3) [OF b t] by (auto split: if_splits dest: queuedI)
    then show ?thesis using True m by simp
  next
    case False
    then have "z \<in> set (qs q)" using that by (auto split: if_splits)
    then show ?thesis using book_queued [OF b, of z q] False by simp
  qed
qed (use m book_owner [OF b] book_waits [OF b] in \<open>simp_all add: queued_push\<close>)

lemma book_wait:
  assumes b: "book Ms cm y qs ow alive" and t: "sy_cur y t = x" "x \<noteq> NULL" and c: "cm c = Some m" "m \<in> sy_holds y x"
    and e: "handover m (qs(Q_wait c := qs (Q_wait c) @ [x])) ow = (qs', ow')" and a: "apart qs"
  shows "book Ms cm (sy_suspend (C_wait c m) t x w y) qs' ow' alive" (is "book Ms cm ?y qs' ow' alive")
proof -
  let ?qs = "qs(Q_wait c := qs (Q_wait c) @ [x])" and ?p = "(sy_pend y)(x := Some m)"
  note p = book_running [OF b t]
  have m: "m \<in> Ms" "ow m = x" using c p(4) by auto
  have q: "queued_right Ms cm (?p z) ow z q" if "z \<in> set (?qs q)" for z q
  proof (cases "z = x")
    case True
    then have "q = Q_wait c" using that p(3) by (auto split: if_splits dest: queuedI)
    then show ?thesis using True c by simp
  next
    case False
    then have "z \<in> set (qs q)" using that by (auto split: if_splits)
    then show ?thesis using book_queued [OF b, of z q] False by simp
  qed
  have g: "?p a = Some m" if "a \<in> set (?qs (Q_lock m))" for a using q [OF that] by simp
  show ?thesis
  proof (rule book_suspend [OF b t])
    show "queued qs' = insert x (queued qs)" using queued_handover [OF e] by (simp add: queued_push)
    show "queued_right Ms cm (?p z) ow' z q" if "z \<in> set (qs' q)" for z q
      by (rule handover_right [OF e _ _ that, where pend = ?p]) (use q m(2) p(3) in \<open>auto dest: queuedI\<close>)
    show "ow' n \<noteq> z" if "cm d = Some n" "z \<in> set (qs' (Q_wait d))" for d n z
    proof (rule handover_waits [OF e])
      have z: "z = x \<and> d = c \<or> z \<in> set (qs (Q_wait d))" using that(2) e by (auto simp: handover_def split: if_splits)
      then show "z \<notin> set (?qs (Q_lock m))" "z \<noteq> NULL" using p(3) t(2) apart_wait [OF a, of z d] queuedI [of x qs "Q_lock m"] by auto
      show "ow n \<noteq> z" if "n \<noteq> m" using z book_waits [OF b \<open>cm d = Some n\<close>, of z] \<open>cm d = Some n\<close> c(1) that by auto
    qed
    show "ow' n \<in> alive" if "n \<in> Ms" "ow' n \<noteq> NULL" for n
      by (rule handover_alive [OF e _ book_owner [OF b] that]) (use p(2) book_queues [OF b] in \<open>auto simp: queued_push\<close>)
    show "ow' n = z \<and> ?p z \<noteq> Some n \<longleftrightarrow> ow n = z \<and> ?p z \<noteq> Some n" if "z \<noteq> NULL" for z n
      using handover_owned [OF e that, of ?p n] g m(2) by auto
  qed (use m in simp_all)
qed

text \<open>At last a thread that takes the first ready fiber: its pending call returns.\<close>

lemma book_take:
  assumes b: "book Ms cm y qs ow alive" and t: "sy_cur y t = NULL" and q: "qs Q_ready = x # xs" and a: "apart qs" "x \<in> alive"
  shows "book Ms cm (sy_take t x w y) (qs(Q_ready := xs)) ow alive" (is "book Ms cm ?y ?qs ow alive")
proof (rule bookI)
  have "distinct (qs Q_ready)" "NULL \<notin> set (qs Q_ready)" using a(1) by (simp_all add: apart_def)
  then have x: "x \<noteq> NULL" "x \<notin> set xs" "x \<in> set (qs Q_ready)" using q by auto
  then have d: "x \<notin> set (qs r)" if "r \<noteq> Q_ready" for r using a(1) that unfolding apart_def by metis
  have u: "queued qs = insert x (queued ?qs)" using queued_pop [of qs Q_ready x xs] q by simp
  have u': "x \<notin> queued ?qs" using x(2) d by (auto simp: queued_def split: if_splits)
  have p: "sy_pend y x = Some m \<Longrightarrow> ow m = x" for m using book_queued [OF b, of x Q_ready] q by simp
  have c: "sy_cur ?y v = (if v = t then x else sy_cur y v)" "sy_pend ?y = (sy_pend y)(x := None)" for v by (simp_all add: sy_take_def)
  have n: "sy_cur y v \<noteq> x" for v using book_cur [OF b, of v] x(1) u by auto
  show "sy_cur ?y v \<in> alive \<and> sy_cur ?y v \<notin> queued ?qs \<and> sy_pend ?y (sy_cur ?y v) = None" if "sy_cur ?y v \<noteq> NULL" for v
    using that book_cur [OF b, of v] a(2) u u' by (auto simp: c split: if_splits)
  show "v = v'" if "sy_cur ?y v = sy_cur ?y v'" "sy_cur ?y v \<noteq> NULL" for v v'
    using book_thread [OF b, of v v'] n [of v] n [of v'] that by (auto simp: c split: if_splits)
  show "(\<exists>v. sy_cur ?y v = z) \<or> z \<in> queued ?qs" if "z \<in> alive" "z \<noteq> NULL" for z
    using book_alive [OF b that] u t that(2) by (auto simp: c)
  show "queued_right Ms cm (sy_pend ?y z) ow z r" if "z \<in> set (?qs r)" for z r
  proof -
    have "z \<noteq> x" "z \<in> set (qs r)" using that x(2) d q by (auto split: if_splits)
    then show ?thesis using book_queued [OF b, of z r] by (simp add: c)
  qed
  show "m \<in> Ms" if "sy_pend ?y z = Some m" for z m using that book_pend [OF b, of z m] by (auto simp: c split: if_splits)
  show "sy_holds ?y z = {m \<in> Ms. ow m = z \<and> sy_pend ?y z \<noteq> Some m}" if "z \<noteq> NULL" for z
    using book_holds [OF b that] p book_pend [OF b, of x] by (auto simp: sy_take_def)
  show "queued ?qs \<subseteq> alive" using book_queues [OF b] u by auto
qed (rule book_owner [OF b], assumption+, use book_waits [OF b] in \<open>simp split: if_splits\<close>)

section \<open>The system keeps its invariant\<close>

definition locks_ok :: "(nat \<Rightarrow> ptr) \<Rightarrow> spec \<Rightarrow> bool" where
  "locks_ok cur s \<longleftrightarrow> (\<forall>x l. x \<noteq> NULL \<longrightarrow> flock s x = Some l \<longrightarrow> l = (if \<exists>t. cur t = x then 1 else 0))"

lemma locks_ok_cong: "(\<And>x. flock s' x = flock s x) \<Longrightarrow> locks_ok cur s' \<longleftrightarrow> locks_ok cur s"
  by (simp add: locks_ok_def)

definition sys_inv :: "ptr set \<Rightarrow> (ptr \<rightharpoonup> ptr) \<Rightarrow> sys \<Rightarrow> spec \<Rightarrow> bool" where
  "sys_inv Ms cm y s \<longleftrightarrow> rep (sy_world y) s \<and> served Ms cm s \<and> book Ms cm y (sp_queues s) (owner s) (dom (sp_fiber s)) \<and> locks_ok (sy_cur y) s"

lemma did_dom: "did s e s' \<Longrightarrow> dom (sp_fiber s') = dom (sp_fiber s)"
  by (rule flock_domI) (simp add: did_def)

text \<open>The call of a running fiber returns or suspends, and the books are right afterwards.\<close>

lemma sys_call:
  assumes v: "sys_inv Ms cm y s" and t: "sy_cur y t = x" "x \<noteq> NULL" and l: "legal Ms cm k (sy_holds y x)"
  obtains p w' s' where "perform k ((sy_world y)\<lparr>g_current_fiber := x\<rparr>) = Inr (p, w')" and "rep w' s'" and "served Ms cm s'" and "sp_self s' = x"
    and "\<And>z. flock s' z = flock s z"
    and "\<And>w. book Ms cm (if p = Suspended () then sy_suspend k t x w y else sy_return k x w y) (sp_queues s') (owner s') (dom (sp_fiber s))"
    and "p = Suspended () \<longleftrightarrow> fst (effect k x (sp_queues s) (owner s))" and "(sp_queues s', owner s') = snd (effect k x (sp_queues s) (owner s))"
proof -
  have r: "rep (sy_world y) s" and h: "served Ms cm s" and b: "book Ms cm y (sp_queues s) (owner s) (dom (sp_fiber s))"
    using v by (simp_all add: sys_inv_def)
  note p = book_running [OF b t]
  let ?s = "sp_current x s"
  have i: "idle ?s (sp_self ?s)" using p(2,3) t(2) by (auto simp: idle_def queued_def)
  have e: "entitled Ms cm k (sp_self ?s) (owner ?s)" using book_entitled [OF b t l] by simp
  obtain q w' s' where d: "perform k ((sy_world y)\<lparr>g_current_fiber := x\<rparr>) = Inr (q, w')" "rep w' s'" "served Ms cm s'"
    "did ?s (effect k x (sp_queues s) (owner s)) s'" "q = Suspended () \<longleftrightarrow> fst (effect k x (sp_queues s) (owner s))"
    by (rule perform_refines [OF rep_current_upd [OF r] _ i e]) (use h in \<open>simp_all add: served_current\<close>)
  have dq: "sp_queues s' = fst (snd (effect k x (sp_queues s) (owner s)))" "owner s' = snd (snd (effect k x (sp_queues s) (owner s)))"
    using d(4) by (simp_all add: did_def)
  have bk: "book Ms cm (if q = Suspended () then sy_suspend k t x w y else sy_return k x w y) (sp_queues s') (owner s') (dom (sp_fiber s))" for w
  proof (cases k)
    case (C_lock m)
    with l have m: "m \<in> Ms" by simp
    show ?thesis
      by (cases "owner s m = NULL")
        (use C_lock dq d(5) book_lock_busy [OF b t m] book_lock [OF b t m _ rep_apart [OF r]] in simp_all)
  next
    case (C_unlock m)
    obtain qs ow where hq: "handover m (sp_queues s) (owner s) = (qs, ow)" by force
    with C_unlock l dq d(5) show ?thesis using book_unlock [OF b t _ hq rep_apart [OF r]] by simp
  next
    case (C_wait c m)
    obtain qs ow where hq: "handover m ((sp_queues s)(Q_wait c := sp_queues s (Q_wait c) @ [x])) (owner s) = (qs, ow)" by force
    with C_wait l dq d(5) show ?thesis using book_wait [OF b t _ _ hq rep_apart [OF r]] by simp
  next
    case (C_broadcast c m)
    with l dq d(5) show ?thesis using book_broadcast [OF b t] by simp
  qed
  show thesis by (rule that [OF d(1-3) _ _ bk d(5)]) (use d(4) in \<open>simp_all add: did_def\<close>)
qed

text \<open>Letting a fiber go, and taking one.\<close>

lemma sys_leave:
  assumes r: "rep w s" and h: "served Ms cm s" and x: "sp_self s = x" "x \<noteq> NULL" and l: "flock s x \<noteq> None"
  obtains w' s' where "sched_leave w = Inr w'" and "rep w' s'" and "served Ms cm s'" and "sp_queues s' = sp_queues s" and "owner s' = owner s"
    and "\<And>z. flock s' z = (if z = x then Some 0 else flock s z)"
proof -
  have f: "sp_fiber s (sp_self s) \<noteq> None" "sp_self s \<noteq> NULL" using l x by (auto simp: flock_def)
  obtain w' where w': "sched_leave w = Inr w'" "rep w' (sp_mod_fiber (sp_self s) (\<lambda>f. f\<lparr>f_lock := 0\<rparr>) s)"
    by (rule leave_refines [OF r h f])
  show thesis by (rule that [OF w' served_mod_lock [OF h]]) (use x f in \<open>auto simp: flock_def option.map_comp o_def\<close>)
qed

lemma sys_take:
  assumes v: "sys_inv Ms cm y s" and t: "sy_cur y t = NULL"
  shows "(sp_queues s Q_ready = [] \<and> (\<exists>w. sched_next (sy_world y) = Inr (Sched_sleeps, w))) \<or>
    (\<exists>x xs w s'. sp_queues s Q_ready = x # xs \<and> sched_next (sy_world y) = Inr (Sched_runs, w) \<and> g_current_fiber w = x \<and> sys_inv Ms cm (sy_take t x w y) s' \<and>
      sp_queues s' = (sp_queues s)(Q_ready := xs) \<and> owner s' = owner s)"
proof -
  have r: "rep (sy_world y) s" and h: "served Ms cm s" and b: "book Ms cm y (sp_queues s) (owner s) (dom (sp_fiber s))"
    and lk: "locks_ok (sy_cur y) s"
    using v by (simp_all add: sys_inv_def)
  note k = lk [unfolded locks_ok_def, rule_format]
  have free: "f_lock f = 0" if "sp_queues s Q_ready = x # xs" "sp_fiber s x = Some f" for x xs f
  proof -
    have "x \<in> queued (sp_queues s)" "x \<noteq> NULL" using that(1) rep_member [OF r, of x Q_ready] queuedI [of x "sp_queues s" Q_ready] by auto
    then have "\<not> (\<exists>t. sy_cur y t = x)" using book_cur [OF b] by auto
    then show ?thesis using k [of x "f_lock f"] \<open>x \<noteq> NULL\<close> that(2) by (simp add: flock_def)
  qed
  have st: "\<not> stopping s" using h by (simp add: served_def)
  have "wp (sched_next (sy_world y)) (yields (sp_sched_next s))" by (rule sched_next_refines [OF r]) (rule free)
  then obtain w where w: "sched_next (sy_world y) = Inr (fst (sp_sched_next s), w)" "rep w (snd (sp_sched_next s))" by (auto simp: wp_yields)
  show ?thesis
  proof (cases "sp_queues s Q_ready")
    case Nil
    then show ?thesis using w(1) st by (simp add: sp_sched_next_def)
  next
    case (Cons x xs)
    let ?s = "sp_mod_fiber x (\<lambda>f. f\<lparr>f_lock := 1\<rparr>) (sp_current x (sp_deq Q_ready s))"
    have s': "sp_sched_next s = (Sched_runs, ?s)" using Cons st by (simp add: sp_sched_next_def)
    obtain f where f: "sp_fiber s x = Some f" "x \<noteq> NULL" using rep_member [OF r, of x Q_ready] Cons by auto
    have d: "dom (sp_fiber ?s) = dom (sp_fiber s)" using f by (auto split: if_splits)
    have q: "sp_queues ?s = (sp_queues s)(Q_ready := xs)" using Cons by simp
    have "served Ms cm ?s" by (rule served_mod_lock) (simp add: served_current served_deq_ready [OF h])
    moreover have "book Ms cm (sy_take t x w y) (sp_queues ?s) (owner ?s) (dom (sp_fiber ?s))"
      unfolding q d owner_simps by (rule book_take [OF b t Cons rep_apart [OF r]]) (use f in auto)
    moreover have "locks_ok (sy_cur (sy_take t x w y)) ?s"
      unfolding locks_ok_def
    proof (intro allI impI)
      fix z l
      assume that: "z \<noteq> NULL" "flock ?s z = Some l"
      show "l = (if \<exists>u. sy_cur (sy_take t x w y) u = z then 1 else 0)"
    proof (cases "z = x")
      case False
      then have "(\<exists>u. sy_cur (sy_take t x w y) u = z) \<longleftrightarrow> (\<exists>u. sy_cur y u = z)" using t that(1) by (auto simp: sy_take_def)
      then show ?thesis using k [OF that(1), of l] that(2) False by (simp add: flock_def)
    qed (use that(2) f in \<open>auto simp: flock_def sy_take_def\<close>)
    qed
    moreover have "g_current_fiber w = x" using rep_current [OF w(2)] s' by simp
    ultimately have "g_current_fiber w = x" "sys_inv Ms cm (sy_take t x w y) ?s" using w(2) s' by (simp_all add: sys_inv_def sy_take_def)
    moreover have "owner ?s = owner s" by simp
    ultimately show ?thesis using w(1) Cons s' q by (intro disjI2 exI [of _ x] exI [of _ xs] exI [of _ w] exI [of _ ?s]) simp
  qed
qed

lemma suspend_cur:
  assumes b: "book Ms cm y qs ow alive" and t: "sy_cur y t = x" "x \<noteq> NULL" and z: "z \<noteq> NULL"
  shows "(\<exists>u. sy_cur (sy_suspend k t x w y) u = z) \<longleftrightarrow> z \<noteq> x \<and> (\<exists>u. sy_cur y u = z)"
proof
  assume "\<exists>u. sy_cur (sy_suspend k t x w y) u = z"
  then obtain u where u: "u \<noteq> t" "sy_cur y u = z" using z by (auto simp: sy_suspend_def split: if_splits)
  moreover have "z \<noteq> x" using book_thread [OF b, of u t] u t by metis
  ultimately show "z \<noteq> x \<and> (\<exists>u. sy_cur y u = z)" by blast
next
  assume "z \<noteq> x \<and> (\<exists>u. sy_cur y u = z)"
  then obtain u where "z \<noteq> x" "sy_cur y u = z" by blast
  then have "sy_cur (sy_suspend k t x w y) u = z" using t by (auto simp: sy_suspend_def)
  then show "\<exists>u. sy_cur (sy_suspend k t x w y) u = z" ..
qed

text \<open>A call that returns, and one that suspends.\<close>

lemma sys_returns:
  assumes v: "sys_inv Ms cm y s" and t: "sy_cur y t = x" "x \<noteq> NULL" and l: "legal Ms cm k (sy_holds y x)"
    and e: "effect k x (sp_queues s) (owner s) = (False, qs, ow)"
  obtains n w s' where "perform k ((sy_world y)\<lparr>g_current_fiber := x\<rparr>) = Inr (Returned n, w)" and "sys_inv Ms cm (sy_return k x w y) s'"
    and "sp_queues s' = qs" and "owner s' = ow"
proof -
  obtain p w s' where c: "perform k ((sy_world y)\<lparr>g_current_fiber := x\<rparr>) = Inr (p, w)" "rep w s'" "served Ms cm s'" "sp_self s' = x"
    "\<And>z. flock s' z = flock s z" "p = Suspended () \<longleftrightarrow> fst (effect k x (sp_queues s) (owner s))" "(sp_queues s', owner s') = snd (effect k x (sp_queues s) (owner s))"
    and b: "\<And>w. book Ms cm (if p = Suspended () then sy_suspend k t x w y else sy_return k x w y) (sp_queues s') (owner s') (dom (sp_fiber s))"
    by (rule sys_call [OF v t l]) blast
  obtain n where n: "p = Returned n" using c(6) e by (cases p) auto
  have "dom (sp_fiber s') = dom (sp_fiber s)" by (rule flock_domI) (simp add: c(5))
  then have "sys_inv Ms cm (sy_return k x w y) s'"
    using c(2,3) b [of w] n locks_ok_cong [OF c(5)] v by (simp add: sys_inv_def sy_return_def)
  then show thesis using that c(1,7) n e by auto
qed

lemma sys_suspends:
  assumes v: "sys_inv Ms cm y s" and t: "sy_cur y t = x" "x \<noteq> NULL" and l: "legal Ms cm k (sy_holds y x)"
    and e: "effect k x (sp_queues s) (owner s) = (True, qs, ow)"
  obtains w w' s' where "perform k ((sy_world y)\<lparr>g_current_fiber := x\<rparr>) = Inr (Suspended (), w)" and "sched_leave w = Inr w'"
    and "sys_inv Ms cm (sy_suspend k t x w' y) s'" and "sp_queues s' = qs" and "owner s' = ow"
proof -
  obtain p w s' where c: "perform k ((sy_world y)\<lparr>g_current_fiber := x\<rparr>) = Inr (p, w)" "rep w s'" "served Ms cm s'" "sp_self s' = x"
    "\<And>z. flock s' z = flock s z" "p = Suspended () \<longleftrightarrow> fst (effect k x (sp_queues s) (owner s))" "(sp_queues s', owner s') = snd (effect k x (sp_queues s) (owner s))"
    and bk: "\<And>w. book Ms cm (if p = Suspended () then sy_suspend k t x w y else sy_return k x w y) (sp_queues s') (owner s') (dom (sp_fiber s))"
    by (rule sys_call [OF v t l]) blast
  have p: "p = Suspended ()" using c(6) e by simp
  have b: "book Ms cm y (sp_queues s) (owner s) (dom (sp_fiber s))" using v by (simp add: sys_inv_def)
  have n: "flock s x \<noteq> None" using book_running(2) [OF b t] by (simp add: flock_dom)
  obtain u s2 where u: "sched_leave w = Inr u" "rep u s2" "served Ms cm s2" "sp_queues s2 = sp_queues s'" "owner s2 = owner s'"
    "\<And>z. flock s2 z = (if z = x then Some 0 else flock s' z)"
    by (rule sys_leave [OF c(2-4) t(2)]) (use n c(5) in auto)
  have "dom (sp_fiber s2) = dom (sp_fiber s)" by (rule flock_domI) (use n in \<open>auto simp: u(6) c(5)\<close>)
  moreover have "locks_ok (sy_cur (sy_suspend k t x u y)) s2"
    unfolding locks_ok_def
  proof (intro allI impI)
    fix z l
    assume z: "z \<noteq> NULL" "flock s2 z = Some l"
    show "l = (if \<exists>v. sy_cur (sy_suspend k t x u y) v = z then 1 else 0)"
      unfolding suspend_cur [OF b t z(1)] using z u(6) [of z] c(5) [of z] v by (auto simp: sys_inv_def locks_ok_def split: if_splits)
  qed
  ultimately have "sys_inv Ms cm (sy_suspend k t x u y) s2"
    using u bk [of u] p by (simp add: sys_inv_def sy_suspend_def)
  then show thesis using that c(1,7) p u e by auto
qed

text \<open>The effect of a step on the queues and owners: that of a call, or of taking a ready fiber.\<close>

lemma sys_step_effect:
  assumes "sys_step Ms cm y y'" and "sys_inv Ms cm y s"
  obtains s' where "sys_inv Ms cm y' s'"
    and "(\<exists>k x. x \<noteq> NULL \<and> legal Ms cm k (sy_holds y x) \<and> (sp_queues s', owner s') = snd (effect k x (sp_queues s) (owner s))) \<or>
      (\<exists>x xs. sp_queues s Q_ready = x # xs \<and> sp_queues s' = (sp_queues s)(Q_ready := xs) \<and> owner s' = owner s)"
  using assms
proof (induction rule: sys_step.induct)
  case (returns y t x k n w)
  obtain b qs ow where e: "effect k x (sp_queues s) (owner s) = (b, qs, ow)" by (cases "effect k x (sp_queues s) (owner s)")
  show ?case
  proof (cases b)
    case True
    with e have e': "effect k x (sp_queues s) (owner s) = (True, qs, ow)" by simp
    show ?thesis by (rule sys_suspends [OF returns.prems(2) returns.hyps(1-3) e']) (use returns.hyps(4) in auto)
  next
    case False
    with e have e': "effect k x (sp_queues s) (owner s) = (False, qs, ow)" by simp
    show ?thesis
      by (rule sys_returns [OF returns.prems(2) returns.hyps(1-3) e'], rule returns.prems(1))
        (use returns.hyps(2-4) e' in \<open>auto intro!: disjI1 exI [of _ k] exI [of _ x]\<close>)
  qed
next
  case (suspends y t x k w w')
  obtain b qs ow where e: "effect k x (sp_queues s) (owner s) = (b, qs, ow)" by (cases "effect k x (sp_queues s) (owner s)")
  show ?case
  proof (cases b)
    case True
    with e have e': "effect k x (sp_queues s) (owner s) = (True, qs, ow)" by simp
    show ?thesis
      by (rule sys_suspends [OF suspends.prems(2) suspends.hyps(1-3) e'], rule suspends.prems(1))
        (use suspends.hyps(2-5) e' in \<open>auto intro!: disjI1 exI [of _ k] exI [of _ x]\<close>)
  next
    case False
    with e have e': "effect k x (sp_queues s) (owner s) = (False, qs, ow)" by simp
    show ?thesis by (rule sys_returns [OF suspends.prems(2) suspends.hyps(1-3) e']) (use suspends.hyps(4) in auto)
  qed
next
  case (takes y t w)
  from sys_take [OF takes.prems(2) takes.hyps(1)] takes.hyps(2) obtain x xs s' where "sp_queues s Q_ready = x # xs"
    "sys_inv Ms cm (sy_take t (g_current_fiber w) w y) s'" "sp_queues s' = (sp_queues s)(Q_ready := xs)" "owner s' = owner s" by auto
  then show ?case using takes.prems(1) by blast
qed

lemma sys_step_inv:
  assumes "sys_step Ms cm y y'" and "sys_inv Ms cm y s"
  shows "\<exists>s'. sys_inv Ms cm y' s'"
  by (rule sys_step_effect [OF assms]) blast

end
