(* ===== verification/Melon_System_Properties.thy ===== *)
theory Melon_System_Properties
  imports Melon_System
begin

text \<open>
  What holds in every state that any number of fibers and threads can reach (the step
  relation of \<open>Melon_System\<close>), and a run as an instance.
\<close>

section \<open>Reachable states\<close>

text \<open>
  At the start no thread has a fiber, every fiber is ready, no mutex is held. The fibers
  of a \<open>fresh_start\<close> are those that \<^verbatim>\<open>melon_fiber_start\<close> has queued.
\<close>

definition sys_start :: "world \<Rightarrow> sys" where
  "sys_start w = \<lparr>sy_world = w, sy_cur = \<lambda>_. NULL, sy_pend = \<lambda>_. None, sy_holds = \<lambda>_. {}\<rparr>"

definition fresh_start :: "ptr set \<Rightarrow> (ptr \<rightharpoonup> ptr) \<Rightarrow> world \<Rightarrow> spec \<Rightarrow> bool" where
  "fresh_start Ms cm w s \<longleftrightarrow> rep w s \<and> served Ms cm s \<and> (\<forall>q. q \<noteq> Q_ready \<longrightarrow> sp_queues s q = []) \<and> (\<forall>m \<in> Ms. owner s m = NULL) \<and>
     (\<forall>x f. sp_fiber s x = Some f \<longrightarrow> x \<noteq> NULL \<longrightarrow> x \<in> set (sp_queues s Q_ready) \<and> f_lock f = 0)"

abbreviation sys_reach :: "ptr set \<Rightarrow> (ptr \<rightharpoonup> ptr) \<Rightarrow> world \<Rightarrow> sys \<Rightarrow> bool" where
  "sys_reach Ms cm w \<equiv> (sys_step Ms cm)\<^sup>*\<^sup>* (sys_start w)"

lemma sys_inv_start:
  assumes f: "fresh_start Ms cm w s"
  shows "sys_inv Ms cm (sys_start w) s"
proof -
  have r: "rep w s" "served Ms cm s" using f by (simp_all add: fresh_start_def)
  have q: "q = Q_ready" if "x \<in> set (sp_queues s q)" for x q using f that unfolding fresh_start_def by (metis empty_iff list.set(1))
  have "book Ms cm (sys_start w) (sp_queues s) (owner s) (dom (sp_fiber s))"
  proof (rule bookI)
    show "(\<exists>t. sy_cur (sys_start w) t = z) \<or> z \<in> queued (sp_queues s)" if "z \<in> dom (sp_fiber s)" "z \<noteq> NULL" for z
    proof -
      have "z \<in> set (sp_queues s Q_ready)" using f that by (auto simp: fresh_start_def)
      then show ?thesis using queuedI by blast
    qed
    show "queued_right Ms cm (sy_pend (sys_start w) z) (owner s) z q" if "z \<in> set (sp_queues s q)" for z q
      using q [OF that] by (simp add: sys_start_def)
    show "queued (sp_queues s) \<subseteq> dom (sp_fiber s)" using rep_member [OF r(1)] by (auto simp: queued_def)
  qed (use f in \<open>auto simp: sys_start_def fresh_start_def\<close>)
  moreover have "locks_ok (sy_cur (sys_start w)) s" using f by (auto simp: locks_ok_def flock_def sys_start_def fresh_start_def)
  ultimately show ?thesis using r by (simp add: sys_inv_def sys_start_def)
qed

lemma sys_reach_inv:
  assumes "sys_reach Ms cm w y" and "fresh_start Ms cm w s"
  obtains s' where "sys_inv Ms cm y s'"
proof -
  from assms(1) have "\<exists>s'. sys_inv Ms cm y s'"
    by (induction rule: rtranclp_induct) (use sys_inv_start [OF assms(2)] sys_step_inv in blast)+
  then show thesis using that by blast
qed

section \<open>Properties\<close>

text \<open>
  C1: Mutual exclusion among any number of fibers and threads, whatever they call and in
  whatever order: when a lock or a wait has returned to a fiber, the mutex is owned by it,
  with a count of one, until it unlocks or waits. No two fibers have the same mutex.
\<close>

theorem system_mutual_exclusion:
  assumes f: "fresh_start Ms cm w s" and y: "sys_reach Ms cm w y" and a: "a \<noteq> NULL" "m \<in> sy_holds y a"
  shows "(\<exists>z. mutexes (sy_world y) m = Some z \<and> m_owner z = a \<and> m_lock_count z = 1) \<and> (\<forall>b. b \<noteq> NULL \<longrightarrow> m \<in> sy_holds y b \<longrightarrow> b = a)"
proof -
  obtain s' where v: "sys_inv Ms cm y s'" by (rule sys_reach_inv [OF y f])
  have b: "book Ms cm y (sp_queues s') (owner s') (dom (sp_fiber s'))" and r: "rep (sy_world y) s'" and h: "served Ms cm s'"
    using v by (simp_all add: sys_inv_def)
  have m: "m \<in> Ms" "owner s' m = a" using a book_holds [OF b a(1)] by auto
  obtain ow lq n where z: "sp_mutex s' m = Some \<lparr>m_lock = 0, m_owner = ow, m_lock_queue = lq, m_lock_count = n, m_is_recursive = 0\<rparr>"
    "n = (if ow = NULL then 0 else 1)" "owner s' m = ow" by (rule monitorE [OF served_monitor [OF h m(1)]])
  obtain x where x: "mutexes (sy_world y) m = Some x" "\<lparr>m_lock = 0, m_owner = ow, m_lock_queue = lq, m_lock_count = n, m_is_recursive = 0\<rparr> = bare_mutex x"
    using rep_mutexE [OF r z(1)] by blast
  have "m_owner (bare_mutex x) = a" "m_lock_count (bare_mutex x) = 1" unfolding x(2) [symmetric] using z(2,3) m(2) a(1) by auto
  then have "m_owner x = a" "m_lock_count x = 1" by (simp_all add: bare_mutex_def)
  moreover have "b = a" if "b \<noteq> NULL" "m \<in> sy_holds y b" for b using that book_holds [OF b that(1)] m(2) by auto
  ultimately show ?thesis using x(1) by blast
qed

text \<open>
  C2: No call of a running fiber that keeps the rules ever fails, in any reachable state: no
  assertion, no NULL or dangling pointer, no endless loop, in the call itself, in what the
  thread does when the fiber is suspended, and when a thread looks for the next fiber.
\<close>

theorem system_never_faults:
  assumes f: "fresh_start Ms cm w s" and y: "sys_reach Ms cm w y"
  shows "(\<forall>t k. sy_cur y t \<noteq> NULL \<longrightarrow> legal Ms cm k (sy_holds y (sy_cur y t)) \<longrightarrow>
      (\<exists>n w'. perform k ((sy_world y)\<lparr>g_current_fiber := sy_cur y t\<rparr>) = Inr (Returned n, w')) \<or>
      (\<exists>w' w2. perform k ((sy_world y)\<lparr>g_current_fiber := sy_cur y t\<rparr>) = Inr (Suspended (), w') \<and> sched_leave w' = Inr w2)) \<and>
    (\<forall>t. sy_cur y t = NULL \<longrightarrow> (\<exists>r w'. sched_next (sy_world y) = Inr (r, w') \<and> r \<noteq> Sched_stopped))"
proof -
  obtain s' where v: "sys_inv Ms cm y s'" by (rule sys_reach_inv [OF y f])
  have b: "book Ms cm y (sp_queues s') (owner s') (dom (sp_fiber s'))" using v by (simp add: sys_inv_def)
  have "(\<exists>n w'. perform k ((sy_world y)\<lparr>g_current_fiber := sy_cur y t\<rparr>) = Inr (Returned n, w')) \<or>
      (\<exists>w' w2. perform k ((sy_world y)\<lparr>g_current_fiber := sy_cur y t\<rparr>) = Inr (Suspended (), w') \<and> sched_leave w' = Inr w2)"
    if k: "sy_cur y t \<noteq> NULL" "legal Ms cm k (sy_holds y (sy_cur y t))" for t k
  proof -
    obtain p u z where c: "perform k ((sy_world y)\<lparr>g_current_fiber := sy_cur y t\<rparr>) = Inr (p, u)" "rep u z" "served Ms cm z" "sp_self z = sy_cur y t"
      "\<And>x. flock z x = flock s' x"
      by (rule sys_call [OF v refl k]) blast
    have l: "flock z (sy_cur y t) \<noteq> None" using c(5) book_running(2) [OF b refl k(1)] by (simp add: flock_dom)
    obtain u' where "sched_leave u = Inr u'" by (rule sys_leave [OF c(2-4) k(1) l]) blast
    then show ?thesis using c(1) by (cases p) auto
  qed
  moreover have "\<exists>r w'. sched_next (sy_world y) = Inr (r, w') \<and> r \<noteq> Sched_stopped" if "sy_cur y t = NULL" for t
    using sys_take [OF v that] by auto
  ultimately show ?thesis by blast
qed

text \<open>
  C3: No fiber is lost: in every reachable state each fiber runs on a thread, is ready,
  waits for a mutex that another fiber owns, or waits on a condition; and the representation
  of the queues is intact.
\<close>

theorem system_no_fiber_lost:
  assumes f: "fresh_start Ms cm w s" and y: "sys_reach Ms cm w y"
  shows "\<exists>s'. rep (sy_world y) s' \<and> mutexes_ok s' \<and> (\<forall>x. x \<noteq> NULL \<longrightarrow> fibers (sy_world y) x \<noteq> None \<longrightarrow>
    (\<exists>t. sy_cur y t = x) \<or> x \<in> set (sp_queues s' Q_ready) \<or>
    (\<exists>m \<in> Ms. x \<in> set (sp_queues s' (Q_lock m)) \<and> owner s' m \<notin> {NULL, x}) \<or> (\<exists>c m. cm c = Some m \<and> x \<in> set (sp_queues s' (Q_wait c))))"
proof -
  obtain s' where v: "sys_inv Ms cm y s'" by (rule sys_reach_inv [OF y f])
  have b: "book Ms cm y (sp_queues s') (owner s') (dom (sp_fiber s'))" and r: "rep (sy_world y) s'" and h: "served Ms cm s'"
    using v by (simp_all add: sys_inv_def)
  have ok: "mutexes_ok s'" using h by (simp add: served_def)
  have "(\<exists>t. sy_cur y t = x) \<or> x \<in> set (sp_queues s' Q_ready) \<or>
    (\<exists>m \<in> Ms. x \<in> set (sp_queues s' (Q_lock m)) \<and> owner s' m \<notin> {NULL, x}) \<or> (\<exists>c m. cm c = Some m \<and> x \<in> set (sp_queues s' (Q_wait c)))"
    if x: "x \<noteq> NULL" "fibers (sy_world y) x \<noteq> None" for x
  proof -
    have "x \<in> dom (sp_fiber s')" using x(2) r by (auto simp: rep_def erase_def cores_def)
    then consider t where "sy_cur y t = x" | q where "x \<in> set (sp_queues s' q)" using book_alive [OF b _ x(1)] by (auto simp: queued_def)
    then show ?thesis
    proof cases
      case (2 q)
      note q = book_queued [OF b 2]
      show ?thesis
      proof (cases q)
        case (Q_lock m)
        with q have m: "m \<in> Ms" by simp
        then obtain z where z: "sp_mutex s' m = Some z" using h by (auto simp: served_def)
        from mutexes_okD [OF ok z] 2 Q_lock have "owner s' m \<notin> {NULL, x}" by (auto simp: owner_def z mutex_ok_def)
        with 2 Q_lock m show ?thesis by blast
      qed (use q 2 in auto)
    qed blast
  qed
  then show ?thesis using r ok by blast
qed

text \<open>
  C4: With one mutex, and conditions that use it, the fibers cannot block each other: while
  a fiber waits for the mutex, some thread runs a fiber, or any free thread finds one.
\<close>

theorem system_not_stuck:
  assumes f: "fresh_start {m} cm w s" and y: "sys_reach {m} cm w y"
    and z: "mutexes (sy_world y) m = Some z" "m_lock_queue z \<noteq> NULL" and t: "\<And>t. sy_cur y t = NULL"
  shows "\<exists>w' y'. sched_next (sy_world y) = Inr (Sched_runs, w') \<and> sys_step {m} cm y y'"
proof -
  obtain s' where v: "sys_inv {m} cm y s'" by (rule sys_reach_inv [OF y f])
  have b: "book {m} cm y (sp_queues s') (owner s') (dom (sp_fiber s'))" and r: "rep (sy_world y) s'" and h: "served {m} cm s'"
    using v by (simp_all add: sys_inv_def)
  obtain z' where z': "sp_mutex s' m = Some z'" using h by (auto simp: served_def)
  have "sp_queues s' (Q_lock m) \<noteq> []" using qrep_NULL_iff [OF rep_qrep [OF r], of "Q_lock m"] z by simp
  moreover have "mutex_ok z' (sp_queues s' (Q_lock m))" by (rule mutexes_okD [OF _ z']) (use h in \<open>simp add: served_def\<close>)
  ultimately have a: "owner s' m \<noteq> NULL" "owner s' m \<notin> set (sp_queues s' (Q_lock m))" using z' by (auto simp: mutex_ok_def owner_def)
  have "owner s' m \<in> dom (sp_fiber s')" using book_owner [OF b _ a(1)] by simp
  then have "owner s' m \<in> queued (sp_queues s')" using book_alive [OF b _ a(1)] t a(1) by auto
  then obtain q where q: "owner s' m \<in> set (sp_queues s' q)" by (auto simp: queued_def)
  have "q = Q_ready"
  proof (cases q)
    case (Q_lock n)
    then show ?thesis using book_queued [OF b q] q a(2) by simp
  next
    case (Q_wait c)
    with book_queued [OF b q] obtain n where n: "cm c = Some n" by auto
    then have "n = m" using h by (auto simp: served_def)
    then show ?thesis using book_waits [OF b n, of "owner s' m"] q Q_wait by simp
  qed (use book_queued [OF b q] in simp_all)
  then have "sp_queues s' Q_ready \<noteq> []" using q by auto
  then obtain w' where w': "sched_next (sy_world y) = Inr (Sched_runs, w')" using sys_take [OF v t] by auto
  then show ?thesis using sys_step.takes [OF t w'] by blast
qed

section \<open>A run\<close>

text \<open>The three fibers of the example are ready; they share the mutex 10 and the condition 20.\<close>

definition ex_team :: spec where
  "ex_team = sp_ready 3 (sp_ready 2 (sp_ready 1 (abs0 ex_world)))"

lemma ex_team_simps [simp]:
  "sp_queues ex_team = (\<lambda>q. [])(Q_ready := [1, 2, 3])" "sp_mutex ex_team = mutexes ex_world" "sp_cond ex_team = conds ex_world"
  "sp_timers ex_team = []" "g_stop (g_melon (sp_world ex_team)) = 0"
  "sp_fiber ex_team = [1 \<mapsto> a_fiber, 2 \<mapsto> a_fiber, 3 \<mapsto> a_fiber]"
  using ex_stop by (auto simp: ex_team_def fun_eq_iff a_fiber_def)

lemma ex_team_start: "\<exists>w. fresh_start {10} [20 \<mapsto> 10] w ex_team"
proof -
  obtain w1 where w1: "rep w1 (sp_ready 1 (abs0 ex_world))" using sched_ready_refines [OF rep_ex_world idle_ex_world [of 1]] by auto
  have i2: "idle (sp_ready 1 (abs0 ex_world)) 2" by (auto simp: idle_def)
  obtain w2 where w2: "rep w2 (sp_ready 2 (sp_ready 1 (abs0 ex_world)))" using sched_ready_refines [OF w1 i2] by auto
  have i3: "idle (sp_ready 2 (sp_ready 1 (abs0 ex_world))) 3" by (auto simp: idle_def)
  obtain w where w: "rep w ex_team" using sched_ready_refines [OF w2 i3] by (auto simp: ex_team_def)
  have "mutexes_ok ex_team" using ex_ok(1) by (simp add: mutexes_ok_def mutex_ok_def)
  moreover have "conds ex_world 20 = Some \<lparr>c_lock = 0, c_wait_queue = NULL\<rparr>" by (simp add: ex_world_def)
  ultimately have "served {10} [20 \<mapsto> 10] ex_team" by (auto simp: served_def ex_mutexes a_fiber_def NULL_def split: if_splits)
  with w show ?thesis by (auto simp: fresh_start_def owner_def ex_mutexes a_fiber_def split: if_splits)
qed

lemma sys_inv_take:
  assumes v: "sys_inv Ms cm y s" and t: "sy_cur y t = NULL" and q: "sp_queues s Q_ready = x # xs" and y: "sys_reach Ms cm w0 y"
  obtains w s' where "sys_reach Ms cm w0 (sy_take t x w y)" and "sys_inv Ms cm (sy_take t x w y) s'" and "sp_queues s' = (sp_queues s)(Q_ready := xs)" and "owner s' = owner s"
proof -
  obtain w s' where w: "sched_next (sy_world y) = Inr (Sched_runs, w)" "g_current_fiber w = x" "sys_inv Ms cm (sy_take t x w y) s'"
    "sp_queues s' = (sp_queues s)(Q_ready := xs)" "owner s' = owner s" using sys_take [OF v t] q by auto
  have "sys_step Ms cm y (sy_take t x w y)" using sys_step.takes [OF t w(1), of Ms cm] w(2) by simp
  with y have "sys_reach Ms cm w0 (sy_take t x w y)" by (rule rtranclp.rtrancl_into_rtrancl)
  then show thesis using that w by blast
qed

lemma sys_inv_return:
  assumes v: "sys_inv Ms cm y s" and t: "sy_cur y t = x" "x \<noteq> NULL" and l: "legal Ms cm k (sy_holds y x)"
    and e: "effect k x (sp_queues s) (owner s) = (False, qs, ow)" and y: "sys_reach Ms cm w0 y"
  obtains w s' where "sys_reach Ms cm w0 (sy_return k x w y)" and "sys_inv Ms cm (sy_return k x w y) s'" and "sp_queues s' = qs" and "owner s' = ow"
  by (rule sys_returns [OF v t l e]) (metis rtranclp.rtrancl_into_rtrancl [OF y] sys_step.returns [OF t l])

lemma sys_inv_suspend:
  assumes v: "sys_inv Ms cm y s" and t: "sy_cur y t = x" "x \<noteq> NULL" and l: "legal Ms cm k (sy_holds y x)"
    and e: "effect k x (sp_queues s) (owner s) = (True, qs, ow)" and y: "sys_reach Ms cm w0 y"
  obtains w s' where "sys_reach Ms cm w0 (sy_suspend k t x w y)" and "sys_inv Ms cm (sy_suspend k t x w y) s'" and "sp_queues s' = qs" and "owner s' = ow"
  by (rule sys_suspends [OF v t l e]) (metis rtranclp.rtrancl_into_rtrancl [OF y] sys_step.suspends [OF t l])

text \<open>
  Fiber 1 takes the mutex on thread 0; fibers 2 and 3 ask for it one after the other on
  thread 1; then fiber 1 waits on the condition.
\<close>

lemma ex_team_run:
  obtains w y s' z s2 where "fresh_start {10} [20 \<mapsto> 10] w ex_team" and "sys_reach {10} [20 \<mapsto> 10] w y" and "sys_inv {10} [20 \<mapsto> 10] y s'"
    and "sy_cur y 0 = 1" "sy_holds y 1 = {10}" "sy_cur y 1 = 3" and "sp_queues s' (Q_lock 10) = [2]"
    and "sys_reach {10} [20 \<mapsto> 10] w z" and "sys_inv {10} [20 \<mapsto> 10] z s2" and "\<And>t. sy_cur z t = NULL" and "sp_queues s2 (Q_lock 10) = [3]"
proof -
  let ?M = "{10}" and ?c = "[20 \<mapsto> 10]"
  note d = sy_take_def sy_return_def sy_suspend_def sys_start_def NULL_def handover_def
  have o: "owner ex_team 10 = NULL" by (simp add: owner_def ex_mutexes)
  obtain w where w: "fresh_start ?M ?c w ex_team" using ex_team_start ..
  let ?y = "sys_start w"
  obtain w1 s1 where 1: "sys_reach ?M ?c w (sy_take 0 1 w1 ?y)" "sys_inv ?M ?c (sy_take 0 1 w1 ?y) s1"
    "sp_queues s1 = (sp_queues ex_team)(Q_ready := [2, 3])" "owner s1 = owner ex_team"
    by (rule sys_inv_take [OF sys_inv_start [OF w] _ _ rtranclp.rtrancl_refl, where t = 0 and x = 1 and xs = "[2, 3]"]) (simp_all add: sys_start_def)
  let ?y1 = "sy_take 0 1 w1 ?y"
  obtain w2 s2 where 2: "sys_reach ?M ?c w (sy_return (C_lock 10) 1 w2 ?y1)" "sys_inv ?M ?c (sy_return (C_lock 10) 1 w2 ?y1) s2"
    "sp_queues s2 = sp_queues s1" "owner s2 = (owner s1)(10 := 1)"
    by (rule sys_inv_return [OF 1(2), of 0 1 "C_lock 10", OF _ _ _ _ 1(1)]) (simp_all add: d o 1(4))
  let ?y2 = "sy_return (C_lock 10) 1 w2 ?y1"
  obtain w3 s3 where 3: "sys_reach ?M ?c w (sy_take 1 2 w3 ?y2)" "sys_inv ?M ?c (sy_take 1 2 w3 ?y2) s3"
    "sp_queues s3 = (sp_queues s2)(Q_ready := [3])" "owner s3 = owner s2"
    by (rule sys_inv_take [OF 2(2), of 1 2 "[3]", OF _ _ 2(1)]) (simp_all add: d 2 1(3))
  let ?y3 = "sy_take 1 2 w3 ?y2"
  obtain w4 s4 where 4: "sys_reach ?M ?c w (sy_suspend (C_lock 10) 1 2 w4 ?y3)" "sys_inv ?M ?c (sy_suspend (C_lock 10) 1 2 w4 ?y3) s4"
    "sp_queues s4 = (sp_queues s3)(Q_lock 10 := sp_queues s3 (Q_lock 10) @ [2])" "owner s4 = owner s3"
    by (rule sys_inv_suspend [OF 3(2), of 1 2 "C_lock 10", OF _ _ _ _ 3(1)]) (simp_all add: d 3(4) 2(4))
  let ?y4 = "sy_suspend (C_lock 10) 1 2 w4 ?y3"
  obtain w5 s5 where 5: "sys_reach ?M ?c w (sy_take 1 3 w5 ?y4)" "sys_inv ?M ?c (sy_take 1 3 w5 ?y4) s5"
    "sp_queues s5 = (sp_queues s4)(Q_ready := [])" "owner s5 = owner s4"
    by (rule sys_inv_take [OF 4(2), of 1 3 "[]", OF _ _ 4(1)]) (simp_all add: d 4(3) 3(3))
  let ?y5 = "sy_take 1 3 w5 ?y4"
  obtain w6 s6 where 6: "sys_reach ?M ?c w (sy_suspend (C_lock 10) 1 3 w6 ?y5)" "sys_inv ?M ?c (sy_suspend (C_lock 10) 1 3 w6 ?y5) s6"
    "sp_queues s6 = (sp_queues s5)(Q_lock 10 := sp_queues s5 (Q_lock 10) @ [3])" "owner s6 = owner s5"
    by (rule sys_inv_suspend [OF 5(2), of 1 3 "C_lock 10", OF _ _ _ _ 5(1)]) (simp_all add: d 5(4) 4(4) 3(4) 2(4))
  let ?y6 = "sy_suspend (C_lock 10) 1 3 w6 ?y5"
  obtain qs ow where h: "handover 10 ((sp_queues s6)(Q_wait 20 := sp_queues s6 (Q_wait 20) @ [1])) (owner s6) = (qs, ow)" by force
  obtain w7 s7 where 7: "sys_reach ?M ?c w (sy_suspend (C_wait 20 10) 0 1 w7 ?y6)" "sys_inv ?M ?c (sy_suspend (C_wait 20 10) 0 1 w7 ?y6) s7"
    "sp_queues s7 = qs"
    by (rule sys_inv_suspend [OF 6(2), of 0 1 "C_wait 20 10", OF _ _ _ _ 6(1)]) (use h in \<open>simp_all add: d\<close>)
  have "sp_queues s6 (Q_lock 10) = [2, 3]" by (simp add: 6(3) 5(3) 4(3) 3(3) 2(3) 1(3))
  then have "qs (Q_lock 10) = [3]" using h by (auto simp: handover_def)
  then show thesis by (intro that [OF w 5(1,2) _ _ _ _ 7(1,2)]) (simp_all add: 7(3) d 5(3) 4(3) 3(3) 2(3) 1(3))
qed

theorem system_mutual_exclusion_witness:
  "\<exists>w y z. sys_reach {10} [20 \<mapsto> 10] w y \<and> sy_cur y 1 = 3 \<and> mutexes (sy_world y) 10 = Some z \<and> m_owner z = 1 \<and> 10 \<notin> sy_holds y 3"
proof -
  obtain w y where y: "fresh_start {10} [20 \<mapsto> 10] w ex_team" "sys_reach {10} [20 \<mapsto> 10] w y" "sy_cur y 0 = 1" "sy_holds y 1 = {10}" "sy_cur y 1 = 3"
    by (rule ex_team_run)
  from system_mutual_exclusion [OF y(1,2), of 1 10] y(4) obtain z where "mutexes (sy_world y) 10 = Some z" "m_owner z = 1"
    and b: "\<And>b. b \<noteq> NULL \<Longrightarrow> 10 \<in> sy_holds y b \<Longrightarrow> b = 1" by (auto simp: NULL_def)
  moreover have "10 \<notin> sy_holds y 3" using b [of 3] by (auto simp: NULL_def)
  ultimately show ?thesis using y(2,5) by blast
qed

theorem system_never_faults_witness:
  "\<exists>w y w'. sys_reach {10} [20 \<mapsto> 10] w y \<and> perform (C_unlock 10) ((sy_world y)\<lparr>g_current_fiber := 1\<rparr>) = Inr (Returned 0, w')"
proof -
  obtain w y where y: "fresh_start {10} [20 \<mapsto> 10] w ex_team" "sys_reach {10} [20 \<mapsto> 10] w y" "sy_cur y 0 = 1" "sy_holds y 1 = {10}"
    by (rule ex_team_run)
  have "legal {10} [20 \<mapsto> 10] (C_unlock 10) (sy_holds y (sy_cur y 0))" "sy_cur y 0 \<noteq> NULL" using y(3,4) by (simp_all add: NULL_def)
  with system_never_faults [OF y(1,2)] y(3)
  have "(\<exists>n w'. perform (C_unlock 10) ((sy_world y)\<lparr>g_current_fiber := 1\<rparr>) = Inr (Returned n, w')) \<or>
      (\<exists>w' w2. perform (C_unlock 10) ((sy_world y)\<lparr>g_current_fiber := 1\<rparr>) = Inr (Suspended (), w') \<and> sched_leave w' = Inr w2)" by metis
  then obtain w' where "melon_mutex_unlock 10 ((sy_world y)\<lparr>g_current_fiber := 1\<rparr>) = Inr w'" by (auto simp: res_bind_def split: sum.splits)
  then have "perform (C_unlock 10) ((sy_world y)\<lparr>g_current_fiber := 1\<rparr>) = Inr (Returned 0, w')" by simp
  then show ?thesis using y(2) by blast
qed

theorem system_no_fiber_lost_witness:
  "\<exists>w y s'. sys_reach {10} [20 \<mapsto> 10] w y \<and> rep (sy_world y) s' \<and> mutexes_ok s'"
proof -
  obtain w y where y: "fresh_start {10} [20 \<mapsto> 10] w ex_team" "sys_reach {10} [20 \<mapsto> 10] w y" by (rule ex_team_run)
  from system_no_fiber_lost [OF this] y(2) show ?thesis by blast
qed

theorem system_not_stuck_witness:
  "\<exists>w y w'. sys_reach {10} [20 \<mapsto> 10] w y \<and> (\<forall>t. sy_cur y t = NULL) \<and> sched_next (sy_world y) = Inr (Sched_runs, w')"
proof -
  obtain w y s where y: "fresh_start {10} [20 \<mapsto> 10] w ex_team" "sys_reach {10} [20 \<mapsto> 10] w y" "sys_inv {10} [20 \<mapsto> 10] y s"
    "\<And>t. sy_cur y t = NULL" "sp_queues s (Q_lock 10) = [3]"
    by (rule ex_team_run) blast
  have r: "rep (sy_world y) s" "served {10} [20 \<mapsto> 10] s" using y(3) by (simp_all add: sys_inv_def)
  have "qhead (sy_world y) (Q_lock 10) \<noteq> NULL" using qrep_NULL_iff [OF rep_qrep [OF r(1)], of "Q_lock 10"] y(5) by simp
  then obtain z where "mutexes (sy_world y) 10 = Some z" "m_lock_queue z \<noteq> NULL" by (auto split: option.splits)
  from system_not_stuck [OF y(1,2) this y(4)] y(2,4) show ?thesis by blast
qed

end
