(* ===== verification/Melon_Fifo.thy ===== *)
theory Melon_Fifo
  imports Melon_System_Properties
begin

text \<open>
  The order in which fibers get a mutex. First, the queues that represent a state are
  determined by it; then, what one step and what a whole run of the system do to the
  queue of a mutex.
\<close>

section \<open>The queues of a state\<close>

lemma cyc_last:
  assumes "distinct (as @ xs)" and "as \<noteq> []"
  shows "cyc_succ (as @ xs) (last as) = (if xs = [] then hd as else hd xs)"
proof -
  obtain bs l where as: "as = bs @ [l]" using assms(2) by (cases as rule: rev_cases) auto
  then have "cyc_succ (bs @ l # xs) l = hd (xs @ bs @ [l])" using assms(1) by (intro cyc_succ_split) simp
  with as show ?thesis by (cases xs) simp_all
qed

lemma cycle_unique:
  assumes "distinct (as @ xs)" and "distinct (as @ ys)" and "as \<noteq> []"
    and "\<forall>x \<in> set (as @ xs). N x = Some (cyc_succ (as @ xs) x)" and "\<forall>y \<in> set (as @ ys). N y = Some (cyc_succ (as @ ys) y)"
  shows "xs = ys"
  using assms
proof (induction xs arbitrary: as ys)
  case Nil
  have "last as \<in> set as" using Nil.prems(3) by simp
  then have "cyc_succ (as @ []) (last as) = cyc_succ (as @ ys) (last as)" using Nil.prems(4,5) by (metis UnCI option.inject set_append)
  then show ?case using cyc_last [of as "[]"] cyc_last [OF Nil.prems(2,3)] Nil.prems(1-3) by (cases ys) auto
next
  case (Cons x xs)
  have l: "last as \<in> set as" using Cons.prems(3) by simp
  then have "cyc_succ (as @ x # xs) (last as) = cyc_succ (as @ ys) (last as)" using Cons.prems(4,5) by (metis UnCI option.inject set_append)
  then have n: "x = (if ys = [] then hd as else hd ys)" using cyc_last [OF Cons.prems(1,3)] cyc_last [OF Cons.prems(2,3)] by simp
  have "ys \<noteq> []" using n Cons.prems(1,3) hd_in_set [of as] by auto
  then obtain zs where ys: "ys = x # zs" using n by (cases ys) simp_all
  have "xs = zs" by (rule Cons.IH [of "as @ [x]"]) (use Cons.prems ys in simp_all)
  then show ?case using ys by simp
qed

lemma dlist_unique:
  assumes x: "dlist M h l xs" and y: "dlist M h l ys"
  shows "xs = ys"
proof (cases xs)
  case Nil
  with x y show ?thesis unfolding dlist_def by (metis hd_in_set)
next
  case (Cons a as)
  have "ys \<noteq> []" "hd ys = a" using x y Cons by (auto simp: dlist_def split: if_splits)
  then obtain bs where ys: "ys = a # bs" by (cases ys) auto
  have "as = bs" by (rule cycle_unique [where as = "[a]" and N = "next_map M h"]) (use x y Cons ys in \<open>auto simp: dlist_def\<close>)
  with Cons ys show ?thesis by simp
qed

lemma slist_unique:
  assumes x: "slist M h l xs" and y: "slist M h l ys"
  shows "xs = ys"
proof (cases "xs = []")
  case True
  with x y show ?thesis unfolding slist_def by (metis last_in_set)
next
  case False
  then have ys: "ys \<noteq> []" and l: "last xs = last ys" using x y unfolding slist_def by (metis last_in_set)+
  have d: "distinct xs" "distinct ys" using x y by (simp_all add: slist_def)
  have "hd xs = hd ys"
  proof -
    have "next_map M h (last xs) = Some (cyc_succ xs (last xs))" "next_map M h (last ys) = Some (cyc_succ ys (last ys))"
      using x y last_in_set [OF False] last_in_set [OF ys] unfolding slist_def by blast+
    then show ?thesis using l cyc_last [of xs "[]"] cyc_last [of ys "[]"] d False ys by simp
  qed
  then obtain a as bs where e: "xs = a # as" "ys = a # bs" using False ys by (metis list.collapse)
  have "as = bs" by (rule cycle_unique [where as = "[a]" and N = "next_map M h"]) (use x y e in \<open>auto simp: slist_def\<close>)
  with e show ?thesis by simp
qed

text \<open>A state of the program represents at most one abstract state.\<close>

lemma rep_unique:
  assumes s: "rep w s" and t: "rep w t"
  shows "s = t"
proof -
  have "sp_queues s q = sp_queues t q" for q
  proof (cases "q = Q_ready")
    case True
    then have "slist fiber_link (fibers w) (qhead w q) (sp_queues s q)" "slist fiber_link (fibers w) (qhead w q) (sp_queues t q)"
      using s t unfolding rep_def wrep_def qrep_def queue_at_def by metis+
    then show ?thesis by (rule slist_unique)
  next
    case False
    then have "dlist fiber_link (fibers w) (qhead w q) (sp_queues s q)" "dlist fiber_link (fibers w) (qhead w q) (sp_queues t q)"
      using s t unfolding rep_def wrep_def qrep_def queue_at_def by metis+
    then show ?thesis by (rule dlist_unique)
  qed
  moreover have "sp_timers s = sp_timers t"
    by (rule dlist_unique [of timer_link "fibers w" "g_timer_queue (g_melon w)"]) (use s t in \<open>simp_all add: rep_def wrep_def trep_def\<close>)
  moreover have "sp_world s = sp_world t" using s t by (simp add: rep_def)
  ultimately show ?thesis by (intro spec.equality) (simp_all add: fun_eq_iff)
qed

section \<open>One step\<close>

text \<open>
  The queue of a mutex and its owner before and after a step, when the order is kept: the
  queue grows at its end and the owner stays, or the first fiber leaves it as the new owner.
\<close>

definition in_order :: "ptr list \<Rightarrow> ptr \<Rightarrow> ptr list \<Rightarrow> ptr \<Rightarrow> bool" where
  "in_order q a q' a' \<longleftrightarrow> (\<exists>new. q' = q @ new \<and> (q \<noteq> [] \<longrightarrow> a' = a)) \<or> (\<exists>x. q = x # q' \<and> a' = x)"

lemma handover_in_order: "in_order (qs (Q_lock m)) (ow m) (fst (handover n qs ow) (Q_lock m)) (snd (handover n qs ow) m)"
  by (cases "qs (Q_lock m)") (auto simp: in_order_def handover_def)

lemma effect_in_order:
  assumes "qs (Q_lock m) \<noteq> [] \<longrightarrow> ow m \<noteq> NULL" and "(qs', ow') = snd (effect k x qs ow)"
  shows "in_order (qs (Q_lock m)) (ow m) (qs' (Q_lock m)) (ow' m)"
proof (cases k)
  case (C_lock n)
  with assms show ?thesis by (auto simp: in_order_def split: if_splits)
next
  case (C_unlock n)
  with assms(2) handover_in_order [of qs m ow n] show ?thesis by (metis effect.simps(2) fst_conv snd_conv)
next
  case (C_wait c n)
  with assms(2) handover_in_order [of "qs(Q_wait c := qs (Q_wait c) @ [x])" m ow n] show ?thesis
    by (metis effect.simps(3) fst_conv fun_upd_other qid.distinct(11) snd_conv)
next
  case (C_broadcast c n)
  with assms show ?thesis by (auto simp: in_order_def)
qed

lemma waited_owned:
  assumes v: "sys_inv Ms cm y s"
  shows "sp_queues s (Q_lock m) \<noteq> [] \<longrightarrow> owner s m \<noteq> NULL"
proof
  assume q: "sp_queues s (Q_lock m) \<noteq> []"
  have b: "book Ms cm y (sp_queues s) (owner s) (dom (sp_fiber s))" and h: "served Ms cm s" using v by (simp_all add: sys_inv_def)
  have "m \<in> Ms" using book_queued [OF b hd_in_set [OF q]] by simp
  then obtain z where z: "sp_mutex s m = Some z" using h by (auto simp: served_def)
  have "mutexes_ok s" using h by (simp add: served_def)
  from mutexes_okD [OF this z] q z show "owner s m \<noteq> NULL" by (auto simp: mutex_ok_def owner_def)
qed

lemma step_in_order:
  assumes y: "sys_step Ms cm y y'" and v: "sys_inv Ms cm y s"
  obtains s' where "sys_inv Ms cm y' s'" and "\<forall>m. in_order (sp_queues s (Q_lock m)) (owner s m) (sp_queues s' (Q_lock m)) (owner s' m)"
proof -
  obtain s' where s': "sys_inv Ms cm y' s'"
    "(\<exists>k x. x \<noteq> NULL \<and> legal Ms cm k (sy_holds y x) \<and> (sp_queues s', owner s') = snd (effect k x (sp_queues s) (owner s))) \<or>
      (\<exists>x xs. sp_queues s Q_ready = x # xs \<and> sp_queues s' = (sp_queues s)(Q_ready := xs) \<and> owner s' = owner s)"
    by (rule sys_step_effect [OF y v])
  have "in_order (sp_queues s (Q_lock m)) (owner s m) (sp_queues s' (Q_lock m)) (owner s' m)" for m
    using s'(2)
  proof (elim disjE exE conjE)
    fix k x
    assume "(sp_queues s', owner s') = snd (effect k x (sp_queues s) (owner s))"
    then show ?thesis by (rule effect_in_order [of "sp_queues s" m "owner s", OF waited_owned [OF v]])
  next
    fix x xs
    assume "sp_queues s' = (sp_queues s)(Q_ready := xs)" "owner s' = owner s"
    then show ?thesis by (simp add: in_order_def)
  qed
  then show thesis using that s'(1) by blast
qed

section \<open>Runs\<close>

text \<open>While \<open>x\<close> stays in the queue, a step takes at most one fiber from before it.\<close>

lemma in_order_prefix:
  assumes "in_order (drop j q @ new) a q' a'" and "x \<in> set q'" and "x \<in> set (drop j q)" and "distinct (drop j q @ new)"
    and "a = (if j = 0 then b else q ! (j - 1))"
  obtains i new' where "q' = drop i q @ new'" and "x \<in> set (drop i q)" and "a' = (if i = 0 then b else q ! (i - 1))"
proof -
  have n: "drop j q @ new \<noteq> []" using assms(3) by auto
  from assms(1) consider (grows) new' where "q' = (drop j q @ new) @ new'" "a' = a" | (hd) z where "drop j q @ new = z # q'" "a' = z"
    using n by (auto simp: in_order_def)
  then show thesis
  proof cases
    case grows
    then show thesis using assms(3,5) by (intro that [of j "new @ new'"]) simp_all
  next
    case hd
    have l: "j < length q" using assms(3) by (metis drop_all empty_iff list.set(1) not_less)
    then have d: "drop j q = q ! j # drop (Suc j) q" by (simp add: Cons_nth_drop_Suc)
    then have z: "z = q ! j" "q' = drop (Suc j) q @ new" using hd(1) by simp_all
    have "x \<noteq> z" using assms(2,4) hd(1) by auto
    then have "x \<in> set (drop (Suc j) q)" using assms(3) d z(1) by auto
    then show thesis using hd(2) z by (intro that [of "Suc j" new]) simp_all
  qed
qed

lemma sys_inv_rep: "sys_inv Ms cm y s \<Longrightarrow> rep (sy_world y) t \<Longrightarrow> s = t"
  using rep_unique by (auto simp: sys_inv_def)

section \<open>Properties\<close>

text \<open>
  C5: Nobody overtakes: while a fiber waits for a mutex, in a run of any length of any number
  of fibers and threads, the fibers before it in the queue get the mutex in their order, each
  once, and nobody else gets it: the owner is the one that had it at first, or the last of
  those that have left the queue; newcomers are behind.
\<close>

theorem system_no_overtaking:
  assumes f: "fresh_start Ms cm w s0" and y: "sys_reach Ms cm w (p 0)" and run: "\<And>i. i < n \<Longrightarrow> sys_step Ms cm (p i) (p (Suc i))"
    and a: "\<And>i. i \<le> n \<Longrightarrow> rep (sy_world (p i)) (a i) \<and> x \<in> set (sp_queues (a i) (Q_lock m))"
  shows "\<exists>j new. sp_queues (a n) (Q_lock m) = drop j (sp_queues (a 0) (Q_lock m)) @ new \<and> x \<in> set (drop j (sp_queues (a 0) (Q_lock m))) \<and>
    owner (a n) m = (if j = 0 then owner (a 0) m else sp_queues (a 0) (Q_lock m) ! (j - 1))"
proof -
  let ?q = "sp_queues (a 0) (Q_lock m)"
  have "sys_inv Ms cm (p i) (a i) \<and> (\<exists>j new. sp_queues (a i) (Q_lock m) = drop j ?q @ new \<and> x \<in> set (drop j ?q) \<and>
      owner (a i) m = (if j = 0 then owner (a 0) m else ?q ! (j - 1)))" if "i \<le> n" for i
    using that
  proof (induction i)
    case 0
    obtain s where "sys_inv Ms cm (p 0) s" by (rule sys_reach_inv [OF y f])
    then have "sys_inv Ms cm (p 0) (a 0)" using sys_inv_rep a [of 0] by blast
    then show ?case using a [of 0] by (intro conjI exI [of _ 0] exI [of _ "[]"]) simp_all
  next
    case (Suc i)
    then have i: "i < n" by simp
    obtain j new where j: "sys_inv Ms cm (p i) (a i)" "sp_queues (a i) (Q_lock m) = drop j ?q @ new" "x \<in> set (drop j ?q)"
      "owner (a i) m = (if j = 0 then owner (a 0) m else ?q ! (j - 1))" using Suc by auto
    obtain s where s: "sys_inv Ms cm (p (Suc i)) s" "\<forall>m. in_order (sp_queues (a i) (Q_lock m)) (owner (a i) m) (sp_queues s (Q_lock m)) (owner s m)"
      by (rule step_in_order [OF run [OF i] j(1)])
    have e: "s = a (Suc i)" by (rule sys_inv_rep [OF s(1)]) (use a [of "Suc i"] Suc.prems in simp)
    have d: "distinct (drop j ?q @ new)" using rep_distinct [of "sy_world (p i)" "a i" "Q_lock m"] a [of i] i j(2) by simp
    have x: "x \<in> set (sp_queues (a (Suc i)) (Q_lock m))" using a [of "Suc i"] Suc.prems by simp
    have o: "in_order (drop j ?q @ new) (owner (a i) m) (sp_queues (a (Suc i)) (Q_lock m)) (owner (a (Suc i)) m)"
      using s(2) [rule_format, of m] e j(2) by simp
    show ?case by (rule in_order_prefix [OF o x j(3) d j(4)]) (use s(1) e in blast)
  qed
  then show ?thesis by blast
qed

theorem system_no_overtaking_witness:
  "\<exists>w y z s s'. sys_reach {10} [20 \<mapsto> 10] w y \<and> sys_step {10} [20 \<mapsto> 10] y z \<and> rep (sy_world y) s \<and> rep (sy_world z) s' \<and>
    sp_queues s (Q_lock 10) = [2] \<and> sp_queues s' (Q_lock 10) = [2, 3] \<and> owner s' 10 = owner s 10"
proof -
  let ?M = "{10}" and ?c = "[20 \<mapsto> 10]"
  obtain w y s where y: "fresh_start ?M ?c w ex_team" "sys_reach ?M ?c w y" "sys_inv ?M ?c y s" "sy_cur y 0 = 1" "sy_holds y 1 = {10}" "sy_cur y 1 = 3"
    "sp_queues s (Q_lock 10) = [2]" by (rule ex_team_run)
  have b: "book ?M ?c y (sp_queues s) (owner s) (dom (sp_fiber s))" using y(3) by (simp add: sys_inv_def)
  have o: "owner s 10 = 1" using book_holds [OF b, of 1] y(5) by (auto simp: NULL_def)
  have "sy_holds y 3 = {}" using book_holds [OF b, of 3] o by (auto simp: NULL_def)
  then have l: "legal ?M ?c (C_lock 10) (sy_holds y 3)" by simp
  have e: "effect (C_lock 10) 3 (sp_queues s) (owner s) = (True, (sp_queues s)(Q_lock 10 := [2, 3]), owner s)" using o y(7) by (simp add: NULL_def)
  have n: "(3 :: ptr) \<noteq> NULL" by (simp add: NULL_def)
  obtain v v' s' where v: "perform (C_lock 10) ((sy_world y)\<lparr>g_current_fiber := 3\<rparr>) = Inr (Suspended (), v)" "sched_leave v = Inr v'"
    "sys_inv ?M ?c (sy_suspend (C_lock 10) 1 3 v' y) s'" "sp_queues s' = (sp_queues s)(Q_lock 10 := [2, 3])" "owner s' = owner s"
    by (rule sys_suspends [OF y(3,6) n l e])
  let ?z = "sy_suspend (C_lock 10) 1 3 v' y"
  have st: "sys_step ?M ?c y ?z" by (rule sys_step.suspends [OF y(6) n l v(1,2)])
  have r: "rep (sy_world y) s" "rep (sy_world ?z) s'" using y(3) v(3) by (simp_all add: sys_inv_def)
  let ?p = "\<lambda>i :: nat. if i = 0 then y else ?z" and ?a = "\<lambda>i :: nat. if i = 0 then s else s'"
  have p: "sys_reach ?M ?c w (?p 0)" "\<And>i. i < 1 \<Longrightarrow> sys_step ?M ?c (?p i) (?p (Suc i))"
    "\<And>i. i \<le> 1 \<Longrightarrow> rep (sy_world (?p i)) (?a i) \<and> 2 \<in> set (sp_queues (?a i) (Q_lock 10))"
    using y(2,7) st r v(4) by simp_all
  obtain j where "2 \<in> set (drop j (sp_queues (?a 0) (Q_lock 10)))"
    "owner (?a 1) 10 = (if j = 0 then owner (?a 0) 10 else sp_queues (?a 0) (Q_lock 10) ! (j - 1))"
    using system_no_overtaking [OF y(1) p] by blast
  then have "owner s' 10 = owner s 10" using y(7) by (cases j) auto
  then show ?thesis using y(2,7) st r v(4) by (intro exI [of _ w] exI [of _ y] exI [of _ ?z] exI [of _ s] exI [of _ s']) simp
qed

end
