(* ===== verification/Melon_Life.thy ===== *)
theory Melon_Life
  imports Melon_Switch
begin

text \<open>
  The life of a fiber that nobody joins (\<^verbatim>\<open>melon_fiber_createlight\<close>), from its creation
  through \<^verbatim>\<open>melon_fiber_wrapper\<close> of \<^verbatim>\<open>src/fiber.c\<close> to its destruction by the
  scheduler thread that ran it.
\<close>

lemma rep_remove_fiber:
  assumes r: "rep w s" and x: "idle s x" "\<not> timed s x"
  shows "rep (w\<lparr>fibers := (fibers w)(x := None)\<rparr>) (sp_lift (\<lambda>w. w\<lparr>fibers := (fibers w)(x := None)\<rparr>) s)"
proof -
  let ?w = "w\<lparr>fibers := (fibers w)(x := None)\<rparr>"
  have h: "qhead ?w = qhead w" by (rule ext, rename_tac q, case_tac q) auto
  have q: "qrep (fibers w) (qhead w) (sp_queues s)" "trep (fibers w) (g_timer_queue (g_melon w)) (sp_timers s)"
    using r by (simp_all add: rep_def wrep_def)
  have "queue_at c (fibers ?w) (qhead w c) (sp_queues s c)" for c
    by (rule queue_at_frame [of c "fibers w"]) (use q(1) x in \<open>auto simp: qrep_def idle_def\<close>)
  then have "qrep (fibers ?w) (qhead w) (sp_queues s)" using q(1) by (simp add: qrep_def)
  moreover have "trep (fibers ?w) (g_timer_queue (g_melon w)) (sp_timers s)"
    by (rule trep_frame [OF q(2)]) (use x in \<open>auto simp: timed_def\<close>)
  moreover have "cores ((fibers w)(x := None)) = (cores (fibers w))(x := None)" by (auto simp: cores_def)
  ultimately show ?thesis using r h by (auto simp: rep_def wrep_def sp_lift_def erase_def)
qed

text \<open>What is left when the fiber \<open>x\<close> has been destroyed.\<close>

definition gone :: "ptr \<Rightarrow> stack_alloc \<Rightarrow> world \<Rightarrow> world" where
  "gone x st w =
    (let n = g_fibers_count (g_melon w) - 1; w = mod_melon (\<lambda>g. g\<lparr>g_fibers_count := n\<rparr>) w;
         w = (if n = 0 then os_event Broadcast_fibers_count_zero w else w) in
     w\<lparr>fibers := (fibers w)(x := None), stacks := st, g_current_fiber := NULL\<rparr>)"

lemma fiber_end_runs:
  assumes x: "g_current_fiber w = x" "x \<noteq> NULL" "fibers w x = Some f" and f: "f_join_mutex f = NULL" "f_uc_link f = NULL" "f_start_cb f \<noteq> NULL"
    and n: "0 < g_fibers_count (g_melon w)" and st: "melon_stack_free (f_ss_sp f) (stacks w) = Inr st"
  shows "\<exists>w1. melon_fiber_wrapper ret w = Inr (Suspended W_end, w1) \<and> sched_leave w1 = Inr (gone x st w)"
proof -
  have "INT_MIN < g_fibers_count (g_melon w)" using n by (simp add: INT_MIN_def)
  then show ?thesis using x f st
    by (simp add: melon_fiber_wrapper_def wrapper_end_def melon_fiber_self_def mod_fiber_def int_dec_def melon_sched_next_def sched_leave_def
        sched_next_back_def sched_run_callback_def call_sched_next_cb_def melon_fiber_destroy_def gone_def Let_def os_event_def mod_melon_def
        glock_lock_def glock_unlock_def)
qed

lemma rep_gone:
  assumes r: "rep w s" and x: "idle s x" "\<not> timed s x"
  obtains s' where "rep (gone x st w) s'" and "sp_queues s' = sp_queues s" and "sp_fiber s' = (sp_fiber s)(x := None)" and "sp_timers s' = sp_timers s"
proof -
  let ?n = "g_fibers_count (g_melon w) - 1"
  let ?s1 = "sp_lift (counted ?n) s" and ?w1 = "counted ?n w"
  let ?s2 = "if ?n = 0 then sp_os_event Broadcast_fibers_count_zero ?s1 else ?s1" and ?w2 = "if ?n = 0 then os_event Broadcast_fibers_count_zero ?w1 else ?w1"
  have r2: "rep ?w2 ?s2" using rep_counted [OF r, of ?n] rep_os_event by (cases "?n = 0") simp_all
  have i: "idle ?s2 x" "\<not> timed ?s2 x" using x by (simp_all add: idle_def timed_def counted_def sp_defs)
  note r3 = rep_other_upd(2) [OF rep_other_upd(6) [OF rep_remove_fiber [OF r2 i], of st], of NULL]
  have e: "?w2\<lparr>fibers := (fibers ?w2)(x := None), stacks := st, g_current_fiber := NULL\<rparr> = gone x st w"
    by (simp add: gone_def counted_def Let_def)
  show thesis by (rule that [OF r3 [unfolded e]]) (simp_all add: counted_def sp_defs)
qed

lemma stack_freed:
  assumes "stack_inv s xs used" and "a \<in> used"
  obtains s' ys where "melon_stack_free a s = Inr s'" and "stack_inv s' ys (used - {a})"
proof (cases "length xs \<le> 100")
  case True
  then show thesis using stack_free_cached [OF assms] that by blast
next
  case False
  then have "length xs = 101" using assms(1) by (simp add: stack_inv_def)
  then show thesis using stack_free_full [OF assms] that by blast
qed

lemma rep_stacks: "rep w s \<Longrightarrow> stacks (sp_world s) = stacks w"
  by (auto simp: rep_def erase_def)

lemma rep_count: "rep w s \<Longrightarrow> g_fibers_count (g_melon (sp_world s)) = g_fibers_count (g_melon w)"
  by (auto simp: rep_def erase_def bare_melon_def)

lemma rep_threads: "rep w s \<Longrightarrow> g_threads_nb (g_melon (sp_world s)) = g_threads_nb (g_melon w)"
  by (auto simp: rep_def erase_def bare_melon_def)

lemma rep_timed:
  assumes "rep w s" and "timed s x"
  shows "sp_fiber s x \<noteq> None"
proof -
  have "dlist timer_link (fibers w) (g_timer_queue (g_melon w)) (sp_timers s)" using assms(1) by (simp add: rep_def wrep_def trep_def)
  from dlist_node [OF this, of x] assms show ?thesis by (auto simp: timed_def rep_def erase_def cores_def)
qed

lemma fiber_end_refines:
  assumes r: "rep w s" and x: "runs s" "sp_fiber s (sp_self s) = Some f"
    and f: "f_join_mutex f = NULL" "f_uc_link f = NULL" "f_start_cb f \<noteq> NULL" and n: "0 < g_fibers_count (g_melon w)"
    and st: "stack_inv (stacks w) xs used" "f_ss_sp f \<in> used"
  obtains w1 w2 s2 ys where "melon_fiber_wrapper ret w = Inr (Suspended W_end, w1)" and "sched_leave w1 = Inr w2" and "rep w2 s2"
    and "sp_queues s2 = sp_queues s" and "sp_fiber s2 = (sp_fiber s)(sp_self s := None)" and "stack_inv (stacks w2) ys (used - {f_ss_sp f})"
    and "g_fibers_count (g_melon w2) = g_fibers_count (g_melon w) - 1" and "g_current_fiber w2 = NULL"
    and "g_threads_nb (g_melon w2) = g_threads_nb (g_melon w)"
    and "Broadcast_fibers_count_zero \<in> set (g_os_log (g_melon w2)) \<longleftrightarrow>
      Broadcast_fibers_count_zero \<in> set (g_os_log (g_melon w)) \<or> g_fibers_count (g_melon w) = 1"
proof -
  obtain g where g: "fibers w (sp_self s) = Some g" "f = core g" by (rule rep_fiberE [OF r x(2)])
  have g': "f_join_mutex g = NULL" "f_uc_link g = NULL" "f_start_cb g \<noteq> NULL" "f_ss_sp g = f_ss_sp f" using f g(2) by (simp_all add: core_def)
  obtain st' ys where s: "melon_stack_free (f_ss_sp g) (stacks w) = Inr st'" "stack_inv st' ys (used - {f_ss_sp f})"
    using stack_freed [OF st] g'(4) by metis
  have c: "g_current_fiber w = sp_self s" using rep_current [OF r] by simp
  obtain w1 where w1: "melon_fiber_wrapper ret w = Inr (Suspended W_end, w1)" "sched_leave w1 = Inr (gone (sp_self s) st' w)"
    using fiber_end_runs [OF c runsD(1) [OF x(1)] g(1) g'(1-3) n s(1)] by blast
  obtain s2 where s2: "rep (gone (sp_self s) st' w) s2" "sp_queues s2 = sp_queues s" "sp_fiber s2 = (sp_fiber s)(sp_self s := None)"
    by (rule rep_gone [OF r runsD(2,3) [OF x(1)]])
  show thesis by (rule that [OF w1 s2]) (use s(2) in \<open>simp_all add: gone_def Let_def mod_melon_def os_event_def\<close>)
qed

lemma fiber_life:
  assumes r: "rep w s" and fct: "fct \<noteq> NULL" and env: "fresh_env env w" "fe_fiber env \<noteq> NULL" "\<not> no_stack env w"
    and st: "stack_inv (stacks w) xs used" and a: "\<And>a. fe_mmap env = Some a \<Longrightarrow> a \<noteq> NULL \<and> a \<notin> used"
    and n: "0 \<le> g_fibers_count (g_melon w)" "g_fibers_count (g_melon w) < INT_MAX"
    and q: "sp_queues s Q_ready = []" "\<not> stopping s"
  obtains w1 w2 w3 w4 s4 ys where "melon_fiber_start env attr fct ctx False w = Inr (fe_fiber env, w1)"
    and "g_fibers_count (g_melon w1) = g_fibers_count (g_melon w) + 1"
    and "sched_next w1 = Inr (Sched_runs, w2)" and "g_current_fiber w2 = fe_fiber env"
    and "melon_fiber_wrapper ret w2 = Inr (Suspended W_end, w3)" and "sched_leave w3 = Inr w4" and "rep w4 s4"
    and "sp_queues s4 = sp_queues s" and "sp_fiber s4 = sp_fiber s" and "g_fibers_count (g_melon w4) = g_fibers_count (g_melon w)"
    and "stack_inv (stacks w4) ys used" and "g_threads_nb (g_melon w4) = g_threads_nb (g_melon w)"
proof -
  let ?x = "fe_fiber env"
  have ok: "\<not> (?x = NULL \<or> False \<and> (fe_mutex env = NULL \<or> fe_cond env = NULL) \<or> no_stack env w)" using env by simp
  obtain w1 s1 f ys where w1: "melon_fiber_start env attr fct ctx False w = Inr (?x, w1)" "rep w1 s1"
    "sp_queues s1 = (sp_queues s)(Q_ready := sp_queues s Q_ready @ [?x])" "g_fibers_count (g_melon (sp_world s1)) = g_fibers_count (g_melon w) + 1"
    "sp_fiber s1 = (sp_fiber s)(?x \<mapsto> f)" and f: "f_start_cb f = fct" "f_join_mutex f = NULL" "f_ss_sp f \<notin> used"
    and s1: "stack_inv (stacks (sp_world s1)) ys (insert (f_ss_sp f) used)" "f_lock f = 0" "f_uc_link f = NULL" "sp_timers s1 = sp_timers s"
      "g_stop (g_melon (sp_world s1)) = g_stop (g_melon (sp_world s))" "g_threads_nb (g_melon (sp_world s1)) = g_threads_nb (g_melon (sp_world s))"
    by (rule fiber_start_succeeds [OF r fct env(1) st a n(2) ok, of attr ctx]) auto
  have nf: "sp_fiber s ?x = None" using env(1) r by (auto simp: fresh_env_def rep_def erase_def cores_def)
  then have nt: "\<not> timed s ?x" using rep_timed [OF r] by blast
  let ?s2 = "snd (sp_sched_next s1)"
  have e: "sp_sched_next s1 = (Sched_runs, sp_mod_fiber ?x (\<lambda>f. f\<lparr>f_lock := 1\<rparr>) (sp_current ?x (sp_deq Q_ready s1)))"
    using q w1(3) s1(5) by (simp add: sp_sched_next_def)
  have "wp (sched_next w1) (yields (sp_sched_next s1))" by (rule sched_next_refines [OF w1(2)]) (use w1(3,5) q(1) s1(2) in auto)
  then obtain w2 where w2: "sched_next w1 = Inr (Sched_runs, w2)" "rep w2 ?s2" using e by (auto simp: wp_yields)
  have c2: "g_current_fiber w2 = ?x" "sp_self ?s2 = ?x" using rep_current [OF w2(2)] e by simp_all
  have k2: "stacks (sp_world ?s2) = stacks (sp_world s1)" "g_fibers_count (g_melon (sp_world ?s2)) = g_fibers_count (g_melon w) + 1"
    "g_threads_nb (g_melon (sp_world ?s2)) = g_threads_nb (g_melon (sp_world s))"
    using w1(4) s1(6) e by (simp_all add: sp_current_def sp_defs)
  let ?f = "f\<lparr>f_lock := 1\<rparr>"
  have f2: "sp_fiber ?s2 (sp_self ?s2) = Some ?f" "sp_fiber ?s2 = (sp_fiber s)(?x \<mapsto> ?f)" using w1(5) e by (auto simp: fun_eq_iff)
  have q2: "sp_queues ?s2 = sp_queues s" using w1(3) q(1) e by (auto simp: fun_eq_iff)
  have "?x \<notin> set (sp_queues s p)" for p using rep_member [OF r, of ?x p] nf by auto
  then have "runs ?s2" using q2 f2 c2 env(2) nt s1(4) e by (simp add: runs_def idle_def timed_def)
  moreover have "0 < g_fibers_count (g_melon w2)" using rep_count [OF w2(2)] k2(2) n(1) by simp
  moreover have "stack_inv (stacks w2) ys (insert (f_ss_sp f) used)" using rep_stacks [OF w2(2)] k2(1) s1(1) by simp
  ultimately obtain w3 w4 s4 zs where w4: "melon_fiber_wrapper ret w2 = Inr (Suspended W_end, w3)" "sched_leave w3 = Inr w4" "rep w4 s4"
    "sp_queues s4 = sp_queues ?s2" "sp_fiber s4 = (sp_fiber ?s2)(sp_self ?s2 := None)" "stack_inv (stacks w4) zs (insert (f_ss_sp f) used - {f_ss_sp ?f})"
    "g_fibers_count (g_melon w4) = g_fibers_count (g_melon w2) - 1" "g_threads_nb (g_melon w4) = g_threads_nb (g_melon w2)"
    using fiber_end_refines [OF w2(2) _ f2(1), of ys "insert (f_ss_sp f) used" ret thesis] f(1,2) fct s1(3) by auto
  have "sp_fiber s4 = sp_fiber s" using w4(5) f2(2) c2(2) nf by (auto simp: fun_eq_iff)
  moreover have "g_fibers_count (g_melon w4) = g_fibers_count (g_melon w)" using w4(7) rep_count [OF w2(2)] k2(2) by simp
  moreover have "stack_inv (stacks w4) zs used" using w4(6) f(3) by simp
  moreover have "sp_queues s4 = sp_queues s" using w4(4) q2 by simp
  moreover have "g_threads_nb (g_melon w4) = g_threads_nb (g_melon w)" using w4(8) rep_threads [OF w2(2)] rep_threads [OF r] k2(3) by simp
  moreover have "g_fibers_count (g_melon w1) = g_fibers_count (g_melon w) + 1" using rep_count [OF w1(2)] w1(4) by simp
  ultimately show thesis using w1(1) w2(1) c2(1) w4(1-3) by (intro that)
qed

text \<open>The only fiber left has the stack at address 100.\<close>

definition ex_last :: world where
  "ex_last = ex_world\<lparr>fibers := [1 \<mapsto> a_fiber\<lparr>f_ss_sp := 100\<rparr>], g_melon := (g_melon ex_world)\<lparr>g_fibers_count := 1\<rparr>,
     stacks := (stacks ex_world)\<lparr>stack_mem := [100 \<mapsto> NULL]\<rparr>\<rparr>"

lemma quiet_ex_last: "quiet ex_last"
proof -
  have "qhead ex_last q = NULL" for q by (cases q) (auto simp: ex_last_def ex_world_def)
  then show ?thesis by (auto simp: quiet_def ex_last_def ex_world_def a_fiber_def NULL_def split: if_splits)
qed

section \<open>Properties\<close>

text \<open>
  A fiber that nobody joins and whose function has returned is gone once its thread
  has swapped away from it: its memory is freed, its stack is in the cache again or
  unmapped and belongs to nobody, one fiber less is counted, the last one tells those who
  wait for all, and no queue has changed.
\<close>

theorem fiber_end_destroys:
  assumes r: "rep w s" and x: "runs s" "sp_fiber s (sp_self s) = Some f"
    and f: "f_join_mutex f = NULL" "f_uc_link f = NULL" "f_start_cb f \<noteq> NULL" and n: "0 < g_fibers_count (g_melon w)"
    and st: "stack_inv (stacks w) xs used" "f_ss_sp f \<in> used"
  shows "\<exists>w1 w2 s2 ys. melon_fiber_wrapper ret w = Inr (Suspended W_end, w1) \<and> sched_leave w1 = Inr w2 \<and> rep w2 s2 \<and>
    sp_queues s2 = sp_queues s \<and> sp_fiber s2 = (sp_fiber s)(sp_self s := None) \<and> stack_inv (stacks w2) ys (used - {f_ss_sp f}) \<and>
    g_fibers_count (g_melon w2) = g_fibers_count (g_melon w) - 1 \<and> g_current_fiber w2 = NULL \<and>
    (Broadcast_fibers_count_zero \<in> set (g_os_log (g_melon w2)) \<longleftrightarrow>
      Broadcast_fibers_count_zero \<in> set (g_os_log (g_melon w)) \<or> g_fibers_count (g_melon w) = 1)"
  by (rule fiber_end_refines [OF assms, of ret]) blast

theorem fiber_end_destroys_witness:
  "\<exists>w1 w2. melon_fiber_wrapper 0 ex_last = Inr (Suspended W_end, w1) \<and> sched_leave w1 = Inr w2 \<and>
    g_fibers_count (g_melon w2) = 0 \<and> Broadcast_fibers_count_zero \<in> set (g_os_log (g_melon w2))"
proof -
  have s: "sp_self (abs0 ex_last) = 1" "sp_fiber (abs0 ex_last) 1 = Some (a_fiber\<lparr>f_ss_sp := 100\<rparr>)" "\<And>q. sp_queues (abs0 ex_last) q = []"
    "sp_timers (abs0 ex_last) = []"
    by (simp_all add: abs0_def erase_def ex_last_def ex_world_def cores_def core_def a_fiber_def)
  then have "runs (abs0 ex_last)" by (simp add: runs_def idle_def timed_def)
  moreover have "stack_inv (stacks ex_last) [] {100}" by (simp add: stack_inv_def ex_last_def ex_world_def)
  moreover have n: "g_fibers_count (g_melon ex_last) = 1" by (simp add: ex_last_def)
  ultimately obtain w1 w2 where "melon_fiber_wrapper 0 ex_last = Inr (Suspended W_end, w1)" "sched_leave w1 = Inr w2"
    "g_fibers_count (g_melon w2) = g_fibers_count (g_melon ex_last) - 1"
    "Broadcast_fibers_count_zero \<in> set (g_os_log (g_melon w2)) \<longleftrightarrow>
      Broadcast_fibers_count_zero \<in> set (g_os_log (g_melon ex_last)) \<or> g_fibers_count (g_melon ex_last) = 1"
    using fiber_end_destroys [OF rep_abs0 [OF quiet_ex_last], of "a_fiber\<lparr>f_ss_sp := 100\<rparr>" "[]" "{100}" 0] s
    by (auto simp: a_fiber_def)
  then show ?thesis using n by auto
qed

text \<open>
  C30: Round trip: a fiber without a joiner that is started while no other is ready runs at
  the next pass of a thread, and when it has returned the runtime has the fibers, the
  queues, the count and the stacks in use that it had before.
\<close>

theorem fiber_life_roundtrip:
  assumes r: "rep w s" and fct: "fct \<noteq> NULL" and env: "fresh_env env w" "fe_fiber env \<noteq> NULL" "\<not> no_stack env w"
    and st: "stack_inv (stacks w) xs used" and a: "\<And>a. fe_mmap env = Some a \<Longrightarrow> a \<noteq> NULL \<and> a \<notin> used"
    and n: "0 \<le> g_fibers_count (g_melon w)" "g_fibers_count (g_melon w) < INT_MAX"
    and q: "sp_queues s Q_ready = []" "\<not> stopping s"
  shows "\<exists>w1 w2 w3 w4 s4 ys. melon_fiber_start env attr fct ctx False w = Inr (fe_fiber env, w1) \<and>
    sched_next w1 = Inr (Sched_runs, w2) \<and> g_current_fiber w2 = fe_fiber env \<and>
    melon_fiber_wrapper ret w2 = Inr (Suspended W_end, w3) \<and> sched_leave w3 = Inr w4 \<and> rep w4 s4 \<and>
    sp_queues s4 = sp_queues s \<and> sp_fiber s4 = sp_fiber s \<and> g_fibers_count (g_melon w4) = g_fibers_count (g_melon w) \<and>
    stack_inv (stacks w4) ys used"
  by (rule fiber_life [OF assms, of attr ctx ret]) (assumption | blast)+

theorem fiber_life_roundtrip_witness:
  "\<exists>w1 w2 w3 w4. melon_fiber_start ex_fiber_env None 1 0 False ex_world = Inr (4, w1) \<and> sched_next w1 = Inr (Sched_runs, w2) \<and>
    melon_fiber_wrapper 0 w2 = Inr (Suspended W_end, w3) \<and> sched_leave w3 = Inr w4 \<and> g_fibers_count (g_melon w4) = 3"
proof -
  have e: "fresh_env ex_fiber_env ex_world" "fe_fiber ex_fiber_env \<noteq> NULL" "\<not> no_stack ex_fiber_env ex_world"
    by (simp_all add: fresh_env_def no_stack_def ex_fiber_env_def ex_world_def)
  have i: "stack_inv (stacks ex_world) [] {}" by (simp add: stack_inv_def ex_world_def)
  have n: "0 \<le> g_fibers_count (g_melon ex_world)" "g_fibers_count (g_melon ex_world) < INT_MAX" "g_fibers_count (g_melon ex_world) = 3"
    by (simp_all add: ex_world_def INT_MAX_def)
  have "\<not> stopping (abs0 ex_world)" by (simp add: abs0_def erase_def bare_melon_def ex_world_def)
  then obtain w1 w2 w3 w4 where "melon_fiber_start ex_fiber_env None 1 0 False ex_world = Inr (fe_fiber ex_fiber_env, w1)"
    "sched_next w1 = Inr (Sched_runs, w2)" "melon_fiber_wrapper 0 w2 = Inr (Suspended W_end, w3)" "sched_leave w3 = Inr w4"
    "g_fibers_count (g_melon w4) = g_fibers_count (g_melon ex_world)"
    using fiber_life_roundtrip [OF rep_abs0 [OF quiet_ex_world] _ e i _ n(1,2), of 1 None 0 0] by (auto simp: ex_fiber_env_def)
  then show ?thesis using n(3) by (auto simp: ex_fiber_env_def)
qed

end
