(* ===== verification/Melon_Runtime.thy ===== *)
theory Melon_Runtime
  imports Melon_Run
begin

text \<open>
  Start and stop of the runtime (\<^verbatim>\<open>src/melon.c\<close>, and the \<^verbatim>\<open>init\<close> and
  \<^verbatim>\<open>deinit\<close> functions of the two managers). What matters here is which resources of
  the operating system are taken and given back, on every path: the functions thread the
  log of these calls along with the state.
\<close>

section \<open>Resources\<close>

datatype os_resource = R_mutexattr | R_lock | R_ready_cond | R_zero_cond | R_io_array | R_epoll_fd | R_io_thread
  | R_condattr | R_timer_cond | R_timer_thread | R_threads_array | R_thread nat

datatype os_call = Acquire os_resource | Release os_resource

type_synonym os = "os_call list \<times> world"

text \<open>
  What the calls of the operating system return: whether the one that takes a resource
  succeeds, the results of \<^verbatim>\<open>pthread_mutexattr_settype\<close> and
  \<^verbatim>\<open>pthread_condattr_setclock\<close>, the epoll descriptor, the number of processors and
  the limit of open files.
\<close>

record os_env =
  e_ok :: "os_resource \<Rightarrow> bool"
  e_settype :: int
  e_setclock :: int
  e_epoll_fd :: int
  e_nproc :: "32 word"
  e_nofile :: nat

definition acquire :: "os_resource \<Rightarrow> os \<Rightarrow> os" where
  "acquire r s = (fst s @ [Acquire r], snd s)"

definition release :: "os_resource \<Rightarrow> os \<Rightarrow> os" where
  "release r s = (fst s @ [Release r], snd s)"

definition on_world :: "(world \<Rightarrow> world) \<Rightarrow> os \<Rightarrow> os" where
  "on_world f s = (fst s, f (snd s))"

definition on_melon :: "(melon \<Rightarrow> melon) \<Rightarrow> os \<Rightarrow> os" where
  "on_melon f = on_world (mod_melon f)"

text \<open>How many times a resource is held after a log.\<close>

definition balance :: "os_resource \<Rightarrow> os_call list \<Rightarrow> int" where
  "balance r log = int (count_list log (Acquire r)) - int (count_list log (Release r))"

section \<open>The managers\<close>

definition melon_io_manager_init :: "os_env \<Rightarrow> os \<Rightarrow> int \<times> os" where
  "melon_io_manager_init env s =
    (if \<not> e_ok env R_epoll_fd then (-1, on_melon (\<lambda>g. g\<lparr>g_epoll_fd := -1\<rparr>) s)
     else
       let s = on_melon (\<lambda>g. g\<lparr>g_epoll_fd := e_epoll_fd env\<rparr>) (acquire R_epoll_fd s) in
       if \<not> e_ok env R_io_thread then (-1, release R_epoll_fd s)
       else (0, acquire R_io_thread s))"

definition melon_io_manager_deinit :: "os \<Rightarrow> os" where
  "melon_io_manager_deinit s =
    release R_io_thread (on_melon (\<lambda>g. g\<lparr>g_epoll_fd := -1\<rparr>) (release R_epoll_fd s))"

definition melon_timer_manager_init :: "os_env \<Rightarrow> os \<Rightarrow> (int \<times> os) res" where
  "melon_timer_manager_init env s =
    (let s = on_melon (\<lambda>g. g\<lparr>g_timer_queue := NULL\<rparr>) s in
     if \<not> e_ok env R_condattr then Inr (-1, s)
     else
       let s = acquire R_condattr s in
       assert_that (e_setclock env = 0) (
       if \<not> e_ok env R_timer_cond then Inr (-1, release R_condattr s)
       else
         let s = release R_condattr (acquire R_timer_cond s) in
         if \<not> e_ok env R_timer_thread then Inr (-1, release R_timer_cond s)
         else Inr (0, acquire R_timer_thread s)))"

definition melon_timer_manager_deinit :: "os \<Rightarrow> os" where
  "melon_timer_manager_deinit s =
    release R_timer_cond (release R_timer_thread (on_world (os_event Signal_timer) s))"

section \<open>Start\<close>

text \<open>The failure labels of \<^verbatim>\<open>melon_init\<close>; each falls through to the next.\<close>

definition failure_mutex :: "os \<Rightarrow> os" where
  "failure_mutex s = release R_mutexattr s"

definition failure_cond :: "os \<Rightarrow> os" where
  "failure_cond s = failure_mutex (release R_lock s)"

definition failure_cond2 :: "os \<Rightarrow> os" where
  "failure_cond2 s = failure_cond (release R_ready_cond s)"

definition failure_calloc :: "os \<Rightarrow> os" where
  "failure_calloc s = failure_cond2 (release R_zero_cond s)"

definition failure_io_manager :: "os \<Rightarrow> os" where
  "failure_io_manager s = failure_calloc (on_melon (\<lambda>g. g\<lparr>g_io := Map.empty\<rparr>) (release R_io_array s))"

definition failure_timer_manager :: "os \<Rightarrow> os" where
  "failure_timer_manager s = failure_io_manager (melon_io_manager_deinit s)"

fun join_threads :: "nat \<Rightarrow> os \<Rightarrow> os" where
  "join_threads 0 s = s"
| "join_threads (Suc i) s = join_threads i (release (R_thread i) s)"

definition failure_pthread :: "nat \<Rightarrow> os \<Rightarrow> os" where
  "failure_pthread i s =
    failure_timer_manager (melon_timer_manager_deinit (release R_threads_array
      (join_threads i (on_melon (\<lambda>g. g\<lparr>g_stop := 1\<rparr>) s))))"

text \<open>
  The loop that creates the threads \<open>i\<close>, \<open>i + 1\<close>, ...: whether all were created, the value
  of \<open>i\<close> at the end, and the state.
\<close>

fun create_threads :: "os_env \<Rightarrow> nat \<Rightarrow> nat \<Rightarrow> os \<Rightarrow> bool \<times> nat \<times> os" where
  "create_threads env i 0 s = (True, i, s)"
| "create_threads env i (Suc n) s =
    (if \<not> e_ok env (R_thread i) then (False, i, s) else create_threads env (Suc i) n (acquire (R_thread i) s))"

definition init_threads_nb :: "os_env \<Rightarrow> 32 word \<Rightarrow> 32 word" where
  "init_threads_nb env nb_threads =
    (let n = (if nb_threads = 0 then e_nproc env else nb_threads) in if n > 0 then n else 1)"

text \<open>From the allocation of the thread pool to the end.\<close>

definition init_pool :: "os_env \<Rightarrow> os \<Rightarrow> (int \<times> os) res" where
  "init_pool env s =
    (if \<not> e_ok env R_threads_array then Inl Null_deref
     else (case create_threads env 0 (unat (g_threads_nb (g_melon (snd s)))) (acquire R_threads_array s) of
         (True, i, s) \<Rightarrow> Inr (0, s)
       | (False, i, s) \<Rightarrow> Inr (-1, failure_pthread i s)))"

definition init_io :: "os_env \<Rightarrow> melon \<Rightarrow> melon" where
  "init_io env g =
    g\<lparr>g_io := (\<lambda>fd. if fd < e_nofile env then Some \<lparr>read_queue = NULL, write_queue = NULL, is_in_epoll = 0\<rparr> else None)\<rparr>"

text \<open>From the call of \<^verbatim>\<open>melon_stack_init\<close> on.\<close>

definition init_managers :: "os_env \<Rightarrow> 32 word \<Rightarrow> os \<Rightarrow> (int \<times> os) res" where
  "init_managers env nb_threads s =
    (let s = on_world (\<lambda>w. w\<lparr>stacks := melon_stack_init (stacks w)\<rparr>) s;
         s = on_melon (\<lambda>g. g\<lparr>g_threads_nb := init_threads_nb env nb_threads\<rparr>) s in
     if \<not> e_ok env R_io_array then Inr (-1, failure_calloc (on_melon (\<lambda>g. g\<lparr>g_io := Map.empty\<rparr>) s))
     else
       let (ret, s) = melon_io_manager_init env (on_melon (init_io env) (acquire R_io_array s)) in
       if ret \<noteq> 0 then Inr (-1, failure_io_manager s)
       else
         res_bind (melon_timer_manager_init env s) (\<lambda>(ret, s).
         if ret \<noteq> 0 then Inr (-1, failure_timer_manager s)
         else init_pool env s))"

definition melon_init :: "os_env \<Rightarrow> 32 word \<Rightarrow> world \<Rightarrow> (int \<times> os) res" where
  "melon_init env nb_threads w =
    (let s = on_melon (\<lambda>g. g\<lparr>g_stop := 0, g_fibers_count := 0, g_ready := NULL\<rparr>) ([], w) in
     if \<not> e_ok env R_mutexattr then Inr (-1, s)
     else
       let s = acquire R_mutexattr s in
       if e_settype env \<noteq> 0 \<or> \<not> e_ok env R_lock then Inr (-1, failure_mutex s)
       else
         let s = release R_mutexattr (acquire R_lock s) in
         if \<not> e_ok env R_ready_cond then Inr (-1, failure_cond s)
         else if \<not> e_ok env R_zero_cond then Inr (-1, failure_cond2 (acquire R_ready_cond s))
         else init_managers env nb_threads (acquire R_zero_cond (acquire R_ready_cond s)))"

section \<open>Stop\<close>

fun join_all :: "nat \<Rightarrow> nat \<Rightarrow> os \<Rightarrow> os" where
  "join_all i 0 s = s"
| "join_all i (Suc n) s = join_all (Suc i) n (release (R_thread i) s)"

text \<open>What \<^verbatim>\<open>melon_deinit\<close> does under \<^verbatim>\<open>g_melon.lock\<close>.\<close>

definition deinit_stop :: "world \<Rightarrow> world" where
  "deinit_stop w = glock_unlock (os_event Broadcast_ready (mod_melon (\<lambda>g. g\<lparr>g_stop := 1\<rparr>) (glock_lock w)))"

definition melon_deinit :: "world \<Rightarrow> os res" where
  "melon_deinit w =
    assert_that (g_fibers_count (g_melon w) = 0) (
    let w = deinit_stop w;
        s = melon_timer_manager_deinit (melon_io_manager_deinit ([], w));
        s = release R_threads_array (join_all 0 (unat (g_threads_nb (g_melon w))) s) in
    res_bind (melon_stack_deinit (stacks (snd s))) (\<lambda>st.
    let s = on_world (\<lambda>w. w\<lparr>stacks := st\<rparr>) s;
        s = release R_lock (release R_ready_cond (release R_zero_cond s)) in
    Inr (on_melon (\<lambda>g. g\<lparr>g_io := Map.empty\<rparr>) (release R_io_array s))))"

text \<open>\<^verbatim>\<open>melon_wait\<close>: whether it returns or sleeps on \<^verbatim>\<open>fibers_count_zero\<close>.\<close>

definition melon_wait :: "world \<Rightarrow> (bool \<times> world) res" where
  "melon_wait w =
    (let w = glock_lock w in
     assert_that (g_fibers_count (g_melon w) \<ge> 0) (
     if g_fibers_count (g_melon w) = 0 then Inr (True, glock_unlock w) else Inr (False, w)))"

section \<open>Balance\<close>

lemma balance_simps [simp]:
  "balance r [] = 0"
  "balance r (log @ [Acquire q]) = balance r log + (if q = r then 1 else 0)"
  "balance r (log @ [Release q]) = balance r log - (if q = r then 1 else 0)"
  by (simp_all add: balance_def)

lemma os_simps [simp]:
  "balance r (fst (acquire q s)) = balance r (fst s) + (if q = r then 1 else 0)"
  "balance r (fst (release q s)) = balance r (fst s) - (if q = r then 1 else 0)"
  "fst (on_world f s) = fst s" "fst (on_melon g s) = fst s"
  "snd (acquire q s) = snd s" "snd (release q s) = snd s"
  "snd (on_world f s) = f (snd s)" "snd (on_melon g s) = mod_melon g (snd s)"
  by (simp_all add: acquire_def release_def on_world_def on_melon_def)

lemma balance_join_threads [simp]:
  "balance r (fst (join_threads n s)) = balance r (fst s) - (case r of R_thread i \<Rightarrow> if i < n then 1 else 0 | _ \<Rightarrow> 0)"
  by (induction n arbitrary: s) (auto split: os_resource.splits)

lemma balance_join_all [simp]:
  "balance r (fst (join_all k n s)) =
    balance r (fst s) - (case r of R_thread i \<Rightarrow> if k \<le> i \<and> i < k + n then 1 else 0 | _ \<Rightarrow> 0)"
  by (induction n arbitrary: k s) (auto split: os_resource.splits)

lemma create_threads_balance:
  assumes "create_threads env k n s = (all, j, s')"
  shows "balance r (fst s') = balance r (fst s) + (case r of R_thread i \<Rightarrow> if k \<le> i \<and> i < j then 1 else 0 | _ \<Rightarrow> 0)"
    "k \<le> j" "all \<Longrightarrow> j = k + n" "snd s' = snd s"
proof -
  have "balance r (fst s') = balance r (fst s) + (case r of R_thread i \<Rightarrow> if k \<le> i \<and> i < j then 1 else 0 | _ \<Rightarrow> 0) \<and>
    k \<le> j \<and> (all \<longrightarrow> j = k + n) \<and> snd s' = snd s"
    using assms
  proof (induction n arbitrary: k s)
    case (Suc n)
    show ?case
    proof (cases "e_ok env (R_thread k)")
      case True
      with Suc.prems have "create_threads env (Suc k) n (acquire (R_thread k) s) = (all, j, s')" by simp
      from Suc.IH [OF this] show ?thesis by (auto split: os_resource.splits)
    qed (use Suc.prems in \<open>auto split: os_resource.splits\<close>)
  qed (auto split: os_resource.splits)
  then show "balance r (fst s') = balance r (fst s) + (case r of R_thread i \<Rightarrow> if k \<le> i \<and> i < j then 1 else 0 | _ \<Rightarrow> 0)"
    "k \<le> j" "all \<Longrightarrow> j = k + n" "snd s' = snd s" by blast+
qed

lemmas failure_defs = failure_mutex_def failure_cond_def failure_cond2_def failure_calloc_def
  failure_io_manager_def failure_timer_manager_def failure_pthread_def
  melon_io_manager_deinit_def melon_timer_manager_deinit_def

text \<open>What is held when the runtime is started with \<open>n\<close> threads.\<close>

definition holds :: "nat \<Rightarrow> os_resource \<Rightarrow> int" where
  "holds n r = (case r of R_mutexattr \<Rightarrow> 0 | R_condattr \<Rightarrow> 0 | R_thread i \<Rightarrow> if i < n then 1 else 0 | _ \<Rightarrow> 1)"

lemma init_pool_balance:
  assumes "init_pool env s = Inr (ret, s')" and "balance r (fst s) = (case r of R_mutexattr \<Rightarrow> 0 |
      R_condattr \<Rightarrow> 0 | R_thread i \<Rightarrow> 0 | R_threads_array \<Rightarrow> 0 | _ \<Rightarrow> 1)"
  shows "if ret = 0 then balance r (fst s') = holds (unat (g_threads_nb (g_melon (snd s)))) r \<and> snd s' = snd s
    else balance r (fst s') = (if r = R_mutexattr then -1 else 0)"
proof -
  obtain all i s1 where c: "create_threads env 0 (unat (g_threads_nb (g_melon (snd s)))) (acquire R_threads_array s) = (all, i, s1)"
    by (metis prod_cases3)
  note b = create_threads_balance [OF c]
  show ?thesis
  proof (cases all)
    case True
    then have "ret = 0" "s' = s1" using assms(1) c by (auto simp: init_pool_def split: if_splits)
    then show ?thesis using b(1) [of r] b(3) [OF True] b(4) assms(2) by (auto simp: holds_def split: os_resource.splits)
  next
    case False
    then have "ret = -1" "s' = failure_pthread i s1" using assms(1) c by (auto simp: init_pool_def split: if_splits)
    then show ?thesis using b(1) [of r] assms(2) by (cases r) (simp_all add: failure_defs)
  qed
qed

text \<open>The state of a started runtime.\<close>

definition started :: "os_env \<Rightarrow> 32 word \<Rightarrow> world \<Rightarrow> world" where
  "started env nb_threads w =
    w\<lparr>g_melon := init_io env ((g_melon w)\<lparr>g_stop := 0, g_fibers_count := 0, g_ready := NULL,
        g_threads_nb := init_threads_nb env nb_threads, g_epoll_fd := e_epoll_fd env, g_timer_queue := NULL\<rparr>),
      stacks := melon_stack_init (stacks w)\<rparr>"

text \<open>A start fails before the thread pool, and gives back what it took, or reaches it.\<close>

lemma init_managers_cases:
  assumes "init_managers env nb_threads s = Inr (ret, s')"
    and "balance r (fst s) = (if r \<in> {R_lock, R_ready_cond, R_zero_cond} then 1 else 0)"
  shows "ret \<noteq> 0 \<and> balance r (fst s') = (if r = R_mutexattr then -1 else 0) \<or>
    (\<exists>s1. init_pool env s1 = Inr (ret, s') \<and> balance r (fst s1) = (case r of R_mutexattr \<Rightarrow> 0 |
      R_condattr \<Rightarrow> 0 | R_thread i \<Rightarrow> 0 | R_threads_array \<Rightarrow> 0 | _ \<Rightarrow> 1) \<and>
      snd s1 = (snd s)\<lparr>g_melon := init_io env ((g_melon (snd s))\<lparr>g_threads_nb := init_threads_nb env nb_threads,
        g_epoll_fd := e_epoll_fd env, g_timer_queue := NULL\<rparr>), stacks := melon_stack_init (stacks (snd s))\<rparr>)"
proof (cases "\<forall>q \<in> {R_io_array, R_epoll_fd, R_io_thread, R_condattr, R_timer_cond, R_timer_thread}. e_ok env q")
  case True
  let ?s = "on_melon (\<lambda>g. g\<lparr>g_threads_nb := init_threads_nb env nb_threads\<rparr>)
    (on_world (\<lambda>w. w\<lparr>stacks := melon_stack_init (stacks w)\<rparr>) s)"
  let ?s1 = "acquire R_timer_thread (release R_condattr (acquire R_timer_cond (acquire R_condattr
    (on_melon (\<lambda>g. g\<lparr>g_timer_queue := NULL\<rparr>) (acquire R_io_thread (on_melon (\<lambda>g. g\<lparr>g_epoll_fd := e_epoll_fd env\<rparr>)
    (acquire R_epoll_fd (on_melon (init_io env) (acquire R_io_array ?s)))))))))"
  have "init_pool env ?s1 = Inr (ret, s')"
    using assms(1) True by (simp add: init_managers_def melon_io_manager_init_def melon_timer_manager_init_def
        assert_that_def Let_def split: if_splits)
  moreover have "balance r (fst ?s1) = (case r of R_mutexattr \<Rightarrow> 0 |
      R_condattr \<Rightarrow> 0 | R_thread i \<Rightarrow> 0 | R_threads_array \<Rightarrow> 0 | _ \<Rightarrow> 1)" using assms(2) by (cases r) simp_all
  moreover have "snd ?s1 = (snd s)\<lparr>g_melon := init_io env ((g_melon (snd s))\<lparr>g_threads_nb := init_threads_nb env nb_threads,
        g_epoll_fd := e_epoll_fd env, g_timer_queue := NULL\<rparr>), stacks := melon_stack_init (stacks (snd s))\<rparr>"
    by (simp add: init_io_def world_defs)
  ultimately show ?thesis by blast
next
  case False
  then show ?thesis using assms by (cases r) (auto simp: init_managers_def melon_io_manager_init_def
      melon_timer_manager_init_def failure_defs assert_that_def Let_def split: if_splits)
qed

lemma melon_init_result:
  assumes "melon_init env nb_threads w = Inr (ret, s')"
  shows "if ret = 0 then balance r (fst s') = holds (unat (init_threads_nb env nb_threads)) r \<and> snd s' = started env nb_threads w
    else balance r (fst s') = (if r = R_mutexattr \<and> e_ok env R_mutexattr \<and> e_settype env = 0 \<and> e_ok env R_lock then -1 else 0)"
proof (cases "e_ok env R_mutexattr \<and> e_settype env = 0 \<and> e_ok env R_lock \<and> e_ok env R_ready_cond \<and> e_ok env R_zero_cond")
  case True
  let ?s = "acquire R_zero_cond (acquire R_ready_cond (release R_mutexattr (acquire R_lock (acquire R_mutexattr
    (on_melon (\<lambda>g. g\<lparr>g_stop := 0, g_fibers_count := 0, g_ready := NULL\<rparr>) ([], w))))))"
  have m: "init_managers env nb_threads ?s = Inr (ret, s')" using assms True by (simp add: melon_init_def Let_def)
  have "balance r (fst ?s) = (if r \<in> {R_lock, R_ready_cond, R_zero_cond} then 1 else 0)" by (cases r) simp_all
  from init_managers_cases [OF m this] show ?thesis
  proof
    assume "\<exists>s1. init_pool env s1 = Inr (ret, s') \<and> balance r (fst s1) = (case r of R_mutexattr \<Rightarrow> 0 |
      R_condattr \<Rightarrow> 0 | R_thread i \<Rightarrow> 0 | R_threads_array \<Rightarrow> 0 | _ \<Rightarrow> 1) \<and>
      snd s1 = (snd ?s)\<lparr>g_melon := init_io env ((g_melon (snd ?s))\<lparr>g_threads_nb := init_threads_nb env nb_threads,
        g_epoll_fd := e_epoll_fd env, g_timer_queue := NULL\<rparr>), stacks := melon_stack_init (stacks (snd ?s))\<rparr>"
    then obtain s1 where s1: "init_pool env s1 = Inr (ret, s')" "balance r (fst s1) = (case r of R_mutexattr \<Rightarrow> 0 |
      R_condattr \<Rightarrow> 0 | R_thread i \<Rightarrow> 0 | R_threads_array \<Rightarrow> 0 | _ \<Rightarrow> 1)"
      "snd s1 = started env nb_threads w" by (auto simp: started_def world_defs)
    have "g_threads_nb (g_melon (started env nb_threads w)) = init_threads_nb env nb_threads"
      by (simp add: started_def init_io_def)
    with init_pool_balance [OF s1(1,2)] s1(3) True show ?thesis by (auto split: if_splits)
  qed (use True in auto)
next
  case False
  then show ?thesis using assms by (auto simp: melon_init_def Let_def failure_defs split: if_splits)
qed

lemmas melon_init_all = melon_init_result [where s' = "(log, w')" for log w', simplified]

lemma snd_join_all [simp]: "snd (join_all k n s) = snd s"
  by (induction n arbitrary: k s) simp_all

lemma melon_deinit_all:
  assumes "melon_deinit w = Inr (log, w')"
  shows "balance r log = - holds (unat (g_threads_nb (g_melon w))) r \<and> g_stop (g_melon w') = 1"
proof -
  have "balance r (fst s) = - holds (unat (g_threads_nb (g_melon w))) r \<and> g_stop (g_melon (snd s)) = 1"
    if "melon_deinit w = Inr s" for s
    using that by (cases r) (auto simp: melon_deinit_def deinit_stop_def failure_defs holds_def Let_def
        world_defs assert_that_def res_bind_eq_Inr split: if_splits)
  from this [OF assms] show ?thesis by simp
qed

lemma melon_deinit_returns:
  assumes "g_fibers_count (g_melon w) = 0" and "stack_inv (stacks w) xs used"
  obtains log w' where "melon_deinit w = Inr (log, w')" and "dom (stack_mem (stacks w')) = used"
proof -
  obtain st where st: "melon_stack_deinit (stacks w) = Inr st" "dom (stack_mem st) = used" using stack_deinit_empties [OF assms(2)] by blast
  have "\<exists>s. melon_deinit w = Inr s \<and> stacks (snd s) = st"
    using assms(1) st(1) by (simp add: melon_deinit_def deinit_stop_def failure_defs world_defs Let_def)
  then obtain s where "melon_deinit w = Inr (fst s, snd s)" "stacks (snd s) = st" by auto
  then show thesis using that st(2) by blast
qed

lemma init_starts_empty:
  assumes "melon_init env nb_threads w = Inr (0, log, w')"
    and "fibers w = Map.empty" "mutexes w = Map.empty" "conds w = Map.empty" "signal_list w = NULL"
  shows "rep w' (abs0 w')" and "g_stop (g_melon w') = 0" and "g_fibers_count (g_melon w') = 0"
    and "dom (g_io (g_melon w')) = {..< e_nofile env}" and "0 < g_threads_nb (g_melon w')"
proof -
  have w': "w' = started env nb_threads w" using melon_init_all [OF assms(1)] by simp
  have "qhead w' q = NULL" for q using assms by (cases q) (auto simp: w' started_def init_io_def)
  then have "quiet w'" using assms by (simp add: quiet_def w' started_def init_io_def)
  then show "rep w' (abs0 w')" by (rule rep_abs0)
qed (use melon_init_all [OF assms(1)] in \<open>auto simp: started_def init_io_def init_threads_nb_def Let_def word_neq_0_conv split: if_splits\<close>)

section \<open>Properties\<close>

text \<open>
  When \<^verbatim>\<open>melon_init\<close> succeeds it holds exactly the resources of a started
  runtime, each once, with one thread for each that was asked for; when it fails, on any
  path, every resource it took has been given back once. The one exception is the mutex
  attribute: once the big lock exists, a later failure destroys the attribute a second
  time.
\<close>

theorem init_balance:
  assumes "melon_init env nb_threads w = Inr (ret, log, w')"
  shows "(ret = 0 \<longrightarrow> balance r log = holds (unat (init_threads_nb env nb_threads)) r) \<and>
    (ret \<noteq> 0 \<longrightarrow> balance r log =
      (if r = R_mutexattr \<and> e_ok env R_mutexattr \<and> e_settype env = 0 \<and> e_ok env R_lock then -1 else 0))"
  using melon_init_all [OF assms, of r] by (auto split: if_splits)

definition ex_env :: os_env where
  "ex_env = \<lparr>e_ok = (\<lambda>_. True), e_settype = 0, e_setclock = 0, e_epoll_fd = 3, e_nproc = 4, e_nofile = 10\<rparr>"

definition ex_blank :: world where
  "ex_blank = \<lparr>fibers = Map.empty, mutexes = Map.empty, conds = Map.empty, rwlocks = Map.empty, sems = Map.empty,
    barriers = Map.empty, g_melon = \<lparr>g_lock = 0, g_ready = NULL, g_io = Map.empty, g_epoll_fd = 0, g_threads_nb = 0,
      g_timer_queue = NULL, g_stop = 0, g_fibers_count = 0, g_os_log = []\<rparr>, g_current_fiber = NULL, errno = 0,
    signal_list = NULL, stacks = \<lparr>g_stack_list_lock = 0, g_stack_list = NULL, g_stack_list_nb = 0, stack_mem = Map.empty\<rparr>\<rparr>"

theorem init_balance_witness:
  "\<exists>log w'. melon_init (ex_env\<lparr>e_ok := (\<lambda>r. r \<noteq> R_ready_cond)\<rparr>) 2 ex_blank = Inr (-1, log, w') \<and> balance R_mutexattr log = -1"
proof -
  let ?env = "ex_env\<lparr>e_ok := (\<lambda>r. r \<noteq> R_ready_cond)\<rparr>"
  obtain log w' where i: "melon_init ?env 2 ex_blank = Inr (-1, log, w')"
    by (cases "snd (projr (melon_init ?env 2 ex_blank))")
      (simp add: melon_init_def ex_env_def failure_defs Let_def)
  from init_balance [OF this, of R_mutexattr] have "balance R_mutexattr log = -1" by (simp add: ex_env_def)
  with i show ?thesis by blast
qed

lemma ex_init: "\<exists>log. melon_init ex_env 1 ex_blank = Inr (0, log, started ex_env 1 ex_blank)"
proof -
  obtain s where "melon_init ex_env 1 ex_blank = Inr (0, s)"
    by (simp add: melon_init_def init_managers_def init_pool_def melon_io_manager_init_def melon_timer_manager_init_def
        ex_env_def init_threads_nb_def init_io_def world_defs)
  then obtain log w' where i: "melon_init ex_env 1 ex_blank = Inr (0, log, w')" by (cases s) simp
  with melon_init_all [OF i] show ?thesis by simp
qed

text \<open>
  C35: Stopping gives back what starting took: after a successful \<^verbatim>\<open>melon_init\<close> and a
  \<^verbatim>\<open>melon_deinit\<close>, with no change of the number of threads in between, nothing is
  holds, and the runtime is marked as stopped.
\<close>

theorem init_deinit_balance:
  assumes "melon_init env nb_threads w = Inr (0, log, w1)"
    and "g_threads_nb (g_melon w2) = g_threads_nb (g_melon w1)" and "melon_deinit w2 = Inr (log', w')"
  shows "balance r log + balance r log' = 0 \<and> g_stop (g_melon w') = 1"
proof -
  have "balance r log = holds (unat (g_threads_nb (g_melon w2))) r"
    using melon_init_all [OF assms(1), of r] assms(2) by (simp add: started_def init_io_def)
  with melon_deinit_all [OF assms(3), of r] show ?thesis by simp
qed

theorem init_deinit_balance_witness:
  "\<exists>log w1 log' w'. melon_init ex_env 1 ex_blank = Inr (0, log, w1) \<and> melon_deinit w1 = Inr (log', w') \<and>
    balance R_lock log + balance R_lock log' = 0"
proof -
  obtain log where i: "melon_init ex_env 1 ex_blank = Inr (0, log, started ex_env 1 ex_blank)" using ex_init by blast
  obtain log' w' where d: "melon_deinit (started ex_env 1 ex_blank) = Inr (log', w')"
    by (rule melon_deinit_returns [of "started ex_env 1 ex_blank" "[]" "{}"])
      (auto simp: started_def init_io_def melon_stack_init_def melon_spin_init_def stack_inv_def ex_blank_def)
  from init_deinit_balance [OF i refl d, of R_lock] i d show ?thesis by blast
qed

end
