(* ===== verification/Melon_Main.thy ===== *)
theory Melon_Main
  imports Melon_Life Melon_Runtime
begin

text \<open>
  The \<^verbatim>\<open>main\<close> that the macro \<^verbatim>\<open>MELON_MAIN\<close> of \<^verbatim>\<open>include/melon/melon.h\<close> defines:
  it starts the runtime, runs the program's main function as the first fiber, waits for all
  the fibers to end, and stops the runtime.
\<close>

datatype main_outcome = Main_returns int | Main_waits

text \<open>
  \<^verbatim>\<open>melon_wait\<close> and what follows, with the calls \<open>log\<close> made so far; \<open>retval\<close> is
  \<^verbatim>\<open>data.retval\<close> at that time. A thread that waits has left \<^verbatim>\<open>g_melon.lock\<close>, and
  goes on here when it is woken.
\<close>

definition main_wait :: "int \<Rightarrow> os_call list \<Rightarrow> world \<Rightarrow> (main_outcome \<times> os) res" where
  "main_wait retval log w =
    res_bind (melon_wait w) (\<lambda>(over, w).
    if over then res_bind (melon_deinit w) (\<lambda>(log', w). Inr (Main_returns retval, log @ log', w))
    else Inr (Main_waits, log, glock_unlock w))"

definition melon_main :: "os_env \<Rightarrow> fiber_env \<Rightarrow> ptr \<Rightarrow> ptr \<Rightarrow> world \<Rightarrow> (main_outcome \<times> os) res" where
  "melon_main env fenv main_wrapper data w =
    res_bind (melon_init env 0 w) (\<lambda>(ret, log, w).
    if ret \<noteq> 0 then Inr (Main_returns 1, log, w)
    else
      res_bind (melon_fiber_createlight fenv None main_wrapper data w) (\<lambda>(ret, w).
      if ret \<noteq> 0 then res_bind (melon_deinit w) (\<lambda>(log', w). Inr (Main_returns 1, log @ log', w))
      else main_wait 0 log w))"

section \<open>Properties\<close>

lemma balance_append [simp]: "balance r (xs @ ys) = balance r xs + balance r ys"
  by (simp add: balance_def)

text \<open>An address space before the start: nothing of the runtime is in memory.\<close>

definition blank :: "world \<Rightarrow> bool" where
  "blank w \<longleftrightarrow> fibers w = Map.empty \<and> mutexes w = Map.empty \<and> conds w = Map.empty \<and> signal_list w = NULL \<and> stack_mem (stacks w) = Map.empty"

lemma init_stacks:
  assumes "melon_init env nb w = Inr (0, log, w1)" and "blank w"
  shows "stack_inv (stacks w1) [] {}" and "fibers w1 = Map.empty"
proof -
  have "w1 = started env nb w" using melon_init_all [OF assms(1)] by simp
  then show "stack_inv (stacks w1) [] {}" "fibers w1 = Map.empty"
    using assms(2) by (simp_all add: started_def blank_def stack_inv_def melon_stack_init_def melon_spin_init_def)
qed

lemma init_fresh:
  assumes "melon_init env nb w = Inr (0, log, w1)" and "blank w" and "fe_getcontext fenv = 0"
  shows "fresh_env fenv w1"
proof -
  have "w1 = started env nb w" using melon_init_all [OF assms(1)] by simp
  then show ?thesis using assms(2,3) by (simp add: fresh_env_def started_def blank_def)
qed

lemma rep_fibers_empty: "rep w s \<Longrightarrow> sp_fiber s = Map.empty \<Longrightarrow> fibers w = Map.empty"
  by (auto simp: rep_def erase_def cores_def fun_eq_iff)

lemma wait_defs: "g_fibers_count (g_melon (glock_lock w)) = g_fibers_count (g_melon w)"
  by (simp add: world_defs)

lemma deinit_after_init:
  assumes i: "melon_init env nb w = Inr (0, log, w1)" and n: "g_threads_nb (g_melon w2) = g_threads_nb (g_melon w1)"
    and c: "g_fibers_count (g_melon w2) = 0" and st: "stack_inv (stacks w2) xs {}"
  obtains log' w' where "melon_deinit w2 = Inr (log', w')" and "\<forall>r. balance r (log @ log') = 0"
    and "stack_mem (stacks w') = Map.empty" and "g_stop (g_melon w') = 1"
proof -
  obtain log' w' where d: "melon_deinit w2 = Inr (log', w')" "dom (stack_mem (stacks w')) = {}" by (rule melon_deinit_returns [OF c st])
  have "balance r log = holds (unat (g_threads_nb (g_melon w2))) r" for r
    using melon_init_all [OF i, of r] n by (simp add: started_def init_io_def)
  then show thesis using melon_deinit_all [OF d(1)] d that by simp
qed


text \<open>A machine with one processor, on which every call succeeds.\<close>

definition ex_env1 :: os_env where
  "ex_env1 = ex_env\<lparr>e_nproc := 1\<rparr>"

lemma ex_init_main: "\<exists>log w'. melon_init ex_env1 0 ex_blank = Inr (0, log, w')"
proof -
  obtain s where "melon_init ex_env1 0 ex_blank = Inr (0, s)"
    by (simp add: melon_init_def init_managers_def init_pool_def melon_io_manager_init_def melon_timer_manager_init_def
        ex_env1_def ex_env_def init_threads_nb_def init_io_def world_defs)
  then show ?thesis by (cases s) simp
qed


lemma no_first_fiber:
  assumes w: "blank w" and i: "melon_init env 0 w = Inr (0, log, w1)" and f: "fct \<noteq> NULL"
    and fenv: "fe_fiber fenv = NULL \<or> fe_mmap fenv = None" "fe_getcontext fenv = 0"
  obtains log' w2 where "melon_fiber_start fenv None fct data False w1 = Inr (NULL, w1)" and "melon_deinit w1 = Inr (log', w2)"
    and "\<forall>r. balance r (log @ log') = 0" and "stack_mem (stacks w2) = Map.empty" and "g_stop (g_melon w2) = 1" and "g_fibers_count (g_melon w1) = 0"
proof -
  note s = init_starts_empty(3) [OF i] init_stacks [OF i w]
  have c: "g_fibers_count (g_melon w1) = 0" using s(1) w by (simp add: blank_def)
  have k: "g_stack_list_lock (stacks w1) = 0" "g_stack_list (stacks w1) = NULL" using s(2) by (simp_all add: stack_inv_def)
  have "melon_fiber_start fenv None fct data False w1 = Inr (NULL, w1)"
    by (rule fiber_start_fails [OF f init_fresh [OF i w fenv(2)] k(1)]) (use fenv(1) k(2) in \<open>auto simp: no_stack_def\<close>)
  then show thesis using deinit_after_init [OF i refl c s(2)] that c by metis
qed

text \<open>
  A program whose first fiber cannot be created, because there is no memory for it or
  for its stack, ends with 1 and has given back everything: \<^verbatim>\<open>main\<close> stops the runtime again.
\<close>

theorem main_without_fiber:
  assumes w: "blank w" and i: "melon_init env 0 w = Inr (0, log, w1)" and f: "main_wrapper \<noteq> NULL"
    and fenv: "fe_fiber fenv = NULL \<or> fe_mmap fenv = None" "fe_getcontext fenv = 0"
  shows "\<exists>log' w2. melon_main env fenv main_wrapper data w = Inr (Main_returns 1, log', w2) \<and> (\<forall>r. balance r log' = 0) \<and>
    stack_mem (stacks w2) = Map.empty \<and> g_stop (g_melon w2) = 1"
proof -
  obtain log' w2 where "melon_fiber_start fenv None main_wrapper data False w1 = Inr (NULL, w1)"
    "melon_deinit w1 = Inr (log', w2)" "\<forall>r. balance r (log @ log') = 0" "stack_mem (stacks w2) = Map.empty" "g_stop (g_melon w2) = 1"
    by (rule no_first_fiber [OF assms])
  then show ?thesis using i by (auto simp: melon_main_def melon_fiber_createlight_def)
qed

theorem main_without_fiber_witness:
  "\<exists>log' w2. melon_main ex_env1 (ex_fiber_env\<lparr>fe_mmap := None\<rparr>) 1 0 ex_blank = Inr (Main_returns 1, log', w2) \<and> balance R_lock log' = 0"
proof -
  obtain log w1 where i: "melon_init ex_env1 0 ex_blank = Inr (0, log, w1)" using ex_init_main by blast
  have "blank ex_blank" by (simp add: blank_def ex_blank_def)
  from main_without_fiber [OF this i, of 1 "ex_fiber_env\<lparr>fe_mmap := None\<rparr>" 0] show ?thesis by (auto simp: ex_fiber_env_def)
qed

end
