(* ===== verification/Melon_Io.thy ===== *)
theory Melon_Io
  imports Melon_Cond Melon_Run
begin

text \<open>
  Waiting for a file descriptor: the epoll manager of \<^verbatim>\<open>src/io_manager_epoll.c\<close>,
  the functions of \<^verbatim>\<open>src/io.c\<close>, and the dispatch of timer callbacks, of which the
  manager's \<^verbatim>\<open>waitfor_cb\<close> is the last. The system calls are parameters:
  \<open>epoll_ctl\<close> is given the number of the attempt, whether the request is
  \<^verbatim>\<open>EPOLL_CTL_MOD\<close>, the descriptor and the events, and returns its result and
  \<^verbatim>\<open>errno\<close>.
\<close>

section \<open>Epoll events\<close>

definition EPOLLIN :: "32 word" where "EPOLLIN = 0x1"
definition EPOLLPRI :: "32 word" where "EPOLLPRI = 0x2"
definition EPOLLOUT :: "32 word" where "EPOLLOUT = 0x4"
definition EPOLLERR :: "32 word" where "EPOLLERR = 0x8"
definition EPOLLHUP :: "32 word" where "EPOLLHUP = 0x10"
definition EPOLLRDHUP :: "32 word" where "EPOLLRDHUP = 0x2000"
definition EPOLLONESHOT :: "32 word" where "EPOLLONESHOT = 0x40000000"
definition EPOLLET :: "32 word" where "EPOLLET = 0x80000000"

lemmas epoll_defs = EPOLLIN_def EPOLLPRI_def EPOLLOUT_def EPOLLERR_def EPOLLHUP_def EPOLLRDHUP_def
  EPOLLONESHOT_def EPOLLET_def

record epoll_event =
  ev_events :: "32 word"
  ev_fd :: nat

type_synonym epoll_ctl = "nat \<Rightarrow> bool \<Rightarrow> nat \<Rightarrow> 32 word \<Rightarrow> int \<times> int"

section \<open>The entry of a descriptor\<close>

definition load_fd :: "nat \<Rightarrow> world \<Rightarrow> melon_fd res" where
  "load_fd fd w = (case g_io (g_melon w) fd of Some d \<Rightarrow> Inr d | None \<Rightarrow> Inl Bad_deref)"

definition mod_fd :: "nat \<Rightarrow> (melon_fd \<Rightarrow> melon_fd) \<Rightarrow> world \<Rightarrow> world res" where
  "mod_fd fd f w =
    res_bind (load_fd fd w) (\<lambda>d. Inr (mod_melon (\<lambda>g. g\<lparr>g_io := (g_io g)(fd \<mapsto> f d)\<rparr>) w))"

datatype direction = Rd | Wr

fun fd_queue :: "direction \<Rightarrow> melon_fd \<Rightarrow> ptr" where
  "fd_queue Rd d = read_queue d"
| "fd_queue Wr d = write_queue d"

fun set_fd_queue :: "direction \<Rightarrow> ptr \<Rightarrow> melon_fd \<Rightarrow> melon_fd" where
  "set_fd_queue Rd q d = d\<lparr>read_queue := q\<rparr>"
| "set_fd_queue Wr q d = d\<lparr>write_queue := q\<rparr>"

text \<open>The list macros on \<^verbatim>\<open>g_melon.io[fd].read_queue\<close> and \<^verbatim>\<open>write_queue\<close>.\<close>

definition fd_pop :: "direction \<Rightarrow> nat \<Rightarrow> world \<Rightarrow> (ptr \<times> world) res" where
  "fd_pop dir fd w =
    res_bind (load_fd fd w) (\<lambda>d.
    res_bind (fiber_pop (fd_queue dir d) w) (\<lambda>(q, fiber, w).
    res_bind (mod_fd fd (set_fd_queue dir q) w) (\<lambda>w.
    Inr (fiber, w))))"

definition fd_push :: "direction \<Rightarrow> nat \<Rightarrow> ptr \<Rightarrow> world \<Rightarrow> world res" where
  "fd_push dir fd fiber w =
    res_bind (load_fd fd w) (\<lambda>d.
    res_bind (fiber_push (fd_queue dir d) fiber w) (\<lambda>(q, w).
    mod_fd fd (set_fd_queue dir q) w))"

definition fd_unlink :: "direction \<Rightarrow> nat \<Rightarrow> ptr \<Rightarrow> world \<Rightarrow> world res" where
  "fd_unlink dir fd fiber w =
    res_bind (load_fd fd w) (\<lambda>d.
    res_bind (fiber_unlink (fd_queue dir d) fiber w) (\<lambda>(q, w).
    mod_fd fd (set_fd_queue dir q) w))"

section \<open>The manager's thread\<close>

definition melon_io_manager_release_fiber :: "ptr \<Rightarrow> world \<Rightarrow> world res" where
  "melon_io_manager_release_fiber fiber w =
    (if fiber = NULL then Inr w
     else
       res_bind (mod_fiber fiber (\<lambda>f. f\<lparr>f_waited_event := kEventNone\<rparr>) w) (\<lambda>w.
       res_bind (load (fibers w) fiber) (\<lambda>f.
       res_bind (if f_timer f > 0 then melon_timer_remove_locked fiber w else Inr w) (\<lambda>w.
       melon_sched_ready_locked fiber w))))"

text \<open>The macro \<^verbatim>\<open>RELEASE_LOOP\<close>.\<close>

partial_function (option) release_loop :: "direction \<Rightarrow> nat \<Rightarrow> world \<Rightarrow> world res option" where
  [code]: "release_loop dir fd w =
    (case fd_pop dir fd w of
       Inl e \<Rightarrow> Some (Inl e)
     | Inr r \<Rightarrow> (case r of (fiber, w) \<Rightarrow>
         if fiber = NULL then Some (Inr w)
         else (case melon_io_manager_release_fiber fiber w of
             Inl e \<Rightarrow> Some (Inl e)
           | Inr w \<Rightarrow> release_loop dir fd w)))"

definition release_one :: "direction \<Rightarrow> nat \<Rightarrow> world \<Rightarrow> world res" where
  "release_one dir fd w = res_bind (fd_pop dir fd w) (\<lambda>(fiber, w). melon_io_manager_release_fiber fiber w)"

definition wait_mask :: "melon_fd \<Rightarrow> 32 word" where
  "wait_mask d = (if read_queue d \<noteq> NULL then EPOLLIN else 0) OR (if write_queue d \<noteq> NULL then EPOLLOUT else 0)"

text \<open>
  The first component of the result is the event mask of the \<^verbatim>\<open>epoll_ctl\<close> call that
  arms the descriptor again, if there is one.
\<close>

definition melon_io_manager_handle :: "epoll_event \<Rightarrow> world \<Rightarrow> (32 word option \<times> world) res" where
  "melon_io_manager_handle event w =
    res_bind
      (if ev_events event AND (EPOLLRDHUP OR EPOLLERR OR EPOLLHUP) \<noteq> 0
       then
         res_bind (run_loop (release_loop Rd (ev_fd event) w)) (\<lambda>w.
         run_loop (release_loop Wr (ev_fd event) w))
       else Inr w) (\<lambda>w.
    res_bind (if ev_events event AND (EPOLLIN OR EPOLLPRI) \<noteq> 0 then release_one Rd (ev_fd event) w else Inr w) (\<lambda>w.
    res_bind (if ev_events event AND EPOLLOUT \<noteq> 0 then release_one Wr (ev_fd event) w else Inr w) (\<lambda>w.
    res_bind (load_fd (ev_fd event) w) (\<lambda>d.
    let events = EPOLLONESHOT OR wait_mask d in
    Inr (if events \<noteq> EPOLLONESHOT then Some events else None, w)))))"

text \<open>What the thread does with the events that one \<^verbatim>\<open>epoll_wait\<close> returned.\<close>

fun handle_events :: "epoll_event list \<Rightarrow> world \<Rightarrow> world res" where
  "handle_events [] w = Inr w"
| "handle_events (e # es) w = res_bind (melon_io_manager_handle e w) (\<lambda>(_, w). handle_events es w)"

definition melon_io_manager_pass :: "epoll_event list \<Rightarrow> world \<Rightarrow> world res" where
  "melon_io_manager_pass events w = res_bind (handle_events events (glock_lock w)) (\<lambda>w. Inr (glock_unlock w))"

section \<open>Waiting\<close>

definition waitfor_cb :: "ptr \<Rightarrow> waitfor_ctx \<Rightarrow> world \<Rightarrow> world res" where
  "waitfor_cb cur ctx w =
    res_bind (mod_fiber cur (\<lambda>f. f\<lparr>f_timer_ctx := Ctx_waitfor (ctx\<lparr>fc_timeout := 1\<rparr>)\<rparr>) w) (\<lambda>w.
    res_bind (load (fibers w) (fc_fiber ctx)) (\<lambda>f.
    res_bind
      (if f_waited_event f AND kEventIoRead \<noteq> 0 then fd_unlink Rd (fc_fildes ctx) (fc_fiber ctx) w
       else if f_waited_event f AND kEventIoWrite \<noteq> 0 then fd_unlink Wr (fc_fildes ctx) (fc_fiber ctx) w
       else Inr w) (\<lambda>w.
    melon_sched_ready_locked (fc_fiber ctx) w)))"

text \<open>The attempts of \<^verbatim>\<open>epoll_ctl\<close>: whether one succeeds, and the state it leaves.\<close>

partial_function (option) waitfor_ctl :: "epoll_ctl \<Rightarrow> nat \<Rightarrow> nat \<Rightarrow> 32 word \<Rightarrow> world \<Rightarrow> (bool \<times> world) res option" where
  [code]: "waitfor_ctl ctl n fd events w =
    (case load_fd fd w of
       Inl e \<Rightarrow> Some (Inl e)
     | Inr d \<Rightarrow> (case ctl n (is_in_epoll d \<noteq> 0) fd events of (ret, err) \<Rightarrow>
         if ret = 0 then Some (Inr (True, w))
         else if err = EEXIST
         then (case mod_fd fd (\<lambda>d. d\<lparr>is_in_epoll := 1\<rparr>) (w\<lparr>errno := err\<rparr>) of
             Inl e \<Rightarrow> Some (Inl e) | Inr w \<Rightarrow> waitfor_ctl ctl (n + 1) fd events w)
         else if err = ENOENT
         then (case mod_fd fd (\<lambda>d. d\<lparr>is_in_epoll := 0\<rparr>) (w\<lparr>errno := err\<rparr>) of
             Inl e \<Rightarrow> Some (Inl e) | Inr w \<Rightarrow> waitfor_ctl ctl (n + 1) fd events w)
         else Some (Inr (False, w\<lparr>errno := err\<rparr>))))"

text \<open>From the push on the queue of the descriptor to the swap.\<close>

definition waitfor_suspend :: "nat \<Rightarrow> event \<Rightarrow> int \<Rightarrow> ptr \<Rightarrow> world \<Rightarrow> (unit outcome \<times> world) res" where
  "waitfor_suspend fd waited_event timeout self w =
    res_bind
      (if waited_event AND kEventIoRead \<noteq> 0 then fd_push Rd fd self w
       else if waited_event AND kEventIoWrite \<noteq> 0 then fd_push Wr fd self w
       else Inl Assert_failed) (\<lambda>w.
    res_bind
      (if timeout > 0
       then
         let ctx = \<lparr>fc_fiber = self, fc_fildes = fd, fc_timeout = 0\<rparr> in
         res_bind (mod_fiber self (\<lambda>f. f\<lparr>f_timer := timeout, f_timer_ctx := Ctx_waitfor ctx,
           f_timer_cb := Cb_waitfor\<rparr>) w) (\<lambda>w.
         melon_timer_push_locked w)
       else mod_fiber self (\<lambda>f. f\<lparr>f_timer := 0\<rparr>) w) (\<lambda>w.
    res_bind (melon_sched_next (glock_unlock w)) (\<lambda>w.
    Inr (Suspended (), w))))"

definition melon_io_manager_waitfor ::
    "epoll_ctl \<Rightarrow> int \<Rightarrow> event \<Rightarrow> int \<Rightarrow> world \<Rightarrow> (unit outcome \<times> world) res" where
  "melon_io_manager_waitfor ctl fildes waited_event timeout w =
    (let self = g_current_fiber w; fd = nat fildes in
     if fildes < 0 then Inr (Returned (-1), w\<lparr>errno := EINVAL\<rparr>)
     else
       let w = glock_lock w in
       res_bind (load_fd fd w) (\<lambda>d.
       let events = EPOLLONESHOT OR EPOLLET OR wait_mask d OR
             (if waited_event AND kEventIoRead \<noteq> 0 then EPOLLIN else 0) OR
             (if waited_event AND kEventIoWrite \<noteq> 0 then EPOLLOUT else 0) in
       res_bind (run_loop (waitfor_ctl ctl 0 fd events w)) (\<lambda>(ok, w).
       if \<not> ok then Inr (Returned (-1), glock_unlock w)
       else
         res_bind (mod_fiber self (\<lambda>f. f\<lparr>f_waited_event := waited_event, f_io_canceled := 0\<rparr>) w) (\<lambda>w.
         res_bind (mod_fd fd (\<lambda>d. d\<lparr>is_in_epoll := 1\<rparr>) w) (\<lambda>w.
         waitfor_suspend fd waited_event timeout self w)))))"

definition waitfor_timed_out :: "int \<Rightarrow> melon_fiber \<Rightarrow> bool" where
  "waitfor_timed_out timeout f \<longleftrightarrow> timeout > 0 \<and>
     (case f_timer_ctx f of Ctx_waitfor ctx \<Rightarrow> fc_timeout ctx \<noteq> 0 | _ \<Rightarrow> False)"

definition melon_io_manager_waitfor_resume :: "int \<Rightarrow> world \<Rightarrow> (int \<times> world) res" where
  "melon_io_manager_waitfor_resume timeout w =
    res_bind (load (fibers w) (g_current_fiber w)) (\<lambda>f.
    if waitfor_timed_out timeout f then Inr (- ETIMEDOUT, w\<lparr>errno := - ETIMEDOUT\<rparr>)
    else if f_io_canceled f \<noteq> 0 then Inr (- ECANCELED, w\<lparr>errno := - ECANCELED\<rparr>)
    else Inr (0, w))"

section \<open>Closing and cancelling\<close>

partial_function (option) close_flush_queue :: "direction \<Rightarrow> nat \<Rightarrow> world \<Rightarrow> world res option" where
  [code]: "close_flush_queue dir fd w =
    (case fd_pop dir fd w of
       Inl e \<Rightarrow> Some (Inl e)
     | Inr r \<Rightarrow> (case r of (cur, w) \<Rightarrow>
         if cur = NULL then Some (Inr w)
         else (case mod_fiber cur (\<lambda>f. f\<lparr>f_waited_event := kEventNone\<rparr>) w of
             Inl e \<Rightarrow> Some (Inl e)
           | Inr w \<Rightarrow> (case load (fibers w) cur of
                 Inl e \<Rightarrow> Some (Inl e)
               | Inr f \<Rightarrow> (case (if f_timer f > 0 then melon_timer_remove_locked cur w else Inr w) of
                     Inl e \<Rightarrow> Some (Inl e)
                   | Inr w \<Rightarrow> (case mod_fiber cur (\<lambda>f. f\<lparr>f_io_canceled := 1\<rparr>) w of
                         Inl e \<Rightarrow> Some (Inl e)
                       | Inr w \<Rightarrow> (case melon_sched_ready_locked cur w of
                             Inl e \<Rightarrow> Some (Inl e)
                           | Inr w \<Rightarrow> close_flush_queue dir fd w)))))))"

text \<open>\<open>close_ret\<close> is the result of \<^verbatim>\<open>close\<close>.\<close>

definition melon_close :: "int \<Rightarrow> int \<Rightarrow> world \<Rightarrow> (int \<times> world) res" where
  "melon_close close_ret fildes w =
    (if fildes < 0 then Inr (-1, w\<lparr>errno := EINVAL\<rparr>)
     else
       res_bind (run_loop (close_flush_queue Rd (nat fildes) (glock_lock w))) (\<lambda>w.
       res_bind (run_loop (close_flush_queue Wr (nat fildes) w)) (\<lambda>w.
       res_bind (mod_fd (nat fildes) (\<lambda>d. d\<lparr>is_in_epoll := 0\<rparr>) w) (\<lambda>w.
       Inr (close_ret, glock_unlock w)))))"

definition melon_cancelio :: "int \<Rightarrow> world \<Rightarrow> (int \<times> world) res" where
  "melon_cancelio fildes w =
    (if fildes < 0 then Inr (-1, w\<lparr>errno := EINVAL\<rparr>)
     else
       res_bind (run_loop (close_flush_queue Rd (nat fildes) (glock_lock w))) (\<lambda>w.
       res_bind (run_loop (close_flush_queue Wr (nat fildes) w)) (\<lambda>w.
       Inr (0, glock_unlock w))))"

section \<open>The calls of io.c\<close>

text \<open>
  Each function waits for one or two descriptors and then makes one system call; it
  returns -1 when a wait fails. The model of a function is the list of its waits and the
  system call; \<open>io_run\<close> runs it, and the waits that are left name the point where it is
  suspended. \<open>sys\<close> gives the result of a system call.
\<close>

datatype syscall = Sys_write | Sys_pwrite | Sys_writev | Sys_pwritev | Sys_read | Sys_pread | Sys_readv | Sys_preadv
  | Sys_accept | Sys_sendto | Sys_recvfrom | Sys_recvmsg | Sys_sendmsg | Sys_sendfile | Sys_splice | Sys_tee
  | Sys_vmsplice | Sys_return_0

record io_call =
  io_waits :: "(int \<times> event) list"
  io_sys :: syscall

fun io_run_waits ::
    "epoll_ctl \<Rightarrow> (syscall \<Rightarrow> int) \<Rightarrow> int \<Rightarrow> syscall \<Rightarrow> (int \<times> event) list \<Rightarrow> world \<Rightarrow> (io_call outcome \<times> world) res" where
  "io_run_waits ctl sys timeout call [] w = Inr (Returned (sys call), w)"
| "io_run_waits ctl sys timeout call ((fd, ev) # rest) w =
    res_bind (melon_io_manager_waitfor ctl fd ev timeout w) (\<lambda>(r, w).
    case r of
      Returned n \<Rightarrow> if n \<noteq> 0 then Inr (Returned (-1), w) else io_run_waits ctl sys timeout call rest w
    | Suspended _ \<Rightarrow> Inr (Suspended \<lparr>io_waits = rest, io_sys = call\<rparr>, w))"

definition io_run :: "epoll_ctl \<Rightarrow> (syscall \<Rightarrow> int) \<Rightarrow> int \<Rightarrow> io_call \<Rightarrow> world \<Rightarrow> (io_call outcome \<times> world) res" where
  "io_run ctl sys timeout c w = io_run_waits ctl sys timeout (io_sys c) (io_waits c) w"

definition io_resume :: "epoll_ctl \<Rightarrow> (syscall \<Rightarrow> int) \<Rightarrow> int \<Rightarrow> io_call \<Rightarrow> world \<Rightarrow> (io_call outcome \<times> world) res" where
  "io_resume ctl sys timeout c w =
    res_bind (melon_io_manager_waitfor_resume timeout w) (\<lambda>(ret, w).
    if ret \<noteq> 0 then Inr (Returned (-1), w) else io_run ctl sys timeout c w)"

definition melon_write :: "int \<Rightarrow> io_call" where
  "melon_write fildes = \<lparr>io_waits = [(fildes, kEventIoWrite)], io_sys = Sys_write\<rparr>"

definition melon_pwrite :: "int \<Rightarrow> io_call" where
  "melon_pwrite fildes = \<lparr>io_waits = [(fildes, kEventIoWrite)], io_sys = Sys_pwrite\<rparr>"

definition melon_writev :: "int \<Rightarrow> io_call" where
  "melon_writev fildes = \<lparr>io_waits = [(fildes, kEventIoWrite)], io_sys = Sys_writev\<rparr>"

definition melon_pwritev :: "int \<Rightarrow> io_call" where
  "melon_pwritev fildes = \<lparr>io_waits = [(fildes, kEventIoWrite)], io_sys = Sys_pwrite\<rparr>"

definition melon_read :: "int \<Rightarrow> io_call" where
  "melon_read fildes = \<lparr>io_waits = [(fildes, kEventIoRead)], io_sys = Sys_read\<rparr>"

definition melon_pread :: "int \<Rightarrow> io_call" where
  "melon_pread fildes = \<lparr>io_waits = [(fildes, kEventIoRead)], io_sys = Sys_pread\<rparr>"

definition melon_readv :: "int \<Rightarrow> io_call" where
  "melon_readv fildes = \<lparr>io_waits = [(fildes, kEventIoRead)], io_sys = Sys_readv\<rparr>"

definition melon_preadv :: "int \<Rightarrow> io_call" where
  "melon_preadv fildes = \<lparr>io_waits = [(fildes, kEventIoRead)], io_sys = Sys_preadv\<rparr>"

definition melon_accept :: "int \<Rightarrow> io_call" where
  "melon_accept socket = \<lparr>io_waits = [(socket, kEventIoRead)], io_sys = Sys_accept\<rparr>"

definition melon_sendto :: "int \<Rightarrow> io_call" where
  "melon_sendto socket = \<lparr>io_waits = [(socket, kEventIoWrite)], io_sys = Sys_sendto\<rparr>"

definition melon_recvfrom :: "int \<Rightarrow> io_call" where
  "melon_recvfrom socket = \<lparr>io_waits = [(socket, kEventIoRead)], io_sys = Sys_recvfrom\<rparr>"

definition melon_recvmsg :: "int \<Rightarrow> io_call" where
  "melon_recvmsg socket = \<lparr>io_waits = [(socket, kEventIoRead)], io_sys = Sys_recvmsg\<rparr>"

definition melon_sendmsg :: "int \<Rightarrow> io_call" where
  "melon_sendmsg socket = \<lparr>io_waits = [(socket, kEventIoWrite)], io_sys = Sys_sendmsg\<rparr>"

definition melon_sendfile :: "int \<Rightarrow> io_call" where
  "melon_sendfile out_fd = \<lparr>io_waits = [(out_fd, kEventIoWrite)], io_sys = Sys_sendfile\<rparr>"

definition melon_splice :: "int \<Rightarrow> int \<Rightarrow> io_call" where
  "melon_splice fd_in fd_out = \<lparr>io_waits = [(fd_in, kEventIoRead), (fd_out, kEventIoWrite)], io_sys = Sys_splice\<rparr>"

definition melon_tee :: "int \<Rightarrow> int \<Rightarrow> io_call" where
  "melon_tee fd_in fd_out = \<lparr>io_waits = [(fd_in, kEventIoRead), (fd_out, kEventIoWrite)], io_sys = Sys_tee\<rparr>"

definition melon_vmsplice :: "int \<Rightarrow> io_call" where
  "melon_vmsplice fd = \<lparr>io_waits = [(fd, kEventIoRead)], io_sys = Sys_vmsplice\<rparr>"

text \<open>\<open>ret\<close> and \<open>err\<close> are the result of \<^verbatim>\<open>connect\<close> and its error number.\<close>

definition melon_connect ::
    "epoll_ctl \<Rightarrow> int \<Rightarrow> int \<Rightarrow> int \<Rightarrow> int \<Rightarrow> world \<Rightarrow> (io_call outcome \<times> world) res" where
  "melon_connect ctl ret err socket timeout w =
    (if ret = 0 then Inr (Returned 0, w)
     else if err \<noteq> EINPROGRESS then Inr (Returned (-1), w\<lparr>errno := err\<rparr>)
     else io_run ctl (\<lambda>_. 0) timeout \<lparr>io_waits = [(socket, kEventIoWrite)], io_sys = Sys_return_0\<rparr> (w\<lparr>errno := err\<rparr>))"

section \<open>Timer callbacks\<close>

text \<open>The call \<^verbatim>\<open>curr->timer_cb(curr->timer_ctx)\<close> of the timer manager.\<close>

definition run_timer_cb :: "ptr \<Rightarrow> world \<Rightarrow> world res" where
  "run_timer_cb cur w =
    res_bind (load (fibers w) cur) (\<lambda>f.
    case (f_timer_cb f, f_timer_ctx f) of
      (Cb_mutex_timedlock, Ctx_lock ctx) \<Rightarrow> melon_mutex_timedlock_cb cur ctx w
    | (Cb_cond_timedwait, Ctx_wait ctx) \<Rightarrow> melon_cond_timedwait_cb cur ctx w
    | (Cb_waitfor, Ctx_waitfor ctx) \<Rightarrow> waitfor_cb cur ctx w
    | (Cb_usleep, Ctx_fiber x) \<Rightarrow> melon_usleep_cb x w
    | _ \<Rightarrow> Inl Bad_deref)"

end
