(* ===== verification/Melon_Io_Properties.thy ===== *)
theory Melon_Io_Properties
  imports Melon_Cond_Properties Melon_Io
begin

text \<open>
  The properties of waiting for a descriptor (\<^verbatim>\<open>src/io_manager_epoll.c\<close>,
  \<^verbatim>\<open>src/io.c\<close>): the operations refine those on the queues of the descriptor as lists,
  with concrete instances. The loops that empty a queue share the locale \<open>drain\<close>.
\<close>

section \<open>Descriptors in specification states\<close>

fun fd_qid :: "direction \<Rightarrow> nat \<Rightarrow> qid" where
  "fd_qid Rd fd = Q_read fd"
| "fd_qid Wr fd = Q_write fd"

lemma fd_qid_not [simp]: "fd_qid dir fd \<noteq> Q_ready" "Q_ready \<noteq> fd_qid dir fd" "fd_qid dir fd \<noteq> Q_lock m" "fd_qid dir fd \<noteq> Q_wait c"
  by (cases dir; simp)+

abbreviation sp_fds :: "spec \<Rightarrow> nat \<Rightarrow> melon_fd option" where
  "sp_fds s \<equiv> g_io (g_melon (sp_world s))"

definition sp_mod_fd :: "nat \<Rightarrow> (melon_fd \<Rightarrow> melon_fd) \<Rightarrow> spec \<Rightarrow> spec" where
  "sp_mod_fd fd k s = sp_lift (\<lambda>w. mod_melon (\<lambda>g. g\<lparr>g_io := (g_io g)(fd := map_option k (g_io g fd))\<rparr>) w) s"

lemma sp_mod_fd_simps [simp]:
  "sp_queues (sp_mod_fd fd k s) = sp_queues s" "sp_timers (sp_mod_fd fd k s) = sp_timers s" "sp_fiber (sp_mod_fd fd k s) = sp_fiber s"
  "sp_mutex (sp_mod_fd fd k s) = sp_mutex s" "sp_cond (sp_mod_fd fd k s) = sp_cond s" "sp_self (sp_mod_fd fd k s) = sp_self s"
  by (simp_all add: sp_mod_fd_def sp_lift_def mod_melon_def)

lemma idle_mod_fd [simp]: "idle (sp_mod_fd fd k s) x = idle s x" "timed (sp_mod_fd fd k s) x = timed s x"
  by (simp_all add: idle_def timed_def)

lemma rep_fdE:
  assumes "rep w s" and "sp_fds s fd = Some y"
  obtains d where "g_io (g_melon w) fd = Some d" and "y = bare_fd d"
  using assms by (auto simp: rep_def erase_def bare_melon_def bare_io_def)

lemma rep_has_fd: "rep w s \<Longrightarrow> g_io (g_melon w) fd = Some d \<Longrightarrow> has_queue w (fd_qid dir fd)"
  by (cases dir) auto

lemma fd_queue_qhead: "g_io (g_melon w) fd = Some d \<Longrightarrow> fd_queue dir d = qhead w (fd_qid dir fd)"
  by (cases dir) auto

lemma fd_queue_empty: "rep w s \<Longrightarrow> g_io (g_melon w) fd = Some d \<Longrightarrow> fd_queue dir d = NULL \<longleftrightarrow> sp_queues s (fd_qid dir fd) = []"
  using qrep_NULL_iff [OF rep_qrep, of w s "fd_qid dir fd"] by (simp add: fd_queue_qhead)

lemma mod_fd_queue: "g_io (g_melon w) fd = Some d \<Longrightarrow> mod_fd fd (set_fd_queue dir l) w = Inr (set_qhead (fd_qid dir fd) l w)"
  by (cases dir) (auto simp: mod_fd_def load_fd_def mod_melon_def)

lemma wp_load_fd [step]:
  assumes "rep w s" and "sp_fds s fd \<noteq> None"
    and "\<And>d. (read_queue d = NULL \<longleftrightarrow> sp_queues s (Q_read fd) = []) \<Longrightarrow> (write_queue d = NULL \<longleftrightarrow> sp_queues s (Q_write fd) = []) \<Longrightarrow>
      g_io (g_melon w) fd = Some d \<Longrightarrow> rep w s \<Longrightarrow> Q d"
  shows "wp (load_fd fd w) Q"
proof -
  obtain d where d: "g_io (g_melon w) fd = Some d" using rep_fdE [OF assms(1)] assms(2) by blast
  have "Q d"
    by (rule assms(3)) (use d assms(1) fd_queue_empty [OF assms(1) d, of Rd] fd_queue_empty [OF assms(1) d, of Wr] in simp_all)
  with d show ?thesis by (simp add: load_fd_def)
qed

lemma wp_mod_fd [step]:
  assumes r: "rep w s" and d: "sp_fds s fd \<noteq> None"
    and k: "\<And>d. read_queue (k d) = read_queue d" "\<And>d. write_queue (k d) = write_queue d" "\<And>d. bare_fd (k d) = k (bare_fd d)"
    and Q: "\<And>w'. rep w' (sp_mod_fd fd k s) \<Longrightarrow> Q w'"
  shows "wp (mod_fd fd k w) Q"
proof -
  obtain d where d: "g_io (g_melon w) fd = Some d" using rep_fdE [OF r] d by blast
  let ?w = "mod_melon (\<lambda>g. g\<lparr>g_io := (g_io g)(fd \<mapsto> k d)\<rparr>) w"
  have "qhead ?w q = qhead w q" for q using d k by (cases q) (auto simp: mod_melon_def)
  then have h: "qhead ?w = qhead w" by blast
  have "erase ?w = sp_world (sp_mod_fd fd k s)"
    using r d k(3) by (simp add: rep_def sp_mod_fd_def sp_lift_def mod_melon_def erase_def bare_melon_def bare_upd)
      (simp add: bare_io_def)
  then have "rep ?w (sp_mod_fd fd k s)"
    using r h by (simp add: rep_def wrep_def sp_mod_fd_def sp_lift_def mod_melon_def)
  with Q d show ?thesis by (simp add: mod_fd_def load_fd_def)
qed

section \<open>The queues of a descriptor\<close>

lemma wp_fd_push [step]:
  assumes r: "rep w s" and d: "sp_fds s fd \<noteq> None" and x: "idle s x"
    and Q: "\<And>w'. rep w' (sp_enq (fd_qid dir fd) x s) \<Longrightarrow> Q w'"
  shows "wp (fd_push dir fd x w) Q"
proof -
  obtain d where d: "g_io (g_melon w) fd = Some d" using rep_fdE [OF r] d by blast
  obtain l F' where F': "fiber_push (qhead w (fd_qid dir fd)) x w = Inr (l, w\<lparr>fibers := F'\<rparr>)"
    "rep (set_qhead (fd_qid dir fd) l (w\<lparr>fibers := F'\<rparr>)) (sp_enq (fd_qid dir fd) x s)"
    using rep_push [OF r rep_has_fd [OF r d] fd_qid_not(1) x] by blast
  with Q d mod_fd_queue [of "w\<lparr>fibers := F'\<rparr>" fd d dir l] show ?thesis
    by (simp add: fd_push_def load_fd_def fd_queue_qhead [OF d])
qed

lemma wp_fd_unlink [step]:
  assumes r: "rep w s" and d: "sp_fds s fd \<noteq> None" and x: "x \<in> set (sp_queues s (fd_qid dir fd))"
    and Q: "\<And>w'. rep w' (sp_del (fd_qid dir fd) x s) \<Longrightarrow> Q w'"
  shows "wp (fd_unlink dir fd x w) Q"
proof -
  obtain d where d: "g_io (g_melon w) fd = Some d" using rep_fdE [OF r] d by blast
  obtain l F' where F': "fiber_unlink (qhead w (fd_qid dir fd)) x w = Inr (l, w\<lparr>fibers := F'\<rparr>)"
    "rep (set_qhead (fd_qid dir fd) l (w\<lparr>fibers := F'\<rparr>)) (sp_del (fd_qid dir fd) x s)"
    using rep_unlink [OF r rep_has_fd [OF r d] fd_qid_not(1) x] by blast
  with Q d mod_fd_queue [of "w\<lparr>fibers := F'\<rparr>" fd d dir l] show ?thesis
    by (simp add: fd_unlink_def load_fd_def fd_queue_qhead [OF d])
qed

lemma fd_pop_Cons:
  assumes r: "rep w s" and d: "sp_fds s fd \<noteq> None" and q: "sp_queues s (fd_qid dir fd) = x # xs"
  obtains w' where "fd_pop dir fd w = Inr (x, w')" and "rep w' (sp_deq (fd_qid dir fd) s)" and "idle (sp_deq (fd_qid dir fd) s) x"
proof -
  obtain d where d: "g_io (g_melon w) fd = Some d" using rep_fdE [OF r] d by blast
  obtain l F' where F': "fiber_pop (qhead w (fd_qid dir fd)) w = Inr (l, x, w\<lparr>fibers := F'\<rparr>)"
    "rep (set_qhead (fd_qid dir fd) l (w\<lparr>fibers := F'\<rparr>)) (sp_deq (fd_qid dir fd) s)" "idle (sp_deq (fd_qid dir fd) s) x"
    using rep_pop [OF r rep_has_fd [OF r d] fd_qid_not(1) q] by blast
  show thesis by (rule that [OF _ F'(2,3)])
    (use F'(1) d mod_fd_queue [of "w\<lparr>fibers := F'\<rparr>" fd d dir l] in \<open>simp add: fd_pop_def load_fd_def fd_queue_qhead [OF d]\<close>)
qed

lemma fd_pop_Nil:
  assumes r: "rep w s" and d: "sp_fds s fd \<noteq> None" and q: "sp_queues s (fd_qid dir fd) = []"
  obtains w' where "fd_pop dir fd w = Inr (NULL, w')" and "rep w' s"
proof -
  obtain d where d: "g_io (g_melon w) fd = Some d" using rep_fdE [OF r] d by blast
  have h: "fd_queue dir d = NULL" using fd_queue_empty [OF r d] q by blast
  then have "set_fd_queue dir NULL d = d" by (cases dir) auto
  then have "mod_fd fd (set_fd_queue dir NULL) w = Inr w"
    using d by (simp add: mod_fd_def load_fd_def mod_melon_def fun_upd_idem)
  then have "fd_pop dir fd w = Inr (NULL, w)"
    using d rep_pop_empty [OF r q] h by (simp add: fd_pop_def load_fd_def fd_queue_qhead [OF d])
  then show thesis using r that by blast
qed

section \<open>Emptying a queue\<close>

lemma rep_timers_distinct: "rep w s \<Longrightarrow> distinct (sp_timers s)"
  by (auto simp: rep_def wrep_def trep_def dest: dlist_distinct)

definition timer_ok :: "spec \<Rightarrow> ptr \<Rightarrow> bool" where
  "timer_ok s x \<longleftrightarrow> (timer_of (sp_fiber s) x > 0 \<longrightarrow> timed s x)"

text \<open>
  Between two states exactly the fibers \<open>xs\<close> leave their queues: they become ready in this
  order, their members change by \<open>upd\<close>, and they leave the timer queue.
\<close>

definition wakes :: "(melon_fiber \<Rightarrow> melon_fiber) \<Rightarrow> ptr list \<Rightarrow> spec \<Rightarrow> spec \<Rightarrow> bool" where
  "wakes upd xs s s' \<longleftrightarrow> (\<forall>q. q \<noteq> Q_ready \<longrightarrow> sp_queues s' q = filter (\<lambda>x. x \<notin> set xs) (sp_queues s q)) \<and>
     sp_queues s' Q_ready = sp_queues s Q_ready @ xs \<and>
     (\<forall>y. sp_fiber s' y = (if y \<in> set xs then map_option upd (sp_fiber s y) else sp_fiber s y)) \<and>
     (\<forall>y. timed s' y \<longleftrightarrow> timed s y \<and> (y \<in> set xs \<longrightarrow> timer_of (sp_fiber s) y \<le> 0)) \<and> sp_fds s' = sp_fds s \<and> sp_self s' = sp_self s"

lemma wakes_refl: "wakes upd [] s s"
  by (simp add: wakes_def)

lemma wakes_trans:
  assumes "wakes upd xs s s'" and "wakes upd ys s' s''" and "set xs \<inter> set ys = {}"
  shows "wakes upd (xs @ ys) s s''"
  using assms by (auto simp: wakes_def timer_of_def)

lemma wakes_timer_ok: "wakes upd xs s s' \<Longrightarrow> timer_ok s y \<Longrightarrow> y \<notin> set xs \<Longrightarrow> timer_ok s' y"
  by (auto simp: wakes_def timer_ok_def timer_of_def)

lemma wakes_queues:
  assumes "wakes upd xs s s'"
  shows "sp_fds s' = sp_fds s" "q \<noteq> Q_ready \<Longrightarrow> sp_queues s' q = filter (\<lambda>x. x \<notin> set xs) (sp_queues s q)"
  using assms by (simp_all add: wakes_def)

text \<open>
  The contract of the loops that pop a queue of a descriptor until it is empty: what they
  do with a fiber \<open>x\<close>, in the code and in the specification. The fiber becomes ready, with
  its members changed by \<open>upd\<close>, and leaves the timer queue.
\<close>

locale drain =
  fixes dir :: direction and fd :: nat and loop :: "world \<Rightarrow> world res option"
    and body :: "ptr \<Rightarrow> world \<Rightarrow> world res" and sp_body :: "ptr \<Rightarrow> spec \<Rightarrow> spec" and upd :: "melon_fiber \<Rightarrow> melon_fiber"
  assumes loop: "loop w = (case fd_pop dir fd w of Inl e \<Rightarrow> Some (Inl e) | Inr (x, w) \<Rightarrow>
      if x = NULL then Some (Inr w) else (case body x w of Inl e \<Rightarrow> Some (Inl e) | Inr w \<Rightarrow> loop w))"
    and body: "rep w s \<Longrightarrow> idle s x \<Longrightarrow> timer_ok s x \<Longrightarrow> wp (body x w) (\<lambda>w'. rep w' (sp_body x s))"
    and body_queues: "sp_queues (sp_body x s) = (sp_queues s)(Q_ready := sp_queues s Q_ready @ [x])"
    and body_fibers: "sp_fiber (sp_body x s) = (sp_fiber s)(x := map_option upd (sp_fiber s x))"
    and body_fds: "sp_fds (sp_body x s) = sp_fds s"
    and body_self: "sp_self (sp_body x s) = sp_self s"
    and body_timers: "sp_timers (sp_body x s) = (if timer_of (sp_fiber s) x > 0 then remove1 x (sp_timers s) else sp_timers s)"
begin

abbreviation queue :: qid where
  "queue \<equiv> fd_qid dir fd"

definition sp_drain :: "ptr list \<Rightarrow> spec \<Rightarrow> spec" where
  "sp_drain xs s = fold (\<lambda>x s. sp_body x (sp_deq queue s)) xs s"

lemma sp_drain_simps: "sp_drain [] s = s" "sp_drain (x # xs) s = sp_drain xs (sp_body x (sp_deq queue s))"
  by (simp_all add: sp_drain_def)

lemma timer_ok_body: "x \<noteq> y \<Longrightarrow> timer_ok s y \<Longrightarrow> timer_ok (sp_body x (sp_deq queue s)) y"
  by (auto simp: timer_ok_def timer_of_def timed_def body_fibers body_timers)

lemma timed_body:
  "distinct (sp_timers s) \<Longrightarrow> timed (sp_body x (sp_deq queue s)) y \<longleftrightarrow> timed s y \<and> (y = x \<longrightarrow> timer_of (sp_fiber s) y \<le> 0)"
  by (auto simp: timed_def body_timers)

lemma timer_of_body: "y \<noteq> x \<Longrightarrow> timer_of (sp_fiber (sp_body x (sp_deq queue s))) y = timer_of (sp_fiber s) y"
  by (simp add: timer_of_def body_fibers)

theorem drains:
  assumes "rep w s" and "sp_fds s fd \<noteq> None" and "sp_queues s queue = xs" and "\<forall>x \<in> set xs. timer_ok s x"
  shows "wp (run_loop (loop w)) (\<lambda>w'. rep w' (sp_drain xs s))"
  using assms
proof (induction xs arbitrary: w s)
  case Nil
  obtain w' where "fd_pop dir fd w = Inr (NULL, w')" "rep w' s" by (rule fd_pop_Nil [OF Nil(1-3)])
  then show ?case by (subst loop) (simp add: sp_drain_simps)
next
  case (Cons x xs)
  let ?s = "sp_deq queue s"
  obtain w1 where w1: "fd_pop dir fd w = Inr (x, w1)" "rep w1 ?s" "idle ?s x" by (rule fd_pop_Cons [OF Cons(2-4)])
  have "timer_ok ?s x" using Cons(5) by (simp add: timer_ok_def)
  then obtain w2 where w2: "body x w1 = Inr w2" "rep w2 (sp_body x ?s)" using body [OF w1(2,3)] by (auto simp: wp_def)
  have d: "x \<noteq> NULL" "x \<notin> set xs" using w1(3) rep_distinct [OF Cons(2), of queue] Cons(4) by (auto simp: idle_def)
  have "wp (run_loop (loop w2)) (\<lambda>w'. rep w' (sp_drain xs (sp_body x ?s)))"
  proof (rule Cons.IH [OF w2(2)])
    show "\<forall>y \<in> set xs. timer_ok (sp_body x ?s) y" using Cons(5) d(2) by (auto intro: timer_ok_body)
  qed (use Cons(3,4) in \<open>simp_all add: body_fds body_queues\<close>)
  then show ?case using w1(1) w2(1) d(1) by (subst loop) (simp add: sp_drain_simps)
qed

lemma drain_effect:
  assumes "sp_queues s queue = xs @ ys" and "distinct xs" and "distinct (sp_timers s)"
  shows "sp_queues (sp_drain xs s) = (sp_queues s)(queue := ys, Q_ready := sp_queues s Q_ready @ xs)"
    and "sp_fiber (sp_drain xs s) y = (if y \<in> set xs then map_option upd (sp_fiber s y) else sp_fiber s y)"
    and "sp_fds (sp_drain xs s) = sp_fds s"
    and "timed (sp_drain xs s) y \<longleftrightarrow> timed s y \<and> (y \<in> set xs \<longrightarrow> timer_of (sp_fiber s) y \<le> 0)"
    and "sp_self (sp_drain xs s) = sp_self s"
  using assms
proof (induction xs arbitrary: s)
  case (Cons x xs)
  {
    case 1
    then show ?case by (auto simp: sp_drain_simps Cons.IH(1) body_queues body_timers)
  next
    case 2
    then show ?case by (auto simp: sp_drain_simps Cons.IH(2) body_queues body_timers body_fibers)
  next
    case 3
    then show ?case by (auto simp: sp_drain_simps Cons.IH(3) body_queues body_timers body_fds)
  next
    case 4
    then have "timed (sp_drain (x # xs) s) y \<longleftrightarrow> timed (sp_body x (sp_deq queue s)) y \<and>
        (y \<in> set xs \<longrightarrow> timer_of (sp_fiber (sp_body x (sp_deq queue s))) y \<le> 0)"
      unfolding sp_drain_simps by (intro Cons.IH(4)) (auto simp: body_queues body_timers)
    with 4 show ?case by (cases "y = x") (auto simp: timed_body timer_of_body)
  next
    case 5
    then show ?case by (auto simp: sp_drain_simps Cons.IH(5) body_queues body_timers body_self)
  }
qed (auto simp: sp_drain_simps)

lemma drain_wakes:
  assumes r: "rep w s" and q: "sp_queues s queue = xs @ ys"
  shows "wakes upd xs s (sp_drain xs s)"
proof -
  have d: "distinct (xs @ ys)" using rep_distinct [OF r, of queue] q by simp
  have o: "filter (\<lambda>x. x \<notin> set xs) (sp_queues s c) = sp_queues s c" if "c \<noteq> queue" for c
    using qrep_disjoint [OF rep_qrep [OF r], of _ queue c] q that by (auto intro!: filter_True)
  note e = drain_effect [OF q _ rep_timers_distinct [OF r]]
  have "filter (\<lambda>x. x \<notin> set xs) (xs @ ys) = ys" using d by (auto intro!: filter_True)
  then show ?thesis using d o by (auto simp: wakes_def e q)
qed

lemma drain_all:
  assumes "rep w s" and "sp_fds s fd \<noteq> None" and "\<forall>x \<in> set (sp_queues s queue). timer_ok s x"
  obtains w' s' where "run_loop (loop w) = Inr w'" and "rep w' s'" and "wakes upd (sp_queues s queue) s s'"
proof -
  obtain w' where "run_loop (loop w) = Inr w'" "rep w' (sp_drain (sp_queues s queue) s)"
    using drains [OF assms(1,2) refl assms(3)] by (auto simp: wp_def)
  then show thesis using that drain_wakes [OF assms(1), of "sp_queues s queue" "[]"] by simp
qed

lemma drain_one:
  assumes "rep w s" and "sp_fds s fd \<noteq> None" and "\<forall>x \<in> set (sp_queues s queue). timer_ok s x" and "sp_queues s queue = x # xs"
  obtains w1 w' s' where "fd_pop dir fd w = Inr (x, w1)" and "body x w1 = Inr w'" and "rep w' s'" and "wakes upd [x] s s'"
proof -
  obtain w1 where w1: "fd_pop dir fd w = Inr (x, w1)" "rep w1 (sp_deq queue s)" "idle (sp_deq queue s) x"
    by (rule fd_pop_Cons [OF assms(1,2,4)])
  have "timer_ok (sp_deq queue s) x" using assms(3,4) by (simp add: timer_ok_def)
  then obtain w' where "body x w1 = Inr w'" "rep w' (sp_body x (sp_deq queue s))" using body [OF w1(2,3)] by (auto simp: wp_def)
  then show thesis using that w1(1) drain_wakes [OF assms(1), of "[x]" xs] assms(4) by (simp add: sp_drain_simps)
qed

end

text \<open>The loop of \<^verbatim>\<open>melon_io_manager_handle\<close>.\<close>

definition sp_release :: "ptr \<Rightarrow> spec \<Rightarrow> spec" where
  "sp_release x s = sp_ready x (if timer_of (sp_fiber s) x > 0 then sp_timer_del x s else s)"

lemma sp_fds_simps [simp]:
  "sp_fds (sp_ready x s) = sp_fds s" "sp_fds (sp_timer_del x s) = sp_fds s" "sp_fds (sp_mod_fiber x k s) = sp_fds s"
  "sp_fds (sp_timer_push x s) = sp_fds s" "sp_fds (sp_lift glock_lock s) = sp_fds s" "sp_fds (sp_lift glock_unlock s) = sp_fds s"
  "sp_fds (sp_errno n s) = sp_fds s" "sp_fds (sp_mod_mutex m g s) = sp_fds s" "sp_fds (sp_mod_fd fd h s) = (sp_fds s)(fd := map_option h (sp_fds s fd))"
  by (simp_all add: sp_ready_def sp_timer_push_alt sp_mod_fd_def sp_defs)

lemma release_fiber_refines:
  assumes r: "rep w s" and x: "idle s x" "timer_ok s x"
  shows "wp (melon_io_manager_release_fiber x w) (\<lambda>w'. rep w' (sp_release x s))"
proof -
  obtain f where f: "sp_fiber s x = Some f" "x \<noteq> NULL" using x(1) by (auto simp: idle_def)
  then have t: "f_timer f > 0 \<Longrightarrow> timed s x" using x(2) by (simp add: timer_ok_def timer_of_def)
  from r show ?thesis unfolding melon_io_manager_release_fiber_def
    by - (assumption | rule wp | erule step | rule step | (use x f in \<open>simp add: core_def t; fail\<close>) |
      (erule rep_eq, use f in \<open>simp add: sp_release_def timer_of_def sp_ready_def sp_defs option.map_comp o_def; fail\<close>))+
qed

interpretation release: drain dir fd "release_loop dir fd" melon_io_manager_release_fiber sp_release "\<lambda>f. f\<lparr>f_waited_event := kEventNone\<rparr>"
  for dir fd
proof unfold_locales
  show "release_loop dir fd w = (case fd_pop dir fd w of Inl e \<Rightarrow> Some (Inl e) | Inr (x, w) \<Rightarrow>
      if x = NULL then Some (Inr w) else (case melon_io_manager_release_fiber x w of Inl e \<Rightarrow> Some (Inl e) | Inr w \<Rightarrow> release_loop dir fd w))" for w
    by (subst release_loop.simps) simp
qed (erule (2) release_fiber_refines, simp_all add: sp_release_def)

text \<open>The loop of \<^verbatim>\<open>melon_close_flush_queue\<close>, and its body.\<close>

definition sp_cancel :: "ptr \<Rightarrow> spec \<Rightarrow> spec" where
  "sp_cancel x s = sp_ready x (sp_mod_fiber x (\<lambda>f. f\<lparr>f_io_canceled := 1\<rparr>) (if timer_of (sp_fiber s) x > 0 then sp_timer_del x s else s))"

definition flush_fiber :: "ptr \<Rightarrow> world \<Rightarrow> world res" where
  "flush_fiber cur w =
    res_bind (mod_fiber cur (\<lambda>f. f\<lparr>f_waited_event := kEventNone\<rparr>) w) (\<lambda>w.
    res_bind (load (fibers w) cur) (\<lambda>f.
    res_bind (if f_timer f > 0 then melon_timer_remove_locked cur w else Inr w) (\<lambda>w.
    res_bind (mod_fiber cur (\<lambda>f. f\<lparr>f_io_canceled := 1\<rparr>) w) (\<lambda>w.
    melon_sched_ready_locked cur w))))"

lemma flush_fiber_refines:
  assumes r: "rep w s" and x: "idle s x" "timer_ok s x"
  shows "wp (flush_fiber x w) (\<lambda>w'. rep w' (sp_cancel x s))"
proof -
  obtain f where f: "sp_fiber s x = Some f" "x \<noteq> NULL" using x(1) by (auto simp: idle_def)
  then have t: "f_timer f > 0 \<Longrightarrow> timed s x" using x(2) by (simp add: timer_ok_def timer_of_def)
  from r show ?thesis unfolding flush_fiber_def
    by - (assumption | rule wp | erule step | rule step | (use x f in \<open>simp add: core_def t; fail\<close>) |
      (erule rep_eq, use f in \<open>simp add: sp_cancel_def timer_of_def sp_ready_def sp_defs option.map_comp o_def; fail\<close>))+
qed

interpretation flush: drain dir fd "close_flush_queue dir fd" flush_fiber sp_cancel "\<lambda>f. f\<lparr>f_io_canceled := 1, f_waited_event := kEventNone\<rparr>"
  for dir fd
proof unfold_locales
  show "close_flush_queue dir fd w = (case fd_pop dir fd w of Inl e \<Rightarrow> Some (Inl e) | Inr (x, w) \<Rightarrow>
      if x = NULL then Some (Inr w) else (case flush_fiber x w of Inl e \<Rightarrow> Some (Inl e) | Inr w \<Rightarrow> close_flush_queue dir fd w))" for w
    by (subst close_flush_queue.simps) (simp add: flush_fiber_def res_bind_def split: sum.splits)
qed (erule (2) flush_fiber_refines, simp_all add: sp_cancel_def option.map_comp o_def)

section \<open>Events\<close>

definition fd_ok :: "spec \<Rightarrow> nat \<Rightarrow> bool" where
  "fd_ok s fd \<longleftrightarrow> sp_fds s fd \<noteq> None \<and> (\<forall>dir. \<forall>x \<in> set (sp_queues s (fd_qid dir fd)). timer_ok s x)"

lemma fd_okD: "fd_ok s fd \<Longrightarrow> sp_fds s fd \<noteq> None" "fd_ok s fd \<Longrightarrow> \<forall>x \<in> set (sp_queues s (fd_qid dir fd)). timer_ok s x"
  by (simp_all add: fd_ok_def)

lemma fd_ok_wakes: "wakes upd xs s s' \<Longrightarrow> fd_ok s fd \<Longrightarrow> fd_ok s' fd"
  using wakes_timer_ok [of upd xs s s'] by (auto simp: fd_ok_def wakes_queues)

abbreviation released :: "melon_fiber \<Rightarrow> melon_fiber" where
  "released f \<equiv> f\<lparr>f_waited_event := kEventNone\<rparr>"

abbreviation cancelled :: "melon_fiber \<Rightarrow> melon_fiber" where
  "cancelled f \<equiv> f\<lparr>f_io_canceled := 1, f_waited_event := kEventNone\<rparr>"

lemma release_one_wakes:
  assumes r: "rep w s" and d: "fd_ok s fd" and q: "fd_qid dir fd = q"
  obtains w' s' where "(if b then release_one dir fd w else Inr w) = Inr w'" and "rep w' s'"
    and "wakes released (if b then take 1 (sp_queues s q) else []) s s'" and "fd_ok s' fd"
proof (cases b)
  case True
  note t = True
  show thesis
  proof (cases "sp_queues s (fd_qid dir fd)")
    case Nil
    obtain w' where "fd_pop dir fd w = Inr (NULL, w')" "rep w' s" by (rule fd_pop_Nil [OF r fd_okD(1) [OF d] Nil])
    with t Nil d q show thesis
      using wakes_refl by (intro that) (auto simp: release_one_def melon_io_manager_release_fiber_def)
  next
    case (Cons x xs)
    obtain w1 w' s' where "fd_pop dir fd w = Inr (x, w1)" "melon_io_manager_release_fiber x w1 = Inr w'" "rep w' s'" "wakes released [x] s s'"
      by (rule release.drain_one [OF r fd_okD(1) [OF d] fd_okD(2) [OF d] Cons])
    with t Cons d q fd_ok_wakes show thesis by (intro that [of w' s']) (auto simp: release_one_def)
  qed
next
  case False
  with r d wakes_refl show thesis by (intro that [of w s]) auto
qed

lemma both_wakes:
  assumes r: "rep w s" and d: "fd_ok s fd"
    and L: "\<And>dir w s. rep w s \<Longrightarrow> fd_ok s fd \<Longrightarrow> \<exists>w' s'. run_loop (L dir fd w) = Inr w' \<and> rep w' s' \<and> wakes upd (sp_queues s (fd_qid dir fd)) s s'"
  obtains w' w'' s' where "run_loop (L Rd fd w) = Inr w'" and "run_loop (L Wr fd w') = Inr w''"
    and "rep w'' s'" and "wakes upd (sp_queues s (Q_read fd) @ sp_queues s (Q_write fd)) s s'" and "fd_ok s' fd"
proof -
  let ?r = "sp_queues s (Q_read fd)" and ?w = "sp_queues s (Q_write fd)"
  obtain w1 s1 where w1: "run_loop (L Rd fd w) = Inr w1" "rep w1 s1" "wakes upd ?r s s1"
    using L [OF r d, of Rd] by auto
  note d1 = fd_ok_wakes [OF w1(3) d]
  have j: "set ?r \<inter> set ?w = {}" using qrep_disjoint [OF rep_qrep [OF r], of _ "Q_read fd" "Q_write fd"] by auto
  then have "sp_queues s1 (Q_write fd) = ?w" using wakes_queues(2) [OF w1(3)] by (auto intro!: filter_True)
  then obtain w2 s2 where w2: "run_loop (L Wr fd w1) = Inr w2" "rep w2 s2" "wakes upd ?w s1 s2"
    using L [OF w1(2) d1, of Wr] by auto
  show thesis by (rule that [OF w1(1) w2(1,2) wakes_trans [OF w1(3) w2(3) j] fd_ok_wakes [OF w2(3) d1]])
qed

lemma release_wakes:
  "rep w s \<Longrightarrow> fd_ok s fd \<Longrightarrow> \<exists>w' s'. run_loop (release_loop dir fd w) = Inr w' \<and> rep w' s' \<and> wakes released (sp_queues s (fd_qid dir fd)) s s'"
  using release.drain_all fd_okD by metis

lemma flush_wakes:
  "rep w s \<Longrightarrow> fd_ok s fd \<Longrightarrow> \<exists>w' s'. run_loop (close_flush_queue dir fd w) = Inr w' \<and> rep w' s' \<and> wakes cancelled (sp_queues s (fd_qid dir fd)) s s'"
  using flush.drain_all fd_okD by metis

lemma release_both_if:
  assumes r: "rep w s" and d: "fd_ok s fd"
  obtains w' s' where "(if b then res_bind (run_loop (release_loop Rd fd w)) (\<lambda>w. run_loop (release_loop Wr fd w)) else Inr w) = Inr w'"
    and "rep w' s'" and "wakes released (if b then sp_queues s (Q_read fd) @ sp_queues s (Q_write fd) else []) s s'" and "fd_ok s' fd"
proof (cases b)
  case True
  show thesis by (rule both_wakes [where L = release_loop, OF r d release_wakes]) (assumption+, rule that, simp_all add: True)
next
  case False
  with r d wakes_refl show thesis by (intro that [of w s]) auto
qed

text \<open>The fibers that an event wakes, from those that wait for reading and for writing.\<close>

definition woken :: "32 word \<Rightarrow> ptr list \<Rightarrow> ptr list \<Rightarrow> ptr list" where
  "woken ev rd wr = (if ev AND (EPOLLRDHUP OR EPOLLERR OR EPOLLHUP) \<noteq> 0 then rd @ wr
    else (if ev AND (EPOLLIN OR EPOLLPRI) \<noteq> 0 then take 1 rd else []) @ (if ev AND EPOLLOUT \<noteq> 0 then take 1 wr else []))"

definition rearm :: "ptr list \<Rightarrow> ptr list \<Rightarrow> 32 word option" where
  "rearm rd wr = (if rd = [] \<and> wr = [] then None
    else Some (EPOLLONESHOT OR (if rd \<noteq> [] then EPOLLIN else 0) OR (if wr \<noteq> [] then EPOLLOUT else 0)))"

lemma rearm_wait_mask:
  assumes "read_queue d = NULL \<longleftrightarrow> rd = []" and "write_queue d = NULL \<longleftrightarrow> wr = []"
  shows "(if EPOLLONESHOT OR wait_mask d \<noteq> EPOLLONESHOT then Some (EPOLLONESHOT OR wait_mask d) else None) = rearm rd wr"
  using assms by (cases "rd = []"; cases "wr = []") (auto simp: wait_mask_def rearm_def epoll_defs)

lemma handle_refines:
  assumes r: "rep w s" and d: "fd_ok s (ev_fd e)"
  defines "rd \<equiv> sp_queues s (Q_read (ev_fd e))" and "wr \<equiv> sp_queues s (Q_write (ev_fd e))"
  obtains w' s' where "melon_io_manager_handle e w = Inr (rearm (sp_queues s' (Q_read (ev_fd e))) (sp_queues s' (Q_write (ev_fd e))), w')"
    and "rep w' s'" and "wakes released (woken (ev_events e) rd wr) s s'" and "fd_ok s' (ev_fd e)"
proof -
  let ?fd = "ev_fd e" and ?hup = "ev_events e AND (EPOLLRDHUP OR EPOLLERR OR EPOLLHUP) \<noteq> 0"
  let ?in = "ev_events e AND (EPOLLIN OR EPOLLPRI) \<noteq> 0" and ?out = "ev_events e AND EPOLLOUT \<noteq> 0"
  let ?all = "\<lambda>w. res_bind (run_loop (release_loop Rd ?fd w)) (\<lambda>w. run_loop (release_loop Wr ?fd w))"
  obtain w1 s1 where w1: "(if ?hup then ?all w else Inr w) = Inr w1" "rep w1 s1" "wakes released (if ?hup then rd @ wr else []) s s1" "fd_ok s1 ?fd"
    unfolding rd_def wr_def by (rule release_both_if [OF r d])
  obtain w2 s2 where w2: "(if ?in then release_one Rd ?fd w1 else Inr w1) = Inr w2" "rep w2 s2"
    "wakes released (if ?in then take 1 (sp_queues s1 (Q_read ?fd)) else []) s1 s2" "fd_ok s2 ?fd"
    by (rule release_one_wakes [OF w1(2,4) fd_qid.simps(1)])
  obtain w3 s3 where w3: "(if ?out then release_one Wr ?fd w2 else Inr w2) = Inr w3" "rep w3 s3"
    "wakes released (if ?out then take 1 (sp_queues s2 (Q_write ?fd)) else []) s2 s3" "fd_ok s3 ?fd"
    by (rule release_one_wakes [OF w2(2,4) fd_qid.simps(2)])
  have "set rd \<inter> set wr = {}" using qrep_disjoint [OF rep_qrep [OF r], of _ "Q_read ?fd" "Q_write ?fd"] by (auto simp: rd_def wr_def)
  then have q: "sp_queues s1 (Q_read ?fd) = (if ?hup then [] else rd)" "sp_queues s2 (Q_write ?fd) = (if ?hup then [] else wr)"
    using wakes_queues(2) [OF w1(3)] wakes_queues(2) [OF w2(3)]
    by (auto simp: rd_def wr_def filter_empty_conv intro!: filter_True dest!: in_set_takeD split: if_splits)
  have "wakes released (woken (ev_events e) rd wr) s s3"
  proof (cases ?hup)
    case True
    then show ?thesis using wakes_trans [OF wakes_trans [OF w1(3) w2(3)] w3(3)] q by (auto simp: woken_def split: if_splits)
  next
    case False
    have "set (take 1 rd) \<inter> set (take 1 wr) = {}" using \<open>set rd \<inter> set wr = {}\<close> by (auto dest!: in_set_takeD)
    then show ?thesis using False wakes_trans [OF wakes_trans [OF w1(3) w2(3)] w3(3)] q by (auto simp: woken_def split: if_splits)
  qed
  moreover obtain d' where d': "load_fd ?fd w3 = Inr d'" "read_queue d' = NULL \<longleftrightarrow> sp_queues s3 (Q_read ?fd) = []"
    "write_queue d' = NULL \<longleftrightarrow> sp_queues s3 (Q_write ?fd) = []"
  proof -
    have "wp (load_fd ?fd w3) (\<lambda>d'. (read_queue d' = NULL \<longleftrightarrow> sp_queues s3 (Q_read ?fd) = []) \<and> (write_queue d' = NULL \<longleftrightarrow> sp_queues s3 (Q_write ?fd) = []))"
      by (rule wp_load_fd [OF w3(2) fd_okD(1) [OF w3(4)]]) simp
    then show thesis using that by (auto simp: wp_def)
  qed
  ultimately show thesis
    using w1(1) w2(1) w3 rearm_wait_mask [OF d'(2,3)] by (intro that [of s3 w3]) (simp_all add: melon_io_manager_handle_def Let_def)
qed

section \<open>Waiting\<close>

text \<open>
  What \<^verbatim>\<open>epoll_ctl\<close> is documented to do for a descriptor that is, or is not, in the
  interest list: the wrong request fails with \<^verbatim>\<open>EEXIST\<close> or \<^verbatim>\<open>ENOENT\<close>, and the right
  one does not fail in this way.
\<close>

definition ctl_law :: "epoll_ctl \<Rightarrow> nat \<Rightarrow> bool \<Rightarrow> bool" where
  "ctl_law ctl fd listed \<longleftrightarrow> (\<forall>n md ev. if md = listed then fst (ctl n md fd ev) = 0 \<or> snd (ctl n md fd ev) \<notin> {EEXIST, ENOENT}
     else fst (ctl n md fd ev) \<noteq> 0 \<and> snd (ctl n md fd ev) = (if listed then EEXIST else ENOENT))"

lemma ctl_lawD:
  assumes "ctl_law ctl fd listed"
  shows "fst (ctl n listed fd ev) \<noteq> 0 \<Longrightarrow> snd (ctl n listed fd ev) \<noteq> EEXIST \<and> snd (ctl n listed fd ev) \<noteq> ENOENT"
    and "md \<noteq> listed \<Longrightarrow> fst (ctl n md fd ev) \<noteq> 0 \<and> snd (ctl n md fd ev) = (if listed then EEXIST else ENOENT)"
  using assms unfolding ctl_law_def by (metis insertCI)+

lemma waitfor_ctl_listed:
  assumes c: "ctl_law ctl fd listed" and d: "g_io (g_melon w) fd = Some d" "is_in_epoll d \<noteq> 0 \<longleftrightarrow> listed"
  shows "waitfor_ctl ctl n fd ev w = (if fst (ctl n listed fd ev) = 0 then Some (Inr (True, w))
    else Some (Inr (False, w\<lparr>errno := snd (ctl n listed fd ev)\<rparr>)))"
  using ctl_lawD(1) [OF c, of n ev] d
  by (subst waitfor_ctl.simps) (auto simp: load_fd_def split: prod.split)

text \<open>At most two attempts: the first may find that \<open>is_in_epoll\<close> is wrong and correct it.\<close>

lemma waitfor_ctl_ends:
  assumes r: "rep w s" and d: "sp_fds s fd = Some d" and c: "ctl_law ctl fd listed"
  obtains n w' s' where "run_loop (waitfor_ctl ctl 0 fd ev w) = Inr (fst (ctl n listed fd ev) = 0, w')" and "n \<le> 1" and "rep w' s'"
    and "sp_queues s' = sp_queues s" and "sp_timers s' = sp_timers s" and "sp_fiber s' = sp_fiber s" and "sp_self s' = sp_self s" and "sp_fds s' fd \<noteq> None"
proof (cases "(is_in_epoll d \<noteq> 0) = listed")
  case True
  obtain d' where d': "g_io (g_melon w) fd = Some d'" "d = bare_fd d'" using rep_fdE [OF r d] .
  then have "is_in_epoll d' \<noteq> 0 \<longleftrightarrow> listed" using True by (simp add: bare_fd_def)
  note l = waitfor_ctl_listed [OF c d'(1) this, of 0 ev]
  show thesis
  proof (cases "fst (ctl 0 listed fd ev) = 0")
    case True
    then show thesis using l r d by (intro that [of 0 w s]) simp_all
  next
    case False
    then show thesis using l rep_errno [OF r] d by (intro that [of 0 _ "sp_errno (snd (ctl 0 listed fd ev)) s"]) simp_all
  qed
next
  case False
  obtain d' where d': "g_io (g_melon w) fd = Some d'" "d = bare_fd d'" using rep_fdE [OF r d] .
  let ?e = "if listed then EEXIST else ENOENT" and ?v = "if listed then 1 else 0 :: int"
  have e: "fst (ctl 0 (\<not> listed) fd ev) \<noteq> 0" "snd (ctl 0 (\<not> listed) fd ev) = ?e" using ctl_lawD(2) [OF c, of "\<not> listed"] by simp_all
  have m: "is_in_epoll d' \<noteq> 0 \<longleftrightarrow> \<not> listed" using False d' by (auto simp: bare_fd_def)
  have "wp (mod_fd fd (\<lambda>d. d\<lparr>is_in_epoll := ?v\<rparr>) (w\<lparr>errno := ?e\<rparr>)) (\<lambda>w'. rep w' (sp_mod_fd fd (\<lambda>d. d\<lparr>is_in_epoll := ?v\<rparr>) (sp_errno ?e s)))"
    by (rule wp_mod_fd [OF rep_errno [OF r]]) (use d in \<open>simp_all add: bare_fd_def\<close>)
  then obtain w1 where w1: "mod_fd fd (\<lambda>d. d\<lparr>is_in_epoll := ?v\<rparr>) (w\<lparr>errno := ?e\<rparr>) = Inr w1"
    "rep w1 (sp_mod_fd fd (\<lambda>d. d\<lparr>is_in_epoll := ?v\<rparr>) (sp_errno ?e s))" by (auto simp: wp_def)
  let ?s = "sp_mod_fd fd (\<lambda>d. d\<lparr>is_in_epoll := ?v\<rparr>) (sp_errno ?e s)"
  have "sp_fds ?s fd = Some (d\<lparr>is_in_epoll := ?v\<rparr>)" using d by simp
  then obtain d1 where d1: "g_io (g_melon w1) fd = Some d1" "d\<lparr>is_in_epoll := ?v\<rparr> = bare_fd d1" using rep_fdE [OF w1(2)] by blast
  have "is_in_epoll d1 = ?v" using arg_cong [OF d1(2), of is_in_epoll] by (simp add: bare_fd_def split: if_splits)
  then have "is_in_epoll d1 \<noteq> 0 \<longleftrightarrow> listed" by simp
  note l = waitfor_ctl_listed [OF c d1(1) this, of 1 ev]
  have u: "waitfor_ctl ctl 0 fd ev w = waitfor_ctl ctl 1 fd ev w1"
    using d'(1) m e w1(1) by (subst waitfor_ctl.simps) (cases listed; auto simp: load_fd_def EEXIST_def ENOENT_def split: prod.split)
  show thesis
  proof (cases "fst (ctl 1 listed fd ev) = 0")
    case True
    show thesis by (rule that [OF _ _ w1(2), of 1]) (use True l u d in simp_all)
  next
    case False
    show thesis by (rule that [OF _ _ rep_errno [OF w1(2)], of 1]) (use False l u d in simp_all)
  qed
qed

fun event_of :: "direction \<Rightarrow> event" where
  "event_of Rd = kEventIoRead"
| "event_of Wr = kEventIoWrite"

lemma event_bits [simp]:
  "event_of dir AND kEventIoRead \<noteq> 0 \<longleftrightarrow> dir = Rd" "event_of dir AND kEventIoWrite \<noteq> 0 \<longleftrightarrow> dir = Wr"
  "event_of dir AND kEventIoRead = 0 \<longleftrightarrow> dir = Wr" "event_of dir AND kEventIoWrite = 0 \<longleftrightarrow> dir = Rd"
  by (cases dir; simp add: kEventIoRead_def kEventIoWrite_def)+

definition sp_wait :: "direction \<Rightarrow> nat \<Rightarrow> int \<Rightarrow> spec \<Rightarrow> spec" where
  "sp_wait dir fd timeout s = (let self = sp_self s; s = sp_enq (fd_qid dir fd) self s in
    if timeout > 0
    then sp_timer_push self (sp_mod_fiber self (\<lambda>f. f\<lparr>f_timer := timeout,
      f_timer_ctx := Ctx_waitfor \<lparr>fc_fiber = self, fc_fildes = fd, fc_timeout = 0\<rparr>, f_timer_cb := Cb_waitfor\<rparr>) s)
    else sp_mod_fiber self (\<lambda>f. f\<lparr>f_timer := 0\<rparr>) s)"

lemma waitfor_suspend_refines:
  assumes r: "rep w s" and self: "sp_self s = self" "idle s self" "\<not> timed s self" and d: "sp_fds s fd \<noteq> None"
  shows "wp (waitfor_suspend fd (event_of dir) timeout self w) (yields (Suspended (), sp_lift glock_unlock (sp_wait dir fd timeout s)))"
proof -
  have n: "self \<noteq> NULL" "sp_fiber s self \<noteq> None" using self(2) by (auto simp: idle_def)
  note [simp] = self d n
  have p: "wp (if event_of dir AND kEventIoRead \<noteq> 0 then fd_push Rd fd self w
       else if event_of dir AND kEventIoWrite \<noteq> 0 then fd_push Wr fd self w
       else Inl Assert_failed) Q" if "\<And>w'. rep w' (sp_enq (fd_qid dir fd) self s) \<Longrightarrow> Q w'" for Q
    using that wp_fd_push [OF r _ self(2), of fd dir Q] by (cases dir) (auto simp: kEventIoRead_def kEventIoWrite_def)
  show ?thesis unfolding waitfor_suspend_def Let_def
    by (rule wp_bindI, rule p)
      (assumption | rule wp | erule step | rule step | (simp add: core_def; fail) |
       (simp add: sp_wait_def Let_def sp_comm; fail))+
qed

lemma sp_wait_effect:
  assumes "sp_self s = self"
  shows "sp_queues (sp_wait dir fd timeout s) = (sp_queues s)(fd_qid dir fd := sp_queues s (fd_qid dir fd) @ [self])"
    and "timed (sp_wait dir fd timeout s) x \<longleftrightarrow> timed s x \<or> x = self \<and> timeout > 0"
    and "sp_fds (sp_wait dir fd timeout s) = sp_fds s"
    and "sp_fiber s self = Some f \<Longrightarrow> \<exists>f'. sp_fiber (sp_wait dir fd timeout s) self = Some f' \<and>
      f_waited_event f' = f_waited_event f \<and> f_io_canceled f' = f_io_canceled f \<and> f_timer f' = (if timeout > 0 then timeout else 0) \<and>
      \<not> waitfor_timed_out timeout f'"
  using assms by (auto simp: sp_wait_def Let_def waitfor_timed_out_def)

definition sp_waitfor_cb :: "direction \<Rightarrow> ptr \<Rightarrow> waitfor_ctx \<Rightarrow> spec \<Rightarrow> spec" where
  "sp_waitfor_cb dir x ctx s = sp_ready x (sp_del (fd_qid dir (fc_fildes ctx)) x
     (sp_mod_fiber x (\<lambda>f. f\<lparr>f_timer_ctx := Ctx_waitfor (ctx\<lparr>fc_timeout := 1\<rparr>)\<rparr>) s))"

lemma waitfor_cb_refines:
  assumes r: "rep w s" and ctx: "fc_fiber ctx = x" "fc_fildes ctx = fd" and d: "sp_fds s fd \<noteq> None"
    and x: "x \<in> set (sp_queues s (fd_qid dir fd))" and f: "sp_fiber s x = Some f" "f_waited_event f = event_of dir"
  shows "wp (waitfor_cb x ctx w) (\<lambda>w'. rep w' (sp_waitfor_cb dir x ctx s))"
proof -
  let ?g = "\<lambda>f :: melon_fiber. f\<lparr>f_timer_ctx := Ctx_waitfor (ctx\<lparr>fc_timeout := 1\<rparr>)\<rparr>"
  have p: "wp (if f_waited_event g AND kEventIoRead \<noteq> 0 then fd_unlink Rd fd x w
      else if f_waited_event g AND kEventIoWrite \<noteq> 0 then fd_unlink Wr fd x w else Inr w) Q"
    if "rep w (sp_mod_fiber x ?g s)" "f_waited_event g = event_of dir" "\<And>w'. rep w' (sp_del (fd_qid dir fd) x (sp_mod_fiber x ?g s)) \<Longrightarrow> Q w'" for g w Q
    using that d x wp_fd_unlink [OF that(1), of fd x dir Q] by (cases dir) (auto simp: kEventIoRead_def kEventIoWrite_def)
  from r show ?thesis unfolding waitfor_cb_def sp_waitfor_cb_def ctx
    by - (assumption | erule p | rule wp | erule step | rule step | (use f x in \<open>simp add: core_def idle_sp_del [OF r x]; fail\<close>))+
qed

definition waitfor_events :: "ptr list \<Rightarrow> ptr list \<Rightarrow> direction \<Rightarrow> 32 word" where
  "waitfor_events rd wr dir = EPOLLONESHOT OR EPOLLET OR (if rd \<noteq> [] \<or> dir = Rd then EPOLLIN else 0) OR
     (if wr \<noteq> [] \<or> dir = Wr then EPOLLOUT else 0)"

lemma waitfor_events_mask:
  assumes "read_queue d = NULL \<longleftrightarrow> rd = []" and "write_queue d = NULL \<longleftrightarrow> wr = []"
  shows "EPOLLONESHOT OR EPOLLET OR wait_mask d OR (if event_of dir AND kEventIoRead \<noteq> 0 then EPOLLIN else 0) OR
    (if event_of dir AND kEventIoWrite \<noteq> 0 then EPOLLOUT else 0) = waitfor_events rd wr dir"
  using assms by (cases dir; cases "rd = []"; cases "wr = []")
    (auto simp: wait_mask_def waitfor_events_def epoll_defs kEventIoRead_def kEventIoWrite_def)

lemma waitfor_refines:
  assumes r: "rep w s" and self: "sp_self s = self" "idle s self" "\<not> timed s self"
    and d: "sp_fds s fd \<noteq> None" and c: "ctl_law ctl fd listed"
  shows "\<exists>n w' s'. n \<le> 1 \<and> rep w' s' \<and>
    (if fst (ctl n listed fd (waitfor_events (sp_queues s (Q_read fd)) (sp_queues s (Q_write fd)) dir)) \<noteq> 0
     then melon_io_manager_waitfor ctl (int fd) (event_of dir) timeout w = Inr (Returned (-1), w') \<and>
       sp_queues s' = sp_queues s \<and> sp_timers s' = sp_timers s \<and> sp_fiber s' = sp_fiber s \<and> sp_self s' = self \<and> sp_fds s' fd \<noteq> None
     else melon_io_manager_waitfor ctl (int fd) (event_of dir) timeout w = Inr (Suspended (), w') \<and>
       sp_queues s' = (sp_queues s)(fd_qid dir fd := sp_queues s (fd_qid dir fd) @ [self]) \<and> (timed s' self \<longleftrightarrow> timeout > 0) \<and>
       map_option is_in_epoll (sp_fds s' fd) = Some 1)"
proof -
  let ?ev = "waitfor_events (sp_queues s (Q_read fd)) (sp_queues s (Q_write fd)) dir"
  let ?g = "\<lambda>f :: melon_fiber. f\<lparr>f_waited_event := event_of dir, f_io_canceled := 0\<rparr>" and ?k = "\<lambda>d :: melon_fd. d\<lparr>is_in_epoll := 1\<rparr>"
  have rl: "rep (glock_lock w) (sp_lift glock_lock s)" by (rule rep_lock_lift [OF r])
  obtain y where y: "sp_fds (sp_lift glock_lock s) fd = Some y" using d by auto
  obtain n w1 s1 where w1: "run_loop (waitfor_ctl ctl 0 fd ?ev (glock_lock w)) = Inr (fst (ctl n listed fd ?ev) = 0, w1)" "n \<le> 1" "rep w1 s1"
    "sp_queues s1 = sp_queues (sp_lift glock_lock s)" "sp_timers s1 = sp_timers (sp_lift glock_lock s)" "sp_fiber s1 = sp_fiber (sp_lift glock_lock s)"
    "sp_self s1 = sp_self (sp_lift glock_lock s)" "sp_fds s1 fd \<noteq> None"
    by (rule waitfor_ctl_ends [OF rl y c])
  obtain d' where d': "load_fd fd (glock_lock w) = Inr d'" "read_queue d' = NULL \<longleftrightarrow> sp_queues s (Q_read fd) = []"
    "write_queue d' = NULL \<longleftrightarrow> sp_queues s (Q_write fd) = []"
    using wp_load_fd [OF rl, of fd "\<lambda>d'. (read_queue d' = NULL \<longleftrightarrow> sp_queues s (Q_read fd) = []) \<and> (write_queue d' = NULL \<longleftrightarrow> sp_queues s (Q_write fd) = [])"] y
    by (auto simp: wp_def)
  have i: "idle s1 self" "\<not> timed s1 self" "sp_self s1 = self" using self w1(4-7) by (simp_all add: idle_def timed_def)
  show ?thesis
  proof (cases "fst (ctl n listed fd ?ev) = 0")
    case False
    then have "melon_io_manager_waitfor ctl (int fd) (event_of dir) timeout w = Inr (Returned (-1), glock_unlock w1)"
      using d' w1(1) waitfor_events_mask [OF d'(2,3)] by (simp add: melon_io_manager_waitfor_def Let_def)
    then show ?thesis using False w1 rep_unlock_lift [OF w1(3)] self(1)
      by (intro exI [of _ n] exI [of _ "glock_unlock w1"] exI [of _ "sp_lift glock_unlock s1"]) simp
  next
    case True
    let ?s2 = "sp_mod_fd fd ?k (sp_mod_fiber self ?g s1)"
    have "wp (res_bind (mod_fiber self ?g w1) (\<lambda>w. mod_fd fd ?k w)) (\<lambda>w'. rep w' ?s2)"
      using w1(3) i w1(8) by - (assumption | rule wp | erule step | rule step | (auto simp: core_def bare_fd_def idle_def; fail))+
    then obtain w2 where w2: "res_bind (mod_fiber self ?g w1) (\<lambda>w. mod_fd fd ?k w) = Inr w2" "rep w2 ?s2" by (auto simp: wp_def)
    have "wp (waitfor_suspend fd (event_of dir) timeout self w2) (yields (Suspended (), sp_lift glock_unlock (sp_wait dir fd timeout ?s2)))"
      by (rule waitfor_suspend_refines [OF w2(2)]) (use i w1(8) in simp_all)
    then obtain w' where w': "waitfor_suspend fd (event_of dir) timeout self w2 = Inr (Suspended (), w')"
      "rep w' (sp_lift glock_unlock (sp_wait dir fd timeout ?s2))" by (auto simp: wp_yields)
    have "melon_io_manager_waitfor ctl (int fd) (event_of dir) timeout w = Inr (Suspended (), w')"
      using True d' w1(1) waitfor_events_mask [OF d'(2,3)] w2(1) w'(1) rep_current [OF r] self(1)
      by (auto simp: melon_io_manager_waitfor_def Let_def res_bind_eq_Inr)
    then show ?thesis using True w1(2) w'(2) i w1(4,5,8) sp_wait_effect(1-3) [where s = ?s2 and self = self]
      by (intro exI [of _ n] exI [of _ w'] exI [of _ "sp_lift glock_unlock (sp_wait dir fd timeout ?s2)"]) auto
  qed
qed

lemma cancel_refines:
  assumes r: "rep w s" and d: "fd_ok s fd"
  defines "xs \<equiv> sp_queues s (Q_read fd) @ sp_queues s (Q_write fd)"
  shows "\<exists>w' s'. melon_cancelio (int fd) w = Inr (0, w') \<and> rep w' s' \<and> wakes cancelled xs s s' \<and>
    (\<exists>w''. melon_close ret (int fd) w = Inr (ret, w'') \<and> rep w'' (sp_mod_fd fd (\<lambda>d. d\<lparr>is_in_epoll := 0\<rparr>) s')) \<and>
    (\<forall>x \<in> set xs. \<forall>f. sp_fiber s x = Some f \<and> \<not> waitfor_timed_out timeout f \<longrightarrow>
      melon_io_manager_waitfor_resume timeout (on_fiber x w') = Inr (- ECANCELED, (on_fiber x w')\<lparr>errno := - ECANCELED\<rparr>))"
proof -
  let ?k = "\<lambda>d :: melon_fd. d\<lparr>is_in_epoll := 0\<rparr>"
  have dl: "fd_ok (sp_lift glock_lock s) fd" using d by (simp add: fd_ok_def timer_ok_def)
  obtain w1 w2 s2 where w2: "run_loop (close_flush_queue Rd fd (glock_lock w)) = Inr w1" "run_loop (close_flush_queue Wr fd w1) = Inr w2"
    "rep w2 s2" "wakes cancelled xs (sp_lift glock_lock s) s2" "fd_ok s2 fd"
    by (rule both_wakes [where L = close_flush_queue, OF rep_lock_lift [OF r] dl flush_wakes]) (auto simp: xs_def)
  let ?s = "sp_lift glock_unlock s2"
  have k: "wakes cancelled xs s ?s" using w2(4) by (simp add: wakes_def)
  have "wp (mod_fd fd ?k w2) (\<lambda>w'. rep w' (sp_mod_fd fd ?k s2))"
    by (rule wp_mod_fd [OF w2(3) fd_okD(1) [OF w2(5)]]) (simp_all add: bare_fd_def)
  then obtain w3 where w3: "mod_fd fd ?k w2 = Inr w3" "rep w3 (sp_mod_fd fd ?k s2)" by (auto simp: wp_def)
  have "sp_lift glock_unlock (sp_mod_fd fd ?k s2) = sp_mod_fd fd ?k ?s" by (simp add: sp_mod_fd_def sp_defs)
  then have w3': "rep (glock_unlock w3) (sp_mod_fd fd ?k ?s)" using rep_unlock_lift [OF w3(2)] by simp
  have "melon_io_manager_waitfor_resume timeout (on_fiber x (glock_unlock w2)) =
      Inr (- ECANCELED, (on_fiber x (glock_unlock w2))\<lparr>errno := - ECANCELED\<rparr>)"
    if x: "x \<in> set xs" "sp_fiber s x = Some f" "\<not> waitfor_timed_out timeout f" for x f
  proof -
    have "sp_fiber ?s x = Some (cancelled f)" using k x by (simp add: wakes_def)
    then obtain g where g: "fibers (glock_unlock w2) x = Some g" "cancelled f = core g" using rep_fiberE [OF rep_unlock_lift [OF w2(3)]] by blast
    have "f_io_canceled g = 1" "f_timer_ctx g = f_timer_ctx f"
      using arg_cong [OF g(2), of f_io_canceled] arg_cong [OF g(2), of f_timer_ctx] by simp_all
    with g(1) x(3) show ?thesis by (auto simp: melon_io_manager_waitfor_resume_def waitfor_timed_out_def)
  qed
  then show ?thesis using w2(1,2) w3(1) w3' k rep_unlock_lift [OF w2(3)]
    by (intro exI [of _ "glock_unlock w2"] exI [of _ ?s]) (auto simp: melon_cancelio_def melon_close_def)
qed

section \<open>Properties\<close>

text \<open>
  C21: When a fiber waits for a descriptor, \<^verbatim>\<open>epoll_ctl\<close> is tried at most twice (the
  first attempt may correct the flag \<^verbatim>\<open>is_in_epoll\<close>) for the events of all the fibers
  that wait. If it fails, -1 is returned and no queue has changed. Otherwise the fiber is
  last in the queue of its direction, it is in the timer queue exactly when there is a
  timeout, and it is suspended.
\<close>

theorem io_waitfor_correct:
  assumes r: "rep w s" and self: "sp_self s = self" "idle s self" "\<not> timed s self"
    and d: "sp_fds s fd \<noteq> None" and c: "ctl_law ctl fd listed"
  shows "\<exists>n w' s'. n \<le> 1 \<and> rep w' s' \<and>
    (if fst (ctl n listed fd (waitfor_events (sp_queues s (Q_read fd)) (sp_queues s (Q_write fd)) dir)) \<noteq> 0
     then melon_io_manager_waitfor ctl (int fd) (event_of dir) timeout w = Inr (Returned (-1), w') \<and>
       sp_queues s' = sp_queues s \<and> sp_timers s' = sp_timers s
     else melon_io_manager_waitfor ctl (int fd) (event_of dir) timeout w = Inr (Suspended (), w') \<and>
       sp_queues s' = (sp_queues s)(fd_qid dir fd := sp_queues s (fd_qid dir fd) @ [self]) \<and> (timed s' self \<longleftrightarrow> timeout > 0) \<and>
       map_option is_in_epoll (sp_fds s' fd) = Some 1)"
proof -
  let ?ev = "waitfor_events (sp_queues s (Q_read fd)) (sp_queues s (Q_write fd)) dir"
  obtain n w' s' where "n \<le> 1" "rep w' s'" and n: "if fst (ctl n listed fd ?ev) \<noteq> 0
     then melon_io_manager_waitfor ctl (int fd) (event_of dir) timeout w = Inr (Returned (-1), w') \<and>
       sp_queues s' = sp_queues s \<and> sp_timers s' = sp_timers s \<and> sp_fiber s' = sp_fiber s \<and> sp_self s' = self \<and> sp_fds s' fd \<noteq> None
     else melon_io_manager_waitfor ctl (int fd) (event_of dir) timeout w = Inr (Suspended (), w') \<and>
       sp_queues s' = (sp_queues s)(fd_qid dir fd := sp_queues s (fd_qid dir fd) @ [self]) \<and> (timed s' self \<longleftrightarrow> timeout > 0) \<and>
       map_option is_in_epoll (sp_fds s' fd) = Some 1"
    using waitfor_refines [OF assms, of dir timeout] by blast
  then show ?thesis by (cases "fst (ctl n listed fd ?ev) = 0") auto
qed

text \<open>A kernel whose interest list holds the descriptor, and that accepts every request.\<close>

definition ex_ctl :: epoll_ctl where
  "ex_ctl n md fd ev = (if md then (0, 0) else (-1, EEXIST))"

lemma ex_ctl_law: "ctl_law ex_ctl fd True"
  by (simp add: ctl_law_def ex_ctl_def)

lemma ex_fds [simp]: "sp_fds (abs0 ex_world) = [5 \<mapsto> \<lparr>read_queue = NULL, write_queue = NULL, is_in_epoll = 0\<rparr>]"
  by (auto simp: abs0_def erase_def ex_world_def bare_melon_def bare_io_def bare_fd_def)

lemma ex_ctl_ok: "fst (ex_ctl n True fd ev) = 0"
  by (simp add: ex_ctl_def)

lemma ex_self: "sp_self (abs0 ex_world) = 1" "idle (abs0 ex_world) 1" "\<not> timed (abs0 ex_world) 1" "sp_fds (abs0 ex_world) 5 \<noteq> None"
  by (simp_all add: idle_def timed_def)

theorem io_waitfor_correct_witness:
  "\<exists>w' s'. melon_io_manager_waitfor ex_ctl 5 kEventIoRead 0 ex_world = Inr (Suspended (), w') \<and> rep w' s' \<and> sp_queues s' (Q_read 5) = [1]"
proof -
  obtain w' s' where "rep w' s'" "melon_io_manager_waitfor ex_ctl (int 5) (event_of Rd) 0 ex_world = Inr (Suspended (), w')"
    "sp_queues s' = (sp_queues (abs0 ex_world))(fd_qid Rd 5 := sp_queues (abs0 ex_world) (fd_qid Rd 5) @ [1])"
    using io_waitfor_correct [OF rep_abs0 [OF quiet_ex_world] ex_self ex_ctl_law, of Rd 0]
    by (auto simp only: ex_ctl_ok if_False not_True_eq_False simp_thms)
  then show ?thesis by auto
qed

text \<open>
  When the timeout of a wait expires, the callback takes the fiber from the queue of
  the descriptor, wherever it is, and makes it ready; the wait then returns
  \<^verbatim>\<open>-ETIMEDOUT\<close>.
\<close>

theorem io_waitfor_expires:
  assumes r: "rep w s" and d: "sp_fds s fd \<noteq> None" and x: "x \<in> set (sp_queues s (fd_qid dir fd))"
    and f: "sp_fiber s x = Some f" "f_waited_event f = event_of dir" "f_timer_cb f = Cb_waitfor"
      "f_timer_ctx f = Ctx_waitfor \<lparr>fc_fiber = x, fc_fildes = fd, fc_timeout = 0\<rparr>" and t: "timeout > 0"
  shows "\<exists>w' s'. run_timer_cb x w = Inr w' \<and> rep w' s' \<and>
    sp_queues s' = (sp_queues s)(fd_qid dir fd := remove1 x (sp_queues s (fd_qid dir fd)), Q_ready := sp_queues s Q_ready @ [x]) \<and>
    melon_io_manager_waitfor_resume timeout (on_fiber x w') = Inr (- ETIMEDOUT, (on_fiber x w')\<lparr>errno := - ETIMEDOUT\<rparr>)"
proof -
  let ?ctx = "\<lparr>fc_fiber = x, fc_fildes = fd, fc_timeout = 0\<rparr>"
  let ?g = "\<lambda>f :: melon_fiber. f\<lparr>f_timer_ctx := Ctx_waitfor (?ctx\<lparr>fc_timeout := 1\<rparr>)\<rparr>" and ?s = "sp_waitfor_cb dir x ?ctx s"
  obtain f' where f': "fibers w x = Some f'" "f = core f'" using rep_fiberE [OF r f(1)] .
  have "wp (waitfor_cb x ?ctx w) (\<lambda>w'. rep w' ?s)"
    by (rule waitfor_cb_refines [OF r]) (use d x f in simp_all)
  then obtain w' where w': "waitfor_cb x ?ctx w = Inr w'" "rep w' ?s" by (auto simp: wp_def)
  have "run_timer_cb x w = Inr w'" using f' f(3,4) w'(1) by (simp add: run_timer_cb_def)
  moreover have "melon_io_manager_waitfor_resume timeout (on_fiber x w') = Inr (- ETIMEDOUT, (on_fiber x w')\<lparr>errno := - ETIMEDOUT\<rparr>)"
  proof -
    have "sp_fiber ?s x = Some (released (?g f))" using f(1) by (simp add: sp_waitfor_cb_def)
    then obtain g where g: "fibers w' x = Some g" "released (?g f) = core g" using rep_fiberE [OF w'(2)] by blast
    from arg_cong [OF g(2) [symmetric], of f_timer_ctx] g(1) t show ?thesis
      by (simp add: melon_io_manager_waitfor_resume_def waitfor_timed_out_def)
  qed
  ultimately show ?thesis using w'(2) by (intro exI [of _ w'] exI [of _ ?s]) (simp add: sp_waitfor_cb_def)
qed

lemma sp_fds_current [simp]: "sp_fds (sp_current x s) = sp_fds s"
  by (simp add: sp_current_def sp_lift_def)

lemma rep_wait:
  assumes r: "rep w s" and self: "idle s (sp_self s)" "\<not> timed s (sp_self s)" and d: "sp_fds s fd \<noteq> None"
  shows "\<exists>w'. rep w' (sp_wait dir fd timeout s)"
proof -
  have "wp (waitfor_suspend fd (event_of dir) timeout (sp_self s) (glock_lock w))
      (yields (Suspended (), sp_lift glock_unlock (sp_wait dir fd timeout (sp_lift glock_lock s))))"
    by (rule waitfor_suspend_refines [OF rep_lock_lift [OF r]]) (use self d in simp_all)
  moreover have "sp_lift glock_unlock (sp_wait dir fd timeout (sp_lift glock_lock s)) = sp_wait dir fd timeout s"
    by (simp add: sp_wait_def Let_def sp_comm)
  ultimately show ?thesis by (auto simp: wp_yields)
qed

text \<open>A state in which fibers 1 and 2 wait to read from descriptor 5, 2 with a timeout, and 3 waits to write.\<close>

definition ex_fd1 :: spec where
  "ex_fd1 = sp_wait Rd 5 0 (sp_mod_fiber 2 (\<lambda>f. f\<lparr>f_waited_event := kEventIoRead\<rparr>) (abs0 ex_world))"

definition ex_fd2 :: spec where
  "ex_fd2 = sp_wait Rd 5 9 (sp_current 2 ex_fd1)"

definition ex_fd :: spec where
  "ex_fd = sp_wait Wr 5 0 (sp_current 3 ex_fd2)"

lemma ex_fd1_simps [simp]:
  "sp_queues ex_fd1 = (\<lambda>q. [])(Q_read 5 := [1])" "sp_timers ex_fd1 = []" "sp_fds ex_fd1 = sp_fds (abs0 ex_world)"
  "sp_fiber ex_fd1 = [1 \<mapsto> a_fiber\<lparr>f_timer := 0\<rparr>, 2 \<mapsto> a_fiber\<lparr>f_waited_event := kEventIoRead\<rparr>, 3 \<mapsto> a_fiber]"
  using ex_self(1) by (auto simp: ex_fd1_def sp_wait_def Let_def)

lemma ex_fd2_simps [simp]:
  "sp_queues ex_fd2 = (\<lambda>q. [])(Q_read 5 := [1, 2])" "sp_timers ex_fd2 = [2]" "sp_fds ex_fd2 = sp_fds (abs0 ex_world)"
  "sp_fiber ex_fd2 = [1 \<mapsto> a_fiber\<lparr>f_timer := 0\<rparr>, 2 \<mapsto> a_fiber\<lparr>f_waited_event := kEventIoRead, f_timer := 9,
    f_timer_ctx := Ctx_waitfor \<lparr>fc_fiber = 2, fc_fildes = 5, fc_timeout = 0\<rparr>, f_timer_cb := Cb_waitfor\<rparr>, 3 \<mapsto> a_fiber]"
  by (auto simp: ex_fd2_def sp_wait_def Let_def timer_insert_def sp_current_def sp_lift_def)

lemma ex_fd_simps [simp]:
  "sp_queues ex_fd = (\<lambda>q. [])(Q_read 5 := [1, 2], Q_write 5 := [3])" "sp_timers ex_fd = [2]" "sp_fds ex_fd = sp_fds (abs0 ex_world)"
  "sp_fiber ex_fd = [1 \<mapsto> a_fiber\<lparr>f_timer := 0\<rparr>, 2 \<mapsto> a_fiber\<lparr>f_waited_event := kEventIoRead, f_timer := 9,
    f_timer_ctx := Ctx_waitfor \<lparr>fc_fiber = 2, fc_fildes = 5, fc_timeout = 0\<rparr>, f_timer_cb := Cb_waitfor\<rparr>, 3 \<mapsto> a_fiber\<lparr>f_timer := 0\<rparr>]"
  by (auto simp: ex_fd_def sp_wait_def Let_def sp_current_def sp_lift_def)

lemma rep_ex_fd: "\<exists>w. rep w ex_fd" "\<exists>w. rep w (sp_timer_del 2 ex_fd)"
proof -
  have "\<exists>w. rep w (sp_mod_fiber 2 (\<lambda>f. f\<lparr>f_waited_event := kEventIoRead\<rparr>) (abs0 ex_world))"
  proof -
    have "wp (mod_fiber 2 (\<lambda>f. f\<lparr>f_waited_event := kEventIoRead\<rparr>) ex_world) (\<lambda>w. rep w (sp_mod_fiber 2 (\<lambda>f. f\<lparr>f_waited_event := kEventIoRead\<rparr>) (abs0 ex_world)))"
      by (rule wp_mod_fiber [OF rep_abs0 [OF quiet_ex_world]]) (simp_all add: core_def)
    then show ?thesis by (auto simp: wp_def)
  qed
  then have "\<exists>w. rep w ex_fd1"
    unfolding ex_fd1_def using rep_wait ex_self by (auto simp: idle_def timed_def)
  then have "\<exists>w. rep w ex_fd2" unfolding ex_fd2_def
    using rep_wait [OF rep_current_upd, of _ ex_fd1 2 5 Rd 9] by (auto simp: idle_def timed_def)
  then show "\<exists>w. rep w ex_fd" unfolding ex_fd_def
    using rep_wait [OF rep_current_upd, of _ ex_fd2 3 5 Wr 0] by (auto simp: idle_def timed_def)
  then obtain w where w: "rep w ex_fd" ..
  have "wp (melon_timer_remove_locked 2 w) (\<lambda>w. rep w (sp_timer_del 2 ex_fd))"
    by (rule wp_timer_remove_locked [OF w]) (simp_all add: timed_def)
  then show "\<exists>w. rep w (sp_timer_del 2 ex_fd)" by (auto simp: wp_def)
qed

theorem io_waitfor_expires_witness:
  "\<exists>w w' s'. rep w (sp_timer_del 2 ex_fd) \<and> run_timer_cb 2 w = Inr w' \<and> rep w' s' \<and> sp_queues s' (Q_read 5) = [1] \<and> sp_queues s' Q_ready = [2]"
proof -
  obtain w where w: "rep w (sp_timer_del 2 ex_fd)" using rep_ex_fd(2) ..
  have "\<exists>w' s'. run_timer_cb 2 w = Inr w' \<and> rep w' s' \<and> sp_queues s' = (sp_queues ex_fd)(Q_read 5 := [1], Q_ready := [2])"
    using io_waitfor_expires [OF w, of 5 2 Rd "the (sp_fiber ex_fd 2)" 9] by auto
  with w show ?thesis by fastforce
qed

text \<open>
  C19: One event of the manager wakes exactly these fibers: all those that wait for the
  descriptor, the readers first, when the event is an error or a hang-up; otherwise the
  first reader when the descriptor can be read and the first writer when it can be
  written. They become ready and leave the timer queue. The descriptor is armed again
  exactly when fibers still wait, for the events they wait for.
\<close>

theorem io_handle_correct:
  assumes "rep w s" and "fd_ok s (ev_fd e)"
  shows "\<exists>w' s'. melon_io_manager_handle e w = Inr (rearm (sp_queues s' (Q_read (ev_fd e))) (sp_queues s' (Q_write (ev_fd e))), w') \<and>
    rep w' s' \<and> wakes released (woken (ev_events e) (sp_queues s (Q_read (ev_fd e))) (sp_queues s (Q_write (ev_fd e)))) s s'"
  by (rule handle_refines [OF assms]) blast

lemma ex_fd_ok: "fd_ok ex_fd 5"
proof -
  have "timer_ok ex_fd x" if "x \<in> set (sp_queues ex_fd (fd_qid dir 5))" for dir x
    using that by (cases dir) (auto simp: timer_ok_def timer_of_def timed_def)
  then show ?thesis by (simp add: fd_ok_def)
qed

theorem io_handle_correct_witness:
  "\<exists>w w' s'. rep w ex_fd \<and> melon_io_manager_handle \<lparr>ev_events = EPOLLIN, ev_fd = 5\<rparr> w = Inr (Some (EPOLLONESHOT OR EPOLLIN OR EPOLLOUT), w') \<and>
    rep w' s' \<and> sp_queues s' Q_ready = [1]"
proof -
  obtain w where w: "rep w ex_fd" using rep_ex_fd(1) ..
  have "woken EPOLLIN [1, 2] [3] = [1]" by (simp add: woken_def epoll_defs)
  then obtain w' s' where *: "melon_io_manager_handle \<lparr>ev_events = EPOLLIN, ev_fd = 5\<rparr> w = Inr (rearm (sp_queues s' (Q_read 5)) (sp_queues s' (Q_write 5)), w')"
    "rep w' s'" "wakes released [1] ex_fd s'"
    using io_handle_correct [OF w, of "\<lparr>ev_events = EPOLLIN, ev_fd = 5\<rparr>"] ex_fd_ok by (auto simp: ex_fd_simps)
  then show ?thesis using w by (intro exI [of _ w] exI [of _ w'] exI [of _ s']) (simp add: wakes_def rearm_def)
qed

text \<open>
  C22: \<^verbatim>\<open>melon_cancelio\<close> and \<^verbatim>\<open>melon_close\<close> end and wake all the fibers that wait for
  the descriptor, the readers first, each in the order of arrival; none is left in its
  queues or, with a running timer, in the timer queue. The wait of each of these fibers,
  unless it had timed out before, returns \<^verbatim>\<open>-ECANCELED\<close>.
\<close>

theorem io_cancel_wakes_all:
  assumes r: "rep w s" and d: "fd_ok s fd"
  defines "xs \<equiv> sp_queues s (Q_read fd) @ sp_queues s (Q_write fd)"
  shows "\<exists>w' s'. melon_cancelio (int fd) w = Inr (0, w') \<and> rep w' s' \<and> wakes cancelled xs s s' \<and>
    (\<exists>w''. melon_close ret (int fd) w = Inr (ret, w'') \<and> rep w'' (sp_mod_fd fd (\<lambda>d. d\<lparr>is_in_epoll := 0\<rparr>) s')) \<and>
    (\<forall>x \<in> set xs. \<forall>f. sp_fiber s x = Some f \<and> \<not> waitfor_timed_out timeout f \<longrightarrow>
      melon_io_manager_waitfor_resume timeout (on_fiber x w') = Inr (- ECANCELED, (on_fiber x w')\<lparr>errno := - ECANCELED\<rparr>))"
  using cancel_refines [OF r d] unfolding xs_def .

theorem io_cancel_wakes_all_witness:
  "\<exists>w w' s'. rep w ex_fd \<and> melon_cancelio 5 w = Inr (0, w') \<and> rep w' s' \<and> sp_queues s' Q_ready = [1, 2, 3] \<and> \<not> timed s' 2"
proof -
  obtain w where w: "rep w ex_fd" using rep_ex_fd(1) ..
  obtain w' s' where "melon_cancelio (int 5) w = Inr (0, w')" "rep w' s'" "wakes cancelled (sp_queues ex_fd (Q_read 5) @ sp_queues ex_fd (Q_write 5)) ex_fd s'"
    using io_cancel_wakes_all [OF w ex_fd_ok] by blast
  then show ?thesis using w by (intro exI [of _ w] exI [of _ w'] exI [of _ s']) (auto simp: wakes_def timer_of_def)
qed

text \<open>The fibers that wait for a descriptor, and those of them that an event has to wake.\<close>

definition waiting :: "spec \<Rightarrow> nat \<Rightarrow> ptr set" where
  "waiting s fd = set (sp_queues s (Q_read fd)) \<union> set (sp_queues s (Q_write fd))"

definition due :: "spec \<Rightarrow> epoll_event \<Rightarrow> ptr list" where
  "due s e = woken (ev_events e) (sp_queues s (Q_read (ev_fd e))) (sp_queues s (Q_write (ev_fd e)))"

lemma due_waiting: "set (due s e) \<subseteq> waiting s (ev_fd e)"
  by (auto simp: due_def woken_def waiting_def dest: in_set_takeD)

lemma take_filter: "set (take 1 xs) \<subseteq> set ys \<union> set (take 1 (filter (\<lambda>x. x \<notin> set ys) xs))"
  by (cases xs) auto

lemma due_wakes:
  assumes "wakes upd xs s s'"
  shows "set (due s e) \<subseteq> set xs \<union> set (due s' e)" and "waiting s' fd = waiting s fd - set xs"
proof -
  have q: "sp_queues s' q = filter (\<lambda>x. x \<notin> set xs) (sp_queues s q)" if "q \<noteq> Q_ready" for q using wakes_queues(2) [OF assms that] .
  show "waiting s' fd = waiting s fd - set xs" by (auto simp: waiting_def q)
  show "set (due s e) \<subseteq> set xs \<union> set (due s' e)"
    using take_filter [of "sp_queues s (Q_read (ev_fd e))" xs] take_filter [of "sp_queues s (Q_write (ev_fd e))" xs]
    by (auto simp: due_def woken_def q simp del: take_Suc)
qed

lemma due_distinct:
  assumes "rep w s"
  shows "distinct (due s e)"
proof -
  let ?r = "sp_queues s (Q_read (ev_fd e))" and ?w = "sp_queues s (Q_write (ev_fd e))"
  have "set ?r \<inter> set ?w = {}" using qrep_disjoint [OF rep_qrep [OF assms], of _ "Q_read (ev_fd e)" "Q_write (ev_fd e)"] by auto
  moreover have "distinct ?r" "distinct ?w" using rep_distinct [OF assms] by simp_all
  ultimately show ?thesis by (auto simp: due_def woken_def dest: in_set_takeD)
qed

lemma handle_events_refines:
  assumes "rep w s" and "\<forall>e \<in> set es. fd_ok s (ev_fd e)"
  shows "\<exists>w' s' xs. handle_events es w = Inr w' \<and> rep w' s' \<and> wakes released xs s s' \<and> distinct xs \<and>
    set xs \<subseteq> (\<Union>e \<in> set es. waiting s (ev_fd e)) \<and> (\<forall>e \<in> set es. set (due s e) \<subseteq> set xs)"
  using assms
proof (induction es arbitrary: w s)
  case Nil
  then show ?case using wakes_refl by (intro exI [of _ w] exI [of _ s] exI [of _ "[]"]) simp
next
  case (Cons e es)
  obtain w1 s1 m where w1: "melon_io_manager_handle e w = Inr (m, w1)" "rep w1 s1" "wakes released (due s e) s s1"
    unfolding due_def by (rule handle_refines [OF Cons.prems(1), of e]) (use Cons.prems(2) in auto)
  have "\<forall>e \<in> set es. fd_ok s1 (ev_fd e)" using fd_ok_wakes [OF w1(3)] Cons.prems(2) by simp
  then obtain w2 s2 xs where w2: "handle_events es w1 = Inr w2" "rep w2 s2" "wakes released xs s1 s2" "distinct xs"
    "set xs \<subseteq> (\<Union>e \<in> set es. waiting s1 (ev_fd e))" "\<forall>e \<in> set es. set (due s1 e) \<subseteq> set xs" using Cons.IH [OF w1(2)] by blast
  have d: "set (due s e) \<inter> set xs = {}" using w2(5) by (auto simp: due_wakes(2) [OF w1(3)])
  then have "distinct (due s e @ xs)" "wakes released (due s e @ xs) s s2"
    using due_distinct [OF Cons.prems(1)] w2(4) wakes_trans [OF w1(3) w2(3)] by auto
  moreover have "set (due s e @ xs) \<subseteq> (\<Union>e \<in> set (e # es). waiting s (ev_fd e))"
    using due_waiting [of s e] w2(5) by (auto simp: due_wakes(2) [OF w1(3)])
  moreover have "set (due s e') \<subseteq> set (due s e @ xs)" if "e' \<in> set (e # es)" for e'
    using that w2(6) due_wakes(1) [OF w1(3), of e'] by auto
  ultimately show ?case using w1(1) w2(1,2) by (intro exI [of _ w2] exI [of _ s2] exI [of _ "due s e @ xs"]) simp
qed

text \<open>
  C20: A pass of the manager over the events of one \<^verbatim>\<open>epoll_wait\<close> wakes every fiber that one
  of the events is due to wake, also when several are for the same descriptor, none of them
  twice and no fiber that waits for another descriptor; it never faults.
\<close>

theorem io_pass_wakes_due:
  assumes r: "rep w s" and d: "\<forall>e \<in> set es. fd_ok s (ev_fd e)"
  shows "\<exists>w' s' xs. melon_io_manager_pass es w = Inr w' \<and> rep w' s' \<and> wakes released xs s s' \<and> distinct xs \<and>
    set xs \<subseteq> (\<Union>e \<in> set es. waiting s (ev_fd e)) \<and> (\<forall>e \<in> set es. set (due s e) \<subseteq> set xs)"
proof -
  let ?s = "sp_lift glock_lock s"
  have d': "\<forall>e \<in> set es. fd_ok ?s (ev_fd e)" using d by (simp add: fd_ok_def timer_ok_def)
  obtain w1 s1 xs where w1: "handle_events es (glock_lock w) = Inr w1" "rep w1 s1" "wakes released xs ?s s1" "distinct xs"
    "set xs \<subseteq> (\<Union>e \<in> set es. waiting ?s (ev_fd e))" "\<forall>e \<in> set es. set (due ?s e) \<subseteq> set xs"
    using handle_events_refines [OF rep_lock_lift [OF r] d'] by (elim exE conjE) (rule that)
  have "wakes released xs s (sp_lift glock_unlock s1)" using w1(3) by (simp add: wakes_def)
  moreover have "waiting ?s = waiting s" "due ?s = due s" by (simp_all add: fun_eq_iff waiting_def due_def)
  moreover have "melon_io_manager_pass es w = Inr (glock_unlock w1)" using w1(1) by (simp add: melon_io_manager_pass_def)
  ultimately show ?thesis using w1(4-6) rep_unlock_lift [OF w1(2)]
    by (intro exI [of _ "glock_unlock w1"] exI [of _ "sp_lift glock_unlock s1"] exI [of _ xs]) simp
qed

theorem io_pass_wakes_due_witness:
  "\<exists>w w' s' xs. rep w ex_fd \<and> melon_io_manager_pass [\<lparr>ev_events = EPOLLIN, ev_fd = 5\<rparr>, \<lparr>ev_events = EPOLLOUT, ev_fd = 5\<rparr>] w = Inr w' \<and>
    rep w' s' \<and> wakes released xs ex_fd s' \<and> {1, 3} \<subseteq> set xs"
proof -
  let ?es = "[\<lparr>ev_events = EPOLLIN, ev_fd = 5\<rparr>, \<lparr>ev_events = EPOLLOUT, ev_fd = 5\<rparr>]"
  obtain w where w: "rep w ex_fd" using rep_ex_fd(1) ..
  have "due ex_fd (?es ! 0) = [1]" "due ex_fd (?es ! 1) = [3]" by (simp_all add: due_def woken_def epoll_defs)
  moreover obtain w' s' xs where "melon_io_manager_pass ?es w = Inr w'" "rep w' s'" "wakes released xs ex_fd s'"
    "\<forall>e \<in> set ?es. set (due ex_fd e) \<subseteq> set xs"
    using io_pass_wakes_due [OF w, of ?es] ex_fd_ok by auto
  ultimately show ?thesis using w by (intro exI [of _ w] exI [of _ w'] exI [of _ s'] exI [of _ xs]) simp
qed

end
