(* ===== verification/Melon_Samples.thy ===== *)
theory Melon_Samples
  imports Melon_Main Melon_Io_Properties
begin

text \<open>
  The programs of \<^verbatim>\<open>samples\<close>, as clients of the library: the server of
  \<^verbatim>\<open>samples/echo_server.c\<close>, which has a fiber that accepts and one for every client, and
  the fiber of \<^verbatim>\<open>samples/hello_world.c\<close>. A function is modelled from one suspension to
  the next, with the point at which it waits as the continuation.
\<close>

definition MELON_NANOSECOND :: int where "MELON_NANOSECOND = 1"
definition MELON_MICROSECOND :: int where "MELON_MICROSECOND = 1000 * MELON_NANOSECOND"
definition MELON_MILLISECOND :: int where "MELON_MILLISECOND = 1000 * MELON_MICROSECOND"
definition MELON_SECOND :: int where "MELON_SECOND = 1000 * MELON_MILLISECOND"

lemmas second_defs = MELON_SECOND_def MELON_MILLISECOND_def MELON_MICROSECOND_def MELON_NANOSECOND_def

text \<open>\<^verbatim>\<open>melon_time() + n * MELON_SECOND\<close>: an unsigned sum of 64 bits, read as a \<^verbatim>\<open>melon_time_t\<close>.\<close>

definition deadline :: "int \<Rightarrow> int \<Rightarrow> int" where
  "deadline time n = sint (word_of_int (time + n * MELON_SECOND) :: 64 word)"

lemma deadline_later:
  assumes "0 \<le> time" and "0 \<le> n" and "time + n * MELON_SECOND < 2 ^ 63"
  shows "deadline time n = time + n * MELON_SECOND"
  unfolding deadline_def using assms by (simp add: sint_sbintrunc' signed_take_bit_int_eq_self second_defs del: of_int_add of_int_mult)

text \<open>
  What the kernel answers between two suspensions: \<^verbatim>\<open>epoll_ctl\<close>, the system calls, the
  clock, \<^verbatim>\<open>close\<close>, and for the server the memory for the argument and for the fiber.
\<close>

record kernel =
  k_ctl :: epoll_ctl
  k_sys :: "syscall \<Rightarrow> int"
  k_time :: int
  k_close :: int
  k_data :: ptr
  k_fiber :: fiber_env

section \<open>The echo server\<close>

text \<open>Where a client's fiber waits, with the deadline of the call, and when it writes the number of bytes.\<close>

datatype client_k = Client_reads int io_call | Client_writes int int io_call

definition client_end :: "kernel \<Rightarrow> int \<Rightarrow> world \<Rightarrow> (client_k outcome \<times> world) res" where
  "client_end k fd w = res_bind (melon_close (k_close k) fd w) (\<lambda>(_, w). Inr (Returned 0, w))"

text \<open>The loop of \<^verbatim>\<open>handle_client\<close>, from the call of \<^verbatim>\<open>melon_read\<close>, or from that of
  \<^verbatim>\<open>melon_write\<close> with the bytes that were read.\<close>

partial_function (option) client_loop :: "kernel \<Rightarrow> int \<Rightarrow> int option \<Rightarrow> world \<Rightarrow> (client_k outcome \<times> world) res option" where
  [code]: "client_loop k fd got w =
    (case got of
       None \<Rightarrow>
        (case io_run (k_ctl k) (k_sys k) (deadline (k_time k) 5) (melon_read fd) w of
           Inl e \<Rightarrow> Some (Inl e)
         | Inr r \<Rightarrow> (case fst r of
               Suspended c \<Rightarrow> Some (Inr (Suspended (Client_reads (deadline (k_time k) 5) c), snd r))
             | Returned bytes \<Rightarrow> if bytes \<le> 0 then Some (client_end k fd (snd r)) else client_loop k fd (Some bytes) (snd r)))
     | Some bytes \<Rightarrow>
        (case io_run (k_ctl k) (k_sys k) (deadline (k_time k) 5) (melon_write fd) w of
           Inl e \<Rightarrow> Some (Inl e)
         | Inr r \<Rightarrow> (case fst r of
               Suspended c \<Rightarrow> Some (Inr (Suspended (Client_writes bytes (deadline (k_time k) 5) c), snd r))
             | Returned _ \<Rightarrow> client_loop k fd None (snd r))))"

definition handle_client :: "kernel \<Rightarrow> int \<Rightarrow> world \<Rightarrow> (client_k outcome \<times> world) res" where
  "handle_client k fd w = run_loop (client_loop k fd None w)"

definition handle_client_resume :: "kernel \<Rightarrow> int \<Rightarrow> client_k \<Rightarrow> world \<Rightarrow> (client_k outcome \<times> world) res" where
  "handle_client_resume k fd p w =
    (case p of
       Client_reads timeout c \<Rightarrow>
         res_bind (io_resume (k_ctl k) (k_sys k) timeout c w) (\<lambda>(r, w).
         case r of
           Suspended c \<Rightarrow> Inr (Suspended (Client_reads timeout c), w)
         | Returned bytes \<Rightarrow> if bytes \<le> 0 then client_end k fd w else run_loop (client_loop k fd (Some bytes) w))
     | Client_writes bytes timeout c \<Rightarrow>
         res_bind (io_resume (k_ctl k) (k_sys k) timeout c w) (\<lambda>(r, w).
         case r of
           Suspended c \<Rightarrow> Inr (Suspended (Client_writes bytes timeout c), w)
         | Returned _ \<Rightarrow> run_loop (client_loop k fd None w)))"

text \<open>
  What the loop of the server does with the result of \<^verbatim>\<open>melon_accept\<close>; \<open>handler\<close> is
  the address of \<^verbatim>\<open>handle_client\<close>.
\<close>

definition server_got :: "kernel \<Rightarrow> ptr \<Rightarrow> int \<Rightarrow> world \<Rightarrow> world res" where
  "server_got k handler client w =
    (if client < 0 then Inr w
     else if k_data k = NULL then res_bind (melon_close (k_close k) client w) (\<lambda>(_, w). Inr w)
     else
       res_bind (melon_fiber_createlight (k_fiber k) None handler (k_data k) w) (\<lambda>(ret, w).
       if ret \<noteq> 0 then res_bind (melon_close (k_close k) client w) (\<lambda>(_, w). Inr w)
       else Inr w))"

partial_function (option) server_loop :: "kernel \<Rightarrow> ptr \<Rightarrow> int \<Rightarrow> world \<Rightarrow> (io_call outcome \<times> world) res option" where
  [code]: "server_loop k handler fd w =
    (case io_run (k_ctl k) (k_sys k) 0 (melon_accept fd) w of
       Inl e \<Rightarrow> Some (Inl e)
     | Inr r \<Rightarrow> (case fst r of
           Suspended c \<Rightarrow> Some (Inr (Suspended c, snd r))
         | Returned client \<Rightarrow> (case server_got k handler client (snd r) of
               Inl e \<Rightarrow> Some (Inl e)
             | Inr w \<Rightarrow> server_loop k handler fd w)))"

definition server_resume :: "kernel \<Rightarrow> ptr \<Rightarrow> int \<Rightarrow> io_call \<Rightarrow> world \<Rightarrow> (io_call outcome \<times> world) res" where
  "server_resume k handler fd c w =
    res_bind (io_resume (k_ctl k) (k_sys k) 0 c w) (\<lambda>(r, w).
    case r of
      Suspended c \<Rightarrow> Inr (Suspended c, w)
    | Returned client \<Rightarrow> res_bind (server_got k handler client w) (\<lambda>w. run_loop (server_loop k handler fd w)))"

text \<open>
  The start of the server; \<open>fd\<close> is what \<^verbatim>\<open>socket\<close> returns, \<open>bound\<close> and \<open>listens\<close> are the
  results of \<^verbatim>\<open>bind\<close> and \<^verbatim>\<open>listen\<close>.
\<close>

definition echo_main :: "kernel \<Rightarrow> ptr \<Rightarrow> int \<Rightarrow> int \<Rightarrow> int \<Rightarrow> world \<Rightarrow> (io_call outcome \<times> world) res" where
  "echo_main k handler fd bound listens w =
    (if fd < 0 then Inr (Returned 1, w)
     else if bound \<noteq> 0 then res_bind (melon_close (k_close k) fd w) (\<lambda>(_, w). Inr (Returned 1, w))
     else if listens \<noteq> 0 then res_bind (melon_close (k_close k) fd w) (\<lambda>(_, w). Inr (Returned 1, w))
     else run_loop (server_loop k handler fd w))"

section \<open>Hello world\<close>

definition STDIN_FILENO :: int where "STDIN_FILENO = 0"
definition STDOUT_FILENO :: int where "STDOUT_FILENO = 1"
definition STDERR_FILENO :: int where "STDERR_FILENO = 2"

text \<open>What \<^verbatim>\<open>my_fiber\<close> writes, by the result of the read and \<^verbatim>\<open>errno\<close>.\<close>

datatype message = Timedout | Error_message | Echo nat

definition hello_answer :: "int \<Rightarrow> world \<Rightarrow> int \<times> message" where
  "hello_answer nbytes w =
    (if nbytes < 0 \<and> errno w = - ETIMEDOUT then (STDERR_FILENO, Timedout)
     else if nbytes < 0 then (STDERR_FILENO, Error_message)
     else (STDOUT_FILENO, Echo (nat nbytes)))"

datatype hello_k = Hello_reads int io_call | Hello_writes message io_call

definition hello_write :: "kernel \<Rightarrow> int \<Rightarrow> world \<Rightarrow> (hello_k outcome \<times> world) res" where
  "hello_write k nbytes w =
    (case hello_answer nbytes w of (fd, m) \<Rightarrow>
     res_bind (io_run (k_ctl k) (k_sys k) 0 (melon_write fd) w) (\<lambda>(r, w).
     Inr (case r of Suspended c \<Rightarrow> Suspended (Hello_writes m c) | Returned _ \<Rightarrow> Returned 0, w)))"

definition my_fiber :: "kernel \<Rightarrow> world \<Rightarrow> (hello_k outcome \<times> world) res" where
  "my_fiber k w =
    res_bind (io_run (k_ctl k) (k_sys k) (deadline (k_time k) 2) (melon_read STDIN_FILENO) w) (\<lambda>(r, w).
    case r of
      Suspended c \<Rightarrow> Inr (Suspended (Hello_reads (deadline (k_time k) 2) c), w)
    | Returned nbytes \<Rightarrow> hello_write k nbytes w)"

definition my_fiber_resume :: "kernel \<Rightarrow> hello_k \<Rightarrow> world \<Rightarrow> (hello_k outcome \<times> world) res" where
  "my_fiber_resume k p w =
    (case p of
       Hello_reads timeout c \<Rightarrow>
         res_bind (io_resume (k_ctl k) (k_sys k) timeout c w) (\<lambda>(r, w).
         case r of Suspended c \<Rightarrow> Inr (Suspended (Hello_reads timeout c), w) | Returned nbytes \<Rightarrow> hello_write k nbytes w)
     | Hello_writes m c \<Rightarrow>
         res_bind (io_resume (k_ctl k) (k_sys k) 0 c w) (\<lambda>(r, w).
         Inr (case r of Suspended c \<Rightarrow> Suspended (Hello_writes m c) | Returned _ \<Rightarrow> Returned 0, w)))"

text \<open>The \<^verbatim>\<open>main\<close> of \<^verbatim>\<open>samples/hello_world.c\<close>, up to the wait for the fibers and what follows it.\<close>

definition hello_main :: "os_env \<Rightarrow> fiber_env \<Rightarrow> ptr \<Rightarrow> world \<Rightarrow> (main_outcome \<times> os) res" where
  "hello_main env fenv fiber w =
    res_bind (melon_init env 0 w) (\<lambda>(ret, log, w).
    if ret \<noteq> 0 then Inr (Main_returns 1, log, w)
    else res_bind (melon_fiber_createlight fenv None fiber NULL w) (\<lambda>(_, w). main_wait 0 log w))"

section \<open>One call on a descriptor\<close>

text \<open>The kernel accepts every request to watch the descriptor, or refuses every one.\<close>

definition watches :: "epoll_ctl \<Rightarrow> nat \<Rightarrow> bool \<Rightarrow> bool \<Rightarrow> bool" where
  "watches ctl fd listed ok \<longleftrightarrow> ctl_law ctl fd listed \<and> (\<forall>n ev. fst (ctl n listed fd ev) = 0 \<longleftrightarrow> ok)"

text \<open>A running fiber that may wait for the descriptor.\<close>

definition may_wait :: "spec \<Rightarrow> nat \<Rightarrow> bool" where
  "may_wait s fd \<longleftrightarrow> idle s (sp_self s) \<and> \<not> timed s (sp_self s) \<and> fd_ok s fd"

definition same_state :: "spec \<Rightarrow> spec \<Rightarrow> bool" where
  "same_state s s' \<longleftrightarrow> sp_queues s' = sp_queues s \<and> sp_timers s' = sp_timers s \<and> sp_fiber s' = sp_fiber s \<and> sp_self s' = sp_self s"

lemma same_state_ok: "same_state s s' \<Longrightarrow> sp_fds s' fd \<noteq> None \<Longrightarrow> may_wait s fd \<Longrightarrow> may_wait s' fd"
  by (auto simp: same_state_def may_wait_def idle_def timed_def fd_ok_def timer_ok_def)

definition waits_at :: "direction \<Rightarrow> nat \<Rightarrow> int \<Rightarrow> spec \<Rightarrow> spec \<Rightarrow> bool" where
  "waits_at dir fd timeout s s' \<longleftrightarrow> sp_queues s' = (sp_queues s)(fd_qid dir fd := sp_queues s (fd_qid dir fd) @ [sp_self s]) \<and>
     (timed s' (sp_self s) \<longleftrightarrow> timeout > 0)"

lemma io_run_wait:
  assumes r: "rep w s" and m: "may_wait s fd" and c: "watches ctl fd listed ok"
  obtains w' s' where "rep w' s'"
    and "ok \<longrightarrow> io_run ctl sys timeout \<lparr>io_waits = [(int fd, event_of dir)], io_sys = call\<rparr> w = Inr (Suspended \<lparr>io_waits = [], io_sys = call\<rparr>, w')"
    and "ok \<longrightarrow> waits_at dir fd timeout s s'"
    and "\<not> ok \<longrightarrow> io_run ctl sys timeout \<lparr>io_waits = [(int fd, event_of dir)], io_sys = call\<rparr> w = Inr (Returned (-1), w')"
    and "\<not> ok \<longrightarrow> same_state s s' \<and> may_wait s' fd"
proof -
  have i: "idle s (sp_self s)" "\<not> timed s (sp_self s)" "sp_fds s fd \<noteq> None" using m by (auto simp: may_wait_def fd_ok_def)
  have l: "ctl_law ctl fd listed" using c by (simp add: watches_def)
  have k: "(fst (ctl n listed fd ev) \<noteq> 0) = (\<not> ok)" for n ev using c by (simp add: watches_def)
  obtain w' s' where w': "rep w' s'" "if \<not> ok
     then melon_io_manager_waitfor ctl (int fd) (event_of dir) timeout w = Inr (Returned (-1), w') \<and>
       sp_queues s' = sp_queues s \<and> sp_timers s' = sp_timers s \<and> sp_fiber s' = sp_fiber s \<and> sp_self s' = sp_self s \<and> sp_fds s' fd \<noteq> None
     else melon_io_manager_waitfor ctl (int fd) (event_of dir) timeout w = Inr (Suspended (), w') \<and>
       sp_queues s' = (sp_queues s)(fd_qid dir fd := sp_queues s (fd_qid dir fd) @ [sp_self s]) \<and> (timed s' (sp_self s) \<longleftrightarrow> timeout > 0) \<and>
       map_option is_in_epoll (sp_fds s' fd) = Some 1"
    using waitfor_refines [OF r refl i(1,2,3) l, of dir timeout, unfolded k] by blast
  have s': "\<not> ok \<longrightarrow> same_state s s' \<and> may_wait s' fd" using w'(2) same_state_ok [OF _ _ m, of s'] by (auto simp: same_state_def)
  show thesis by (rule that [OF w'(1) _ _ _ s']) (use w'(2) in \<open>auto simp: io_run_def waits_at_def\<close>)
qed

lemma io_resume_end:
  assumes r: "rep w s" and f: "sp_fiber s (sp_self s) = Some f"
  obtains e where "io_resume ctl sys timeout \<lparr>io_waits = [], io_sys = call\<rparr> w =
      Inr (Returned (if waitfor_timed_out timeout f \<or> f_io_canceled f \<noteq> 0 then -1 else sys call), w\<lparr>errno := e\<rparr>)"
    and "rep (w\<lparr>errno := e\<rparr>) (sp_errno e s)" and "same_state s (sp_errno e s)"
    and "e = (if waitfor_timed_out timeout f then - ETIMEDOUT else if f_io_canceled f \<noteq> 0 then - ECANCELED else errno w)"
proof -
  obtain g where g: "fibers w (sp_self s) = Some g" "f = core g" by (rule rep_fiberE [OF r f])
  have g': "waitfor_timed_out timeout g = waitfor_timed_out timeout f" "f_io_canceled g = f_io_canceled f"
    using g(2) by (simp_all add: waitfor_timed_out_def core_def)
  have c: "g_current_fiber w = sp_self s" using rep_current [OF r] by simp
  define e where "e = (if waitfor_timed_out timeout f then - ETIMEDOUT else if f_io_canceled f \<noteq> 0 then - ECANCELED else errno w)"
  show thesis
  proof (rule that [of e])
    show "rep (w\<lparr>errno := e\<rparr>) (sp_errno e s)" by (rule rep_errno [OF r])
    show "io_resume ctl sys timeout \<lparr>io_waits = [], io_sys = call\<rparr> w =
        Inr (Returned (if waitfor_timed_out timeout f \<or> f_io_canceled f \<noteq> 0 then -1 else sys call), w\<lparr>errno := e\<rparr>)"
      using g(1) g' c by (auto simp: io_resume_def melon_io_manager_waitfor_resume_def io_run_def e_def ETIMEDOUT_def ECANCELED_def)
  qed (simp_all add: same_state_def e_def)
qed

lemma resume_may_wait: "may_wait s fd \<Longrightarrow> may_wait (sp_errno e s) fd"
  by (rule same_state_ok [of s]) (auto simp: same_state_def may_wait_def fd_ok_def)

section \<open>The client's fiber\<close>

text \<open>
  \<^verbatim>\<open>melon_close\<close> has ended every wait for the descriptor with a cancellation, and the
  descriptor has left the interest list of epoll.
\<close>

definition closed :: "nat \<Rightarrow> spec \<Rightarrow> spec \<Rightarrow> bool" where
  "closed fd s s' \<longleftrightarrow> (\<exists>t. wakes cancelled (sp_queues s (Q_read fd) @ sp_queues s (Q_write fd)) s t \<and>
     s' = sp_mod_fd fd (\<lambda>d. d\<lparr>is_in_epoll := 0\<rparr>) t)"

lemma close_refines:
  assumes "rep w s" and "fd_ok s fd"
  obtains w' s' where "melon_close ret (int fd) w = Inr (ret, w')" and "rep w' s'" and "closed fd s s'"
  using cancel_refines [OF assms, of ret 0] unfolding closed_def by blast

abbreviation reading :: io_call where
  "reading \<equiv> \<lparr>io_waits = [], io_sys = Sys_read\<rparr>"

abbreviation writing :: io_call where
  "writing \<equiv> \<lparr>io_waits = [], io_sys = Sys_write\<rparr>"

lemma client_reads:
  assumes r: "rep w s" and m: "may_wait s fd" and c: "watches (k_ctl k) fd listed ok"
  defines "T \<equiv> deadline (k_time k) 5"
  obtains w' s' s1 where "rep w' s'" and "same_state s s1"
    and "ok \<longrightarrow> client_loop k (int fd) None w = Some (Inr (Suspended (Client_reads T reading), w')) \<and> waits_at Rd fd T s1 s'"
    and "\<not> ok \<longrightarrow> client_loop k (int fd) None w = Some (Inr (Returned 0, w')) \<and> closed fd s1 s'"
proof -
  obtain w1 s1 where w1: "rep w1 s1"
    "ok \<longrightarrow> io_run (k_ctl k) (k_sys k) T \<lparr>io_waits = [(int fd, event_of Rd)], io_sys = Sys_read\<rparr> w = Inr (Suspended reading, w1)"
    "ok \<longrightarrow> waits_at Rd fd T s s1"
    "\<not> ok \<longrightarrow> io_run (k_ctl k) (k_sys k) T \<lparr>io_waits = [(int fd, event_of Rd)], io_sys = Sys_read\<rparr> w = Inr (Returned (-1), w1)"
    "\<not> ok \<longrightarrow> same_state s s1 \<and> may_wait s1 fd"
    by (rule io_run_wait [OF r m c])
  show thesis
  proof (cases ok)
    case True
    then show thesis using w1(2,3) by (intro that [OF w1(1), of s]) (simp_all add: client_loop.simps melon_read_def T_def same_state_def)
  next
    case False
    then have "fd_ok s1 fd" using w1(5) by (simp add: may_wait_def)
    then obtain w2 s2 where w2: "melon_close (k_close k) (int fd) w1 = Inr (k_close k, w2)" "rep w2 s2" "closed fd s1 s2"
      by (rule close_refines [OF w1(1)])
    have "client_loop k (int fd) None w = Some (Inr (Returned 0, w2))"
      using w1(4) False w2(1) by (simp add: client_loop.simps melon_read_def T_def client_end_def)
    then show thesis using False w1(5) w2(3) by (intro that [OF w2(2), of s1]) simp_all
  qed
qed

lemma client_writes:
  assumes r: "rep w s" and m: "may_wait s fd" and c: "watches (k_ctl k) fd listed ok"
  defines "T \<equiv> deadline (k_time k) 5"
  obtains w' s' s1 where "rep w' s'" and "same_state s s1"
    and "ok \<longrightarrow> client_loop k (int fd) (Some n) w = Some (Inr (Suspended (Client_writes n T writing), w')) \<and> waits_at Wr fd T s1 s'"
    and "\<not> ok \<longrightarrow> client_loop k (int fd) (Some n) w = Some (Inr (Returned 0, w')) \<and> closed fd s1 s'"
proof -
  obtain w1 s1 where w1: "rep w1 s1"
    "ok \<longrightarrow> io_run (k_ctl k) (k_sys k) T \<lparr>io_waits = [(int fd, event_of Wr)], io_sys = Sys_write\<rparr> w = Inr (Suspended writing, w1)"
    "ok \<longrightarrow> waits_at Wr fd T s s1"
    "\<not> ok \<longrightarrow> io_run (k_ctl k) (k_sys k) T \<lparr>io_waits = [(int fd, event_of Wr)], io_sys = Sys_write\<rparr> w = Inr (Returned (-1), w1)"
    "\<not> ok \<longrightarrow> same_state s s1 \<and> may_wait s1 fd"
    by (rule io_run_wait [OF r m c])
  show thesis
  proof (cases ok)
    case True
    then show thesis using w1(2,3) by (intro that [OF w1(1), of s]) (simp_all add: client_loop.simps melon_write_def T_def same_state_def)
  next
    case False
    obtain w2 s2 s3 where w2: "rep w2 s2" "same_state s1 s3" "client_loop k (int fd) None w1 = Some (Inr (Returned 0, w2)) \<and> closed fd s3 s2"
      by (rule client_reads [OF w1(1) _ c]) (use w1(5) False in blast)+
    have "client_loop k (int fd) (Some n) w = client_loop k (int fd) None w1"
      using w1(4) False by (subst client_loop.simps) (simp add: melon_write_def T_def)
    then show thesis using False w1(5) w2(2,3) by (intro that [OF w2(1), of s3]) (simp_all add: same_state_def)
  qed
qed

section \<open>The server\<close>

lemma closed_may_wait:
  assumes "closed c s s'" and m: "may_wait s fd"
  shows "may_wait s' fd"
proof -
  let ?xs = "sp_queues s (Q_read c) @ sp_queues s (Q_write c)"
  obtain t where t: "wakes cancelled ?xs s t" "s' = sp_mod_fd c (\<lambda>d. d\<lparr>is_in_epoll := 0\<rparr>) t" using assms(1) unfolding closed_def by blast
  have n: "sp_self s \<notin> set ?xs" using m by (simp add: may_wait_def idle_def)
  have "sp_self t = sp_self s" "sp_fiber t (sp_self s) = sp_fiber s (sp_self s)" "sp_self s \<notin> set (sp_queues t q)" "\<not> timed t (sp_self s)" for q
    using t(1) m n by (cases "q = Q_ready"; auto simp: wakes_def may_wait_def idle_def)+
  then have "idle t (sp_self t)" "\<not> timed t (sp_self t)" using m by (auto simp: may_wait_def idle_def)
  then show ?thesis using fd_ok_wakes [OF t(1), of fd] m t(2)
    by (auto simp: may_wait_def idle_def timed_def fd_ok_def timer_ok_def timer_of_def)
qed

text \<open>The fiber of the client is ready, to run the handler on the data.\<close>

definition spawned :: "kernel \<Rightarrow> ptr \<Rightarrow> spec \<Rightarrow> spec \<Rightarrow> bool" where
  "spawned k handler s s' \<longleftrightarrow> sp_queues s' = (sp_queues s)(Q_ready := sp_queues s Q_ready @ [fe_fiber (k_fiber k)]) \<and>
     sp_timers s' = sp_timers s \<and> sp_self s' = sp_self s \<and> sp_fds s' = sp_fds s \<and>
     (\<exists>f. sp_fiber s' = (sp_fiber s)(fe_fiber (k_fiber k) \<mapsto> f) \<and> f_start_cb f = handler \<and> f_start_ctx f = k_data k)"

lemma spawned_may_wait:
  assumes r: "rep w s" and "spawned k handler s s'" and m: "may_wait s fd" and n: "fibers w (fe_fiber (k_fiber k)) = None"
  shows "may_wait s' fd"
proof -
  have n: "sp_fiber s (fe_fiber (k_fiber k)) = None" using r n by (auto simp: rep_def erase_def cores_def)
  then have "x \<noteq> fe_fiber (k_fiber k)" if "x \<in> set (sp_queues s q)" for x q using rep_member [OF r that] by auto
  then show ?thesis using assms(2) m n
    by (auto simp: spawned_def may_wait_def idle_def timed_def fd_ok_def timer_ok_def timer_of_def)
qed

text \<open>What the server does with the descriptor \<open>n\<close> that \<^verbatim>\<open>melon_accept\<close> gave, or with its failure.\<close>

definition served :: "kernel \<Rightarrow> ptr \<Rightarrow> world \<Rightarrow> int \<Rightarrow> spec \<Rightarrow> spec \<Rightarrow> bool" where
  "served k handler w n s s' \<longleftrightarrow>
    (if n < 0 then same_state s s'
     else if k_data k = NULL \<or> fe_fiber (k_fiber k) = NULL \<or> no_stack (k_fiber k) w then closed (nat n) s s'
     else spawned k handler s s')"

text \<open>The memory for a new fiber: what the library needs of the machine to start one.\<close>

definition can_start :: "fiber_env \<Rightarrow> world \<Rightarrow> bool" where
  "can_start env w \<longleftrightarrow> fresh_env env w \<and> g_fibers_count (g_melon w) < INT_MAX \<and>
     (\<exists>xs used. stack_inv (stacks w) xs used \<and> (\<forall>a. fe_mmap env = Some a \<longrightarrow> a \<noteq> NULL \<and> a \<notin> used))"

lemma server_got_refines:
  assumes r: "rep w s" and m: "may_wait s fd" and h: "handler \<noteq> NULL" and st: "can_start (k_fiber k) w"
    and c: "0 \<le> client \<longrightarrow> fd_ok s (nat client)"
  obtains w' s' where "server_got k handler client w = Inr w'" and "rep w' s'" and "may_wait s' fd" and "served k handler w client s s'"
proof -
  let ?env = "k_fiber k"
  let ?bad = "fe_fiber ?env = NULL \<or> False \<and> (fe_mutex ?env = NULL \<or> fe_cond ?env = NULL) \<or> no_stack ?env w"
  obtain xs used where e: "fresh_env ?env w" "g_fibers_count (g_melon w) < INT_MAX" "stack_inv (stacks w) xs used"
    "\<And>a. fe_mmap ?env = Some a \<Longrightarrow> a \<noteq> NULL \<and> a \<notin> used" using st unfolding can_start_def by blast
  consider (none) "client < 0" | (fails) "0 \<le> client" "k_data k = NULL \<or> ?bad" | (starts) "0 \<le> client" "k_data k \<noteq> NULL" "\<not> ?bad" by linarith
  then show thesis
  proof cases
    case none
    then show thesis using r m by (intro that [of w s]) (simp_all add: server_got_def served_def same_state_def)
  next
    case fails
    have d: "fd_ok s (nat client)" using c fails(1) by simp
    obtain w' s' where w': "melon_close (k_close k) (int (nat client)) w = Inr (k_close k, w')" "rep w' s'" "closed (nat client) s s'"
      by (rule close_refines [OF r d])
    have "melon_fiber_start ?env None handler (k_data k) False w = Inr (NULL, w)" if "k_data k \<noteq> NULL"
      using fiber_start_fails [OF h e(1), of False] fails(2) that e(3) by (simp add: stack_inv_def)
    then have "server_got k handler client w = Inr w'"
      using fails(1) w'(1) by (auto simp: server_got_def melon_fiber_createlight_def)
    then show thesis using fails w'(2,3) closed_may_wait [OF w'(3) m] by (intro that) (auto simp: served_def)
  next
    case starts
    obtain w' s' f where w': "melon_fiber_start ?env None handler (k_data k) False w = Inr (fe_fiber ?env, w')" "rep w' s'" "spawned k handler s s'"
      by (rule fiber_start_succeeds [OF r h e(1,3,4,2) starts(3), of None "k_data k"]) (auto simp: spawned_def)
    have "server_got k handler client w = Inr w'"
      using starts w'(1) by (auto simp: server_got_def melon_fiber_createlight_def)
    moreover have "may_wait s' fd" using spawned_may_wait [OF r w'(3) m] e(1) by (simp add: fresh_env_def)
    ultimately show thesis using starts w'(2,3) by (intro that) (auto simp: served_def)
  qed
qed

text \<open>
  When the kernel refuses to watch the listening descriptor, \<^verbatim>\<open>melon_accept\<close> fails at once and
  \<^verbatim>\<open>continue\<close> tries again: the fiber never suspends and never returns, and keeps its thread.
\<close>

lemma server_loop_Some:
  assumes "server_loop k handler d w = Some v"
  shows "\<forall>s. d = int fd \<and> rep w s \<and> may_wait s fd \<longrightarrow> \<not> watches (k_ctl k) fd listed False"
  using assms
proof (induction k handler d w v rule: server_loop.raw_induct [rotated, consumes 1, case_names step])
  case (step loop k handler d w v)
  have False if s: "d = int fd" "rep w s" "may_wait s fd" and c: "watches (k_ctl k) fd listed False" for s
  proof -
    obtain w1 s1 where w1: "rep w1 s1" "\<not> False \<longrightarrow> io_run (k_ctl k) (k_sys k) 0 \<lparr>io_waits = [(int fd, event_of Rd)], io_sys = Sys_accept\<rparr> w = Inr (Returned (-1), w1)"
      "\<not> False \<longrightarrow> same_state s s1 \<and> may_wait s1 fd"
      by (rule io_run_wait [OF s(2,3) c])
    then have "loop k handler d w1 = Some v" using step(2) s(1) by (simp add: melon_accept_def server_got_def)
    from step(1) [OF this] w1(1,3) s(1) c show False by blast
  qed
  then show ?case by blast
qed

lemma server_spins:
  assumes "rep w s" and "may_wait s fd" and "watches (k_ctl k) fd listed False"
  shows "run_loop (server_loop k handler (int fd) w) = Inl Diverges"
  using server_loop_Some [of k handler "int fd" w] assms by (cases "server_loop k handler (int fd) w") (auto simp: run_loop_def)

section \<open>Properties\<close>

text \<open>
  C32: The fiber of a client, from one suspension to the next. When its read is over with
  bytes it waits, with a new deadline, to write them; when the read timed out, was cancelled,
  failed or found the end, it closes the descriptor, which cancels every wait for it, and
  returns. When its write is over, whatever its result, it waits to read again. When the
  kernel refuses to watch the descriptor it also closes and returns; the loop always ends.
\<close>

theorem echo_client_correct:
  fixes t :: int and got :: "int option" and k :: kernel and fd :: nat
  assumes r: "rep w s" and f: "sp_fiber s (sp_self s) = Some f" and m: "may_wait s fd" and c: "watches (k_ctl k) fd listed ok"
  defines "T \<equiv> deadline (k_time k) 5" and "n \<equiv> k_sys k Sys_read" and "over \<equiv> waitfor_timed_out t f \<or> f_io_canceled f \<noteq> 0"
  defines "go \<equiv> handle_client_resume k (int fd) (case got of None \<Rightarrow> Client_reads t reading | Some b \<Rightarrow> Client_writes b t writing) w"
  shows "\<exists>w' s' s1. rep w' s' \<and> same_state s s1 \<and>
    (if \<not> ok \<or> got = None \<and> (over \<or> n \<le> 0) then go = Inr (Returned 0, w') \<and> closed fd s1 s'
     else if got = None then go = Inr (Suspended (Client_writes n T writing), w') \<and> waits_at Wr fd T s1 s'
     else go = Inr (Suspended (Client_reads T reading), w') \<and> waits_at Rd fd T s1 s')"
proof -
  let ?call = "if got = None then Sys_read else Sys_write"
  obtain w1 s1 where w1: "io_resume (k_ctl k) (k_sys k) t \<lparr>io_waits = [], io_sys = ?call\<rparr> w = Inr (Returned (if over then -1 else k_sys k ?call), w1)"
    "rep w1 s1" "same_state s s1" "may_wait s1 fd"
    unfolding over_def using io_resume_end [OF r f] resume_may_wait [OF m] by metis
  note m1 = w1(4)
  consider (ends) "got = None" "over \<or> n \<le> 0" | (writes) "got = None" "\<not> over" "n > 0" | (reads) b where "got = Some b" by (metis not_le option.exhaust)
  then show ?thesis
  proof cases
    case ends
    have "fd_ok s1 fd" using m1 by (simp add: may_wait_def)
    then obtain w2 s2 where w2: "melon_close (k_close k) (int fd) w1 = Inr (k_close k, w2)" "rep w2 s2" "closed fd s1 s2"
      by (rule close_refines [OF w1(2)])
    then have "go = Inr (Returned 0, w2)" using ends w1(1) by (auto simp: go_def n_def handle_client_resume_def client_end_def split: if_splits)
    then show ?thesis using ends w2(2,3) w1(3) by auto
  next
    case writes
    obtain w2 s2 s3 where w2: "rep w2 s2" "same_state s1 s3"
      "ok \<longrightarrow> client_loop k (int fd) (Some n) w1 = Some (Inr (Suspended (Client_writes n T writing), w2)) \<and> waits_at Wr fd T s3 s2"
      "\<not> ok \<longrightarrow> client_loop k (int fd) (Some n) w1 = Some (Inr (Returned 0, w2)) \<and> closed fd s3 s2"
      unfolding T_def by (rule client_writes [OF w1(2) m1 c])
    have "go = run_loop (client_loop k (int fd) (Some n) w1)" using writes w1(1) by (simp add: go_def n_def handle_client_resume_def)
    moreover have "same_state s s3" using w1(3) w2(2) by (simp add: same_state_def)
    ultimately show ?thesis using writes w2(1,3,4) by (intro exI [of _ w2] exI [of _ s2] exI [of _ s3]) auto
  next
    case reads
    obtain w2 s2 s3 where w2: "rep w2 s2" "same_state s1 s3"
      "ok \<longrightarrow> client_loop k (int fd) None w1 = Some (Inr (Suspended (Client_reads T reading), w2)) \<and> waits_at Rd fd T s3 s2"
      "\<not> ok \<longrightarrow> client_loop k (int fd) None w1 = Some (Inr (Returned 0, w2)) \<and> closed fd s3 s2"
      unfolding T_def by (rule client_reads [OF w1(2) m1 c])
    have "go = run_loop (client_loop k (int fd) None w1)" using reads w1(1) by (simp add: go_def handle_client_resume_def)
    moreover have "same_state s s3" using w1(3) w2(2) by (simp add: same_state_def)
    ultimately show ?thesis using reads w2(1,3,4) by (intro exI [of _ w2] exI [of _ s2] exI [of _ s3]) auto
  qed
qed

definition ex_kernel :: kernel where
  "ex_kernel = \<lparr>k_ctl = ex_ctl, k_sys = (\<lambda>c. 3), k_time = 7, k_close = 0, k_data = 40, k_fiber = ex_fiber_env\<rparr>"

theorem echo_client_correct_witness:
  "\<exists>w' s'. handle_client_resume ex_kernel 5 (Client_reads 0 reading) ex_world = Inr (Suspended (Client_writes 3 (deadline 7 5) writing), w') \<and>
    rep w' s' \<and> sp_queues s' (Q_write 5) = [1]"
proof -
  have m: "may_wait (abs0 ex_world) 5" using ex_self by (simp add: may_wait_def fd_ok_def)
  have c: "watches (k_ctl ex_kernel) 5 True True" by (simp add: watches_def ex_ctl_law ex_ctl_ok ex_kernel_def)
  obtain f where f: "sp_fiber (abs0 ex_world) (sp_self (abs0 ex_world)) = Some f" "f_io_canceled f = 0"
    by (simp add: ex_self(1) abs0_def erase_def cores_def ex_world_def core_def a_fiber_def)
  obtain w' s' s1 where "rep w' s'" "same_state (abs0 ex_world) s1" "waits_at Wr 5 (deadline 7 5) s1 s'"
    "handle_client_resume ex_kernel (int 5) (Client_reads 0 reading) ex_world = Inr (Suspended (Client_writes 3 (deadline 7 5) writing), w')"
    using echo_client_correct [OF rep_abs0 [OF quiet_ex_world] f(1) m c, where t = 0 and got = None] f(2)
    by (auto simp: ex_kernel_def waitfor_timed_out_def)
  then show ?thesis using ex_self(1) by (intro exI [of _ w'] exI [of _ s']) (auto simp: waits_at_def same_state_def abs0_def)
qed

abbreviation accepting :: io_call where
  "accepting \<equiv> \<lparr>io_waits = [], io_sys = Sys_accept\<rparr>"


text \<open>A second descriptor, of a client.\<close>

definition ex_server :: world where
  "ex_server = ex_world\<lparr>g_melon := (g_melon ex_world)\<lparr>g_io := (g_io (g_melon ex_world))(3 \<mapsto> \<lparr>read_queue = NULL, write_queue = NULL, is_in_epoll = 0\<rparr>)\<rparr>\<rparr>"

lemma quiet_ex_server: "quiet ex_server"
proof -
  have "qhead ex_server q = NULL" for q by (cases q) (auto simp: ex_server_def ex_world_def)
  then show ?thesis by (auto simp: quiet_def ex_server_def ex_world_def a_fiber_def NULL_def split: if_splits)
qed


section \<open>Hello world answers\<close>

text \<open>
  The fiber of \<^verbatim>\<open>hello_world\<close> after its read: a read that timed out is reported as such, a
  read that was cancelled or failed as an error, both on the standard error; otherwise the
  bytes go to the standard output. The kernel never leaves the negative number that the
  library keeps for a time-out in \<^verbatim>\<open>errno\<close>.
\<close>

lemma hello_answers:
  fixes t :: int
  assumes r: "rep w s" and f: "sp_fiber s (sp_self s) = Some f" and err: "errno w \<noteq> - ETIMEDOUT"
    and m: "may_wait s 1" "may_wait s 2" and c: "watches (k_ctl k) 1 l1 True" "watches (k_ctl k) 2 l2 True"
  defines "n \<equiv> k_sys k Sys_read"
  defines "ans \<equiv> (if waitfor_timed_out t f then (2, Timedout) else if f_io_canceled f \<noteq> 0 \<or> n < 0 then (2, Error_message) else (1, Echo (nat n)))"
  shows "\<exists>w' s1 s'. my_fiber_resume k (Hello_reads t reading) w = Inr (Suspended (Hello_writes (snd ans) writing), w') \<and> rep w' s' \<and>
    same_state s s1 \<and> waits_at Wr (fst ans) 0 s1 s'"
proof -
  let ?over = "waitfor_timed_out t f \<or> f_io_canceled f \<noteq> 0"
  obtain e where e: "io_resume (k_ctl k) (k_sys k) t reading w = Inr (Returned (if ?over then -1 else k_sys k Sys_read), w\<lparr>errno := e\<rparr>)"
    "rep (w\<lparr>errno := e\<rparr>) (sp_errno e s)" "same_state s (sp_errno e s)"
    "e = (if waitfor_timed_out t f then - ETIMEDOUT else if f_io_canceled f \<noteq> 0 then - ECANCELED else errno w)"
    by (rule io_resume_end [OF r f])
  have t: "e = - ETIMEDOUT \<longleftrightarrow> waitfor_timed_out t f" using e(4) err by (simp add: ETIMEDOUT_def ECANCELED_def)
  have m': "may_wait (sp_errno e s) (fst ans)" using m by (auto simp: ans_def intro: resume_may_wait)
  have c': "watches (k_ctl k) (fst ans) (if fst ans = 1 then l1 else l2) True" using c by (auto simp: ans_def)
  define ret where "ret = (if ?over then -1 else n)"
  have e1: "io_resume (k_ctl k) (k_sys k) t reading w = Inr (Returned ret, w\<lparr>errno := e\<rparr>)" unfolding ret_def n_def by (rule e(1))
  have a: "hello_answer ret (w\<lparr>errno := e\<rparr>) = (int (fst ans), snd ans)"
    using t by (auto simp: hello_answer_def ans_def ret_def STDERR_FILENO_def STDOUT_FILENO_def)
  obtain w' s' where w': "rep w' s'"
    "True \<longrightarrow> io_run (k_ctl k) (k_sys k) 0 \<lparr>io_waits = [(int (fst ans), event_of Wr)], io_sys = Sys_write\<rparr> (w\<lparr>errno := e\<rparr>) = Inr (Suspended writing, w')"
    "True \<longrightarrow> waits_at Wr (fst ans) 0 (sp_errno e s) s'"
    by (rule io_run_wait [OF e(2) m' c'])
  then have "my_fiber_resume k (Hello_reads t reading) w = Inr (Suspended (Hello_writes (snd ans) writing), w')"
    using e1 a by (simp add: my_fiber_resume_def hello_write_def melon_write_def)
  then show ?thesis using w'(1,3) e(3) by blast
qed

text \<open>
  When the fiber of \<^verbatim>\<open>hello_world\<close> cannot be created, \<^verbatim>\<open>main\<close> does not see it: it finds no fiber
  to wait for, stops the runtime, which gives back everything, and reports success.
\<close>

lemma hello_without_fiber:
  assumes w: "blank w" and i: "melon_init env 0 w = Inr (0, log, w1)" and f: "fiber \<noteq> NULL"
    and fenv: "fe_fiber fenv = NULL \<or> fe_mmap fenv = None" "fe_getcontext fenv = 0"
  shows "\<exists>log' w2. hello_main env fenv fiber w = Inr (Main_returns 0, log', w2) \<and> (\<forall>r. balance r log' = 0) \<and>
    stack_mem (stacks w2) = Map.empty \<and> g_stop (g_melon w2) = 1"
proof -
  obtain log' w2 where "melon_fiber_start fenv None fiber NULL False w1 = Inr (NULL, w1)"
    "melon_deinit w1 = Inr (log', w2)" "\<forall>r. balance r (log @ log') = 0" "stack_mem (stacks w2) = Map.empty" "g_stop (g_melon w2) = 1"
    "g_fibers_count (g_melon w1) = 0"
    by (rule no_first_fiber [OF assms])
  then show ?thesis using i by (auto simp: hello_main_def melon_fiber_createlight_def main_wait_def melon_wait_def wait_defs)
qed

end
