(* ===== verification/Melon_Kqueue.thy ===== *)
theory Melon_Kqueue
  imports Melon_Io_Properties Melon_Runtime
begin

text \<open>
  The manager of descriptors for FreeBSD (\<^verbatim>\<open>src/io_manager_kqueue.c\<close>). Its functions
  have the names of those of the epoll manager, here with the prefix \<open>kqueue\<close>. The parts
  whose text is the same in both files (\<^verbatim>\<open>melon_io_manager_release_fiber\<close>, the loop
  \<^verbatim>\<open>RELEASE_LOOP\<close>, the end of \<^verbatim>\<open>melon_io_manager_waitfor\<close>, \<^verbatim>\<open>waitfor_cb\<close>) are those
  of \<open>Melon_Io\<close>. The member \<open>g_epoll_fd\<close> stands for \<^verbatim>\<open>kqueue_fd\<close>, which takes its place in the
  struct on this system. The values of the constants are those of \<^verbatim>\<open>sys/event.h\<close>.
\<close>

section \<open>Kernel events\<close>

definition EVFILT_READ :: "16 word" where "EVFILT_READ = - 1"
definition EVFILT_WRITE :: "16 word" where "EVFILT_WRITE = - 2"
definition EV_ADD :: "16 word" where "EV_ADD = 0x1"
definition EV_ONESHOT :: "16 word" where "EV_ONESHOT = 0x10"
definition EV_ERROR :: "16 word" where "EV_ERROR = 0x4000"
definition EV_EOF :: "16 word" where "EV_EOF = 0x8000"

lemmas kevent_defs = EVFILT_READ_def EVFILT_WRITE_def EV_ADD_def EV_ONESHOT_def EV_ERROR_def EV_EOF_def

record kevent =
  ke_ident :: nat
  ke_filter :: "16 word"
  ke_flags :: "16 word"
  ke_fflags :: "32 word"
  ke_data :: int
  ke_udata :: ptr

section \<open>Start and stop\<close>

definition kqueue_init :: "os_env \<Rightarrow> os \<Rightarrow> int \<times> os" where
  "kqueue_init env s =
    (if \<not> e_ok env R_epoll_fd then (-1, on_melon (\<lambda>g. g\<lparr>g_epoll_fd := -1\<rparr>) s)
     else
       let s = on_melon (\<lambda>g. g\<lparr>g_epoll_fd := e_epoll_fd env\<rparr>) (acquire R_epoll_fd s) in
       if \<not> e_ok env R_io_thread then (-1, s)
       else (0, acquire R_io_thread s))"

definition kqueue_deinit :: "os \<Rightarrow> os" where
  "kqueue_deinit s = Melon_Runtime.release R_io_thread (on_melon (\<lambda>g. g\<lparr>g_epoll_fd := -1\<rparr>) (Melon_Runtime.release R_epoll_fd s))"

section \<open>The manager's thread\<close>

text \<open>
  The array \<open>events\<close> holds what \<^verbatim>\<open>kevent\<close> returned and, from its start, the changes for the
  next call: \<open>i\<close> is the index of the event that is handled, \<open>j\<close> that of \<^verbatim>\<open>*new_event\<close>.
\<close>

definition new_kevent :: "nat \<Rightarrow> kevent" where
  "new_kevent ident = \<lparr>ke_ident = ident, ke_filter = 0, ke_flags = EV_ONESHOT OR EV_ADD OR EV_EOF OR EV_ERROR,
     ke_fflags = 0, ke_data = 0, ke_udata = NULL\<rparr>"

definition kqueue_release :: "kevent \<Rightarrow> world \<Rightarrow> world res" where
  "kqueue_release event w =
    res_bind
      (if ke_flags event AND (EV_ERROR OR EV_EOF) \<noteq> 0
       then
         res_bind (run_loop (release_loop Rd (ke_ident event) w)) (\<lambda>w.
         run_loop (release_loop Wr (ke_ident event) w))
       else Inr w) (\<lambda>w.
    res_bind (if ke_filter event AND EVFILT_READ \<noteq> 0 then release_one Rd (ke_ident event) w else Inr w) (\<lambda>w.
    if ke_filter event AND EVFILT_WRITE \<noteq> 0 then release_one Wr (ke_ident event) w else Inr w))"

definition kqueue_handle :: "nat \<Rightarrow> nat \<Rightarrow> kevent list \<Rightarrow> world \<Rightarrow> (nat \<times> kevent list \<times> world) res" where
  "kqueue_handle i j events w =
    (if \<not> i < length events then Inl Bad_deref
     else
       let event = events ! i in
       res_bind (kqueue_release event w) (\<lambda>w.
       res_bind (load_fd (ke_ident event) w) (\<lambda>d.
       if read_queue d \<noteq> NULL \<or> write_queue d \<noteq> NULL
       then
         if \<not> j < length events then Inl Bad_deref
         else Inr (j + 1, events[j := new_kevent (ke_ident event)], w)
       else Inr (j, events, w))))"

text \<open>The loop over the \<open>n\<close> events from index \<open>i\<close> on.\<close>

fun kqueue_events :: "nat \<Rightarrow> nat \<Rightarrow> nat \<Rightarrow> kevent list \<Rightarrow> world \<Rightarrow> (nat \<times> kevent list \<times> world) res" where
  "kqueue_events 0 i j events w = Inr (j, events, w)"
| "kqueue_events (Suc n) i j events w =
    res_bind (kqueue_handle i j events w) (\<lambda>(j, events, w). kqueue_events n (i + 1) j events w)"

definition kqueue_pass :: "nat \<Rightarrow> kevent list \<Rightarrow> world \<Rightarrow> (nat \<times> kevent list \<times> world) res" where
  "kqueue_pass count events w =
    res_bind (kqueue_events count 0 0 events (glock_lock w)) (\<lambda>(j, events, w). Inr (j, events, glock_unlock w))"

text \<open>The changes that the next \<^verbatim>\<open>kevent(fd, new_events, new_events - events, ...)\<close> registers.\<close>

definition kqueue_changes :: "nat \<Rightarrow> kevent list \<Rightarrow> kevent list res" where
  "kqueue_changes j events = (if 2 * j \<le> length events then Inr (take j (drop j events)) else Inl Bad_deref)"

text \<open>
  The thread itself, from one point at which it may block to the next. At its head and in
  \<^verbatim>\<open>kevent\<close> it has the offset \<^verbatim>\<open>new_events - events\<close> and the array; \<open>got\<close> holds the events
  that \<^verbatim>\<open>kevent\<close> put at the start of the array, or none when it failed.
\<close>

datatype kqueue_pc = Kq_head nat "kevent list" | Kq_waits nat "kevent list" | Kq_sleeps nat "kevent list" | Kq_done

fun kqueue_loop :: "kevent list option \<Rightarrow> kqueue_pc \<Rightarrow> world \<Rightarrow> (kqueue_pc \<times> world) res" where
  "kqueue_loop got (Kq_head j events) w =
    (if g_stop (g_melon w) \<noteq> 0 then Inr (Kq_done, w)
     else res_bind (kqueue_changes j events) (\<lambda>_. Inr (Kq_waits j events, w)))"
| "kqueue_loop None (Kq_waits j events) w =
    Inr (if g_stop (g_melon w) \<noteq> 0 then Kq_done else Kq_sleeps j events, w)"
| "kqueue_loop (Some got) (Kq_waits j events) w =
    res_bind (kqueue_pass (length got) (got @ drop (length got) events) w) (\<lambda>(j, events, w). Inr (Kq_head j events, w))"
| "kqueue_loop got (Kq_sleeps j events) w = Inr (Kq_head j events, w)"
| "kqueue_loop got Kq_done w = Inr (Kq_done, w)"

section \<open>Waiting\<close>

definition kqueue_filter :: "melon_fd \<Rightarrow> event \<Rightarrow> 16 word" where
  "kqueue_filter d waited_event =
    (if read_queue d \<noteq> NULL then EVFILT_READ else 0) OR (if write_queue d \<noteq> NULL then EVFILT_WRITE else 0) OR
    (if waited_event AND kEventIoRead \<noteq> 0 then EVFILT_READ else 0) OR (if waited_event AND kEventIoWrite \<noteq> 0 then EVFILT_WRITE else 0)"

text \<open>\<open>kevent\<close> gives the result of the registration of an event and its error number.\<close>

definition kqueue_waitfor :: "(kevent \<Rightarrow> int \<times> int) \<Rightarrow> int \<Rightarrow> event \<Rightarrow> int \<Rightarrow> world \<Rightarrow> (unit outcome \<times> world) res" where
  "kqueue_waitfor kevent fildes waited_event timeout w =
    (let self = g_current_fiber w; fd = nat fildes in
     if fildes < 0 then Inr (Returned (-1), w\<lparr>errno := EINVAL\<rparr>)
     else
       let w = glock_lock w in
       res_bind (load_fd fd w) (\<lambda>d.
       case kevent ((new_kevent fd)\<lparr>ke_filter := kqueue_filter d waited_event\<rparr>) of (ret, err) \<Rightarrow>
       if ret = -1 then Inr (Returned (-1), glock_unlock (w\<lparr>errno := err\<rparr>))
       else
         res_bind (mod_fiber self (\<lambda>f. f\<lparr>f_waited_event := waited_event, f_io_canceled := 0\<rparr>) w) (\<lambda>w.
         waitfor_suspend fd waited_event timeout self w)))"

definition kqueue_waitfor_resume :: "int \<Rightarrow> world \<Rightarrow> (int \<times> world) res" where
  "kqueue_waitfor_resume timeout w =
    res_bind (load (fibers w) (g_current_fiber w)) (\<lambda>f.
    if waitfor_timed_out timeout f then Inr (- ETIMEDOUT, w\<lparr>errno := - ETIMEDOUT\<rparr>)
    else if f_io_canceled f \<noteq> 0 then Inr (- ECANCELED, w\<lparr>errno := - ECANCELED\<rparr>)
    else Inr (0, w))"

section \<open>Refinement\<close>

lemma kfilter_bits: "ke_filter event \<in> {EVFILT_READ, EVFILT_WRITE} \<Longrightarrow>
    ke_filter event AND EVFILT_READ \<noteq> 0 \<and> ke_filter event AND EVFILT_WRITE \<noteq> 0"
  by (auto simp: kevent_defs)

lemma kqueue_release_wakes:
  assumes r: "rep w s" and d: "fd_ok s (ke_ident e)" and f: "ke_filter e \<in> {EVFILT_READ, EVFILT_WRITE}"
  defines "rd \<equiv> sp_queues s (Q_read (ke_ident e))" and "wr \<equiv> sp_queues s (Q_write (ke_ident e))"
  obtains w' s' where "kqueue_release e w = Inr w'" and "rep w' s'" and "fd_ok s' (ke_ident e)"
    and "wakes released (if ke_flags e AND (EV_ERROR OR EV_EOF) \<noteq> 0 then rd @ wr else take 1 rd @ take 1 wr) s s'"
proof -
  let ?fd = "ke_ident e" and ?err = "ke_flags e AND (EV_ERROR OR EV_EOF) \<noteq> 0"
  let ?all = "\<lambda>w. res_bind (run_loop (release_loop Rd ?fd w)) (\<lambda>w. run_loop (release_loop Wr ?fd w))"
  note b = kfilter_bits [OF f]
  obtain w1 s1 where w1: "(if ?err then ?all w else Inr w) = Inr w1" "rep w1 s1" "wakes released (if ?err then rd @ wr else []) s s1" "fd_ok s1 ?fd"
    unfolding rd_def wr_def by (rule release_both_if [OF r d])
  obtain w2 s2 where w2: "(if True then release_one Rd ?fd w1 else Inr w1) = Inr w2" "rep w2 s2"
    "wakes released (if True then take 1 (sp_queues s1 (Q_read ?fd)) else []) s1 s2" "fd_ok s2 ?fd"
    by (rule release_one_wakes [OF w1(2,4) fd_qid.simps(1)])
  obtain w3 s3 where w3: "(if True then release_one Wr ?fd w2 else Inr w2) = Inr w3" "rep w3 s3"
    "wakes released (if True then take 1 (sp_queues s2 (Q_write ?fd)) else []) s2 s3" "fd_ok s3 ?fd"
    by (rule release_one_wakes [OF w2(2,4) fd_qid.simps(2)])
  have j: "set rd \<inter> set wr = {}" using qrep_disjoint [OF rep_qrep [OF r], of _ "Q_read ?fd" "Q_write ?fd"] by (auto simp: rd_def wr_def)
  then have q: "sp_queues s1 (Q_read ?fd) = (if ?err then [] else rd)" "sp_queues s2 (Q_write ?fd) = (if ?err then [] else wr)"
    using wakes_queues(2) [OF w1(3)] wakes_queues(2) [OF w2(3)]
    by (auto simp: rd_def wr_def filter_empty_conv intro!: filter_True dest!: in_set_takeD split: if_splits)
  have "set (take 1 rd) \<inter> set (take 1 wr) = {}" using j by (auto dest!: in_set_takeD)
  then have "wakes released (if ?err then rd @ wr else take 1 rd @ take 1 wr) s s3"
    using wakes_trans [OF wakes_trans [OF w1(3) w2(3)] w3(3)] q by (auto split: if_splits)
  with w1(1) w2(1) w3 b show thesis by (intro that [of w3 s3]) (auto simp: kqueue_release_def)
qed

lemma kqueue_events_changes:
  assumes "kqueue_events n i j events w = Inr (j', events', w')" and "j \<le> i"
  shows "j \<le> j' \<and> j' \<le> i + n \<and> length events' = length events \<and> (\<forall>k. j' \<le> k \<longrightarrow> k < length events \<longrightarrow> events' ! k = events ! k) \<and>
    (\<forall>k < j. events' ! k = events ! k) \<and> (\<forall>k. j \<le> k \<and> k < j' \<longrightarrow> k < length events \<and> ke_filter (events' ! k) = 0)"
  using assms
proof (induction n arbitrary: i j events w)
  case (Suc n)
  obtain j1 ev1 w1 where h: "kqueue_handle i j events w = Inr (j1, ev1, w1)" "kqueue_events n (i + 1) j1 ev1 w1 = Inr (j', events', w')"
    using Suc.prems(1) by (auto simp: res_bind_eq_Inr)
  have c: "j1 = j \<and> ev1 = events \<or> j1 = j + 1 \<and> j < length events \<and> ev1 = events[j := new_kevent (ke_ident (events ! i))]"
    using h(1) by (auto simp: kqueue_handle_def Let_def res_bind_eq_Inr split: if_splits)
  have "j1 \<le> i + 1" using c Suc.prems(2) by auto
  note IH = Suc.IH [OF h(2) this]
  show ?case
  proof (cases "j1 = j")
    case True
    with IH c show ?thesis by auto
  next
    case False
    with c have e: "j1 = j + 1" "j < length events" "ev1 = events[j := new_kevent (ke_ident (events ! i))]" by auto
    have "events' ! j = new_kevent (ke_ident (events ! i))" using IH e by auto
    moreover have "events' ! k = events ! k" if "j' \<le> k" "k < length events" for k using IH e that by auto
    moreover have "events' ! k = events ! k" if "k < j" for k using IH e that by auto
    moreover have "k < length events \<and> ke_filter (events' ! k) = 0" if "j < k" "k < j'" for k using IH e that by auto
    ultimately show ?thesis using IH e by (auto simp: new_kevent_def le_less)
  qed
qed auto

lemma kqueue_handle_refines:
  assumes r: "rep w s" and e: "i < length events" "j \<le> i" "events ! i = e" and d: "fd_ok s (ke_ident e)"
    and f: "ke_filter e \<in> {EVFILT_READ, EVFILT_WRITE}"
  defines "rd \<equiv> sp_queues s (Q_read (ke_ident e))" and "wr \<equiv> sp_queues s (Q_write (ke_ident e))"
  shows "\<exists>j' events' w' s'. kqueue_handle i j events w = Inr (j', events', w') \<and> rep w' s' \<and>
    wakes released (if ke_flags e AND (EV_ERROR OR EV_EOF) \<noteq> 0 then rd @ wr else take 1 rd @ take 1 wr) s s' \<and>
    (if sp_queues s' (Q_read (ke_ident e)) = [] \<and> sp_queues s' (Q_write (ke_ident e)) = [] then j' = j \<and> events' = events
     else j' = j + 1 \<and> events' = events[j := new_kevent (ke_ident e)])"
proof -
  let ?none = "\<lambda>s. sp_queues s (Q_read (ke_ident e)) = [] \<and> sp_queues s (Q_write (ke_ident e)) = []"
  obtain w' s' where w': "kqueue_release e w = Inr w'" "rep w' s'" "fd_ok s' (ke_ident e)"
    "wakes released (if ke_flags e AND (EV_ERROR OR EV_EOF) \<noteq> 0 then rd @ wr else take 1 rd @ take 1 wr) s s'"
    unfolding rd_def wr_def by (rule kqueue_release_wakes [OF r d f])
  have "wp (load_fd (ke_ident e) w') (\<lambda>d'. (read_queue d' = NULL \<longleftrightarrow> sp_queues s' (Q_read (ke_ident e)) = []) \<and>
      (write_queue d' = NULL \<longleftrightarrow> sp_queues s' (Q_write (ke_ident e)) = []))"
    by (rule wp_load_fd [OF w'(2) fd_okD(1) [OF w'(3)]]) simp
  then obtain d' where "load_fd (ke_ident e) w' = Inr d'" "read_queue d' = NULL \<longleftrightarrow> sp_queues s' (Q_read (ke_ident e)) = []"
    "write_queue d' = NULL \<longleftrightarrow> sp_queues s' (Q_write (ke_ident e)) = []" by (auto simp: wp_def)
  then have "kqueue_handle i j events w = Inr (if ?none s' then j else j + 1, if ?none s' then events else events[j := new_kevent (ke_ident e)], w')"
    using w'(1) e by (auto simp: kqueue_handle_def)
  with w'(2,4) show ?thesis
    by (intro exI [of _ "if ?none s' then j else j + 1"] exI [of _ "if ?none s' then events else events[j := new_kevent (ke_ident e)]"]
      exI [of _ w'] exI [of _ s']) simp
qed

text \<open>
  The array of 256 events: as long as the kernel never delivers more than half of it at once
  the thread reads within the array, whatever the events are.
\<close>

definition kqueue_fits :: "kqueue_pc \<Rightarrow> bool" where
  "kqueue_fits p = (case p of Kq_head j events \<Rightarrow> length events = 256 \<and> j \<le> 128 | Kq_waits j events \<Rightarrow> length events = 256 \<and> j \<le> 128
     | Kq_sleeps j events \<Rightarrow> length events = 256 \<and> j \<le> 128 | Kq_done \<Rightarrow> True)"

lemma kqueue_loop_fits:
  assumes "kqueue_fits p" and "\<forall>es. got = Some es \<longrightarrow> length es \<le> 128" and "kqueue_loop got p w = Inr (p', w')"
  shows "kqueue_fits p'"
proof (cases "\<exists>es j events. got = Some es \<and> p = Kq_waits j events")
  case True
  then obtain es j events where p: "got = Some es" "p = Kq_waits j events" by blast
  then have e: "length (es @ drop (length es) events) = 256" "length es \<le> 128" using assms(1,2) by (auto simp: kqueue_fits_def)
  obtain j' events' w2 where k: "kqueue_events (length es) 0 0 (es @ drop (length es) events) (glock_lock w) = Inr (j', events', w2)" "p' = Kq_head j' events'"
    using p assms(3) by (auto simp: kqueue_pass_def res_bind_eq_Inr)
  show ?thesis using kqueue_events_changes [OF k(1)] k(2) e by (simp add: kqueue_fits_def)
next
  case False
  then show ?thesis using assms by (cases p; cases got) (auto simp: kqueue_fits_def res_bind_eq_Inr split: if_splits)
qed

lemma kqueue_head_runs: "kqueue_fits (Kq_head j events) \<Longrightarrow> kqueue_loop got (Kq_head j events) w = Inr (if g_stop (g_melon w) \<noteq> 0 then Kq_done else Kq_waits j events, w)"
  by (simp add: kqueue_fits_def kqueue_changes_def)

section \<open>Properties\<close>

text \<open>
  The values of \<^verbatim>\<open>EVFILT_READ\<close> and \<^verbatim>\<open>EVFILT_WRITE\<close> are -1 and -2, so that both
  tests of the handler hold for both: an event that says that the descriptor can be read
  also wakes the first fiber that waits to write, and the reverse. An error or the end
  of file wakes all fibers of the descriptor.
\<close>

theorem kqueue_handle_wakes_both:
  assumes r: "rep w s" and e: "i < length events" "j \<le> i" "events ! i = e" and d: "fd_ok s (ke_ident e)"
    and f: "ke_filter e \<in> {EVFILT_READ, EVFILT_WRITE}"
  defines "rd \<equiv> sp_queues s (Q_read (ke_ident e))" and "wr \<equiv> sp_queues s (Q_write (ke_ident e))"
  shows "\<exists>j' events' w' s'. kqueue_handle i j events w = Inr (j', events', w') \<and> rep w' s' \<and>
    wakes released (if ke_flags e AND (EV_ERROR OR EV_EOF) \<noteq> 0 then rd @ wr else take 1 rd @ take 1 wr) s s' \<and>
    (if sp_queues s' (Q_read (ke_ident e)) = [] \<and> sp_queues s' (Q_write (ke_ident e)) = [] then j' = j \<and> events' = events
     else j' = j + 1 \<and> events' = events[j := new_kevent (ke_ident e)])"
  using kqueue_handle_refines [OF assms(1-6)] unfolding rd_def wr_def .

definition ex_kevent :: kevent where
  "ex_kevent = (new_kevent 5)\<lparr>ke_filter := EVFILT_READ, ke_flags := 0\<rparr>"

lemma ex_kevent_simps [simp]: "ke_ident ex_kevent = 5" "ke_filter ex_kevent = EVFILT_READ" "ke_flags ex_kevent = 0"
  by (simp_all add: ex_kevent_def new_kevent_def)

theorem kqueue_handle_wakes_both_witness:
  "\<exists>w j' events' w' s'. rep w ex_fd \<and> kqueue_handle 0 0 [ex_kevent] w = Inr (j', events', w') \<and> rep w' s' \<and> sp_queues s' Q_ready = [1, 3]"
proof -
  obtain w where w: "rep w ex_fd" using rep_ex_fd(1) ..
  obtain j' events' w' s' where "kqueue_handle 0 0 [ex_kevent] w = Inr (j', events', w')" "rep w' s'"
    "wakes released (if ke_flags ex_kevent AND (EV_ERROR OR EV_EOF) \<noteq> 0 then sp_queues ex_fd (Q_read 5) @ sp_queues ex_fd (Q_write 5)
      else take 1 (sp_queues ex_fd (Q_read 5)) @ take 1 (sp_queues ex_fd (Q_write 5))) ex_fd s'"
    using kqueue_handle_wakes_both [OF w, of 0 "[ex_kevent]" 0 ex_kevent] ex_fd_ok unfolding ex_kevent_simps by auto
  with w show ?thesis by (intro exI [of _ w] exI [of _ j'] exI [of _ events'] exI [of _ w'] exI [of _ s']) (simp add: wakes_def)
qed

text \<open>
  A pass writes its changes to the start of the array, but the next \<^verbatim>\<open>kevent\<close> is given the
  position behind them: what it registers are old events of the kernel, never a
  change of this pass. The changes have no filter either. A descriptor for which fibers still wait is not armed
  again by this thread.
\<close>

theorem kqueue_changes_lost:
  assumes "kqueue_pass count events w = Inr (j, events', w')"
  shows "j \<le> count \<and> (\<forall>k < j. ke_filter (events' ! k) = 0) \<and>
    (kqueue_changes j events' = Inl Bad_deref \<or> kqueue_changes j events' = Inr (take j (drop j events)))"
proof -
  obtain w1 where "kqueue_events count 0 0 events (glock_lock w) = Inr (j, events', w1)"
    using assms by (auto simp: kqueue_pass_def res_bind_eq_Inr)
  from kqueue_events_changes [OF this] have c: "j \<le> count" "length events' = length events"
    "\<And>k. j \<le> k \<Longrightarrow> k < length events \<Longrightarrow> events' ! k = events ! k" "\<And>k. k < j \<Longrightarrow> ke_filter (events' ! k) = 0" by auto
  have "take j (drop j events') = take j (drop j events)" using c(2,3) by (intro nth_equalityI) auto
  then show ?thesis using c(1,4) by (auto simp: kqueue_changes_def)
qed

theorem kqueue_changes_lost_witness:
  "\<exists>w events' w'. rep w ex_fd \<and> kqueue_pass 1 [ex_kevent, ex_kevent] w = Inr (1, events', w') \<and> kqueue_changes 1 events' = Inr [ex_kevent]"
proof -
  obtain w where w: "rep w ex_fd" using rep_ex_fd(1) ..
  have "fd_ok (sp_lift glock_lock ex_fd) 5" using ex_fd_ok by (simp add: fd_ok_def timer_ok_def)
  then obtain j' events' w1 s' where h: "kqueue_handle 0 0 [ex_kevent, ex_kevent] (glock_lock w) = Inr (j', events', w1)"
    "wakes released (take 1 (sp_queues (sp_lift glock_lock ex_fd) (Q_read 5)) @ take 1 (sp_queues (sp_lift glock_lock ex_fd) (Q_write 5))) (sp_lift glock_lock ex_fd) s'"
    "if sp_queues s' (Q_read 5) = [] \<and> sp_queues s' (Q_write 5) = [] then j' = 0 \<and> events' = [ex_kevent, ex_kevent]
     else j' = 0 + 1 \<and> events' = [ex_kevent, ex_kevent][0 := new_kevent 5]"
    using kqueue_handle_refines [OF rep_lock_lift [OF w], of 0 "[ex_kevent, ex_kevent]" 0 ex_kevent] unfolding ex_kevent_simps by auto
  then have j: "j' = 1" "length events' = 2" by (auto simp: wakes_def)
  have p: "kqueue_pass 1 [ex_kevent, ex_kevent] w = Inr (1, events', glock_unlock w1)" using h(1) j(1) by (simp add: kqueue_pass_def)
  from kqueue_changes_lost [OF p] have "kqueue_changes 1 events' = Inr [ex_kevent]" using j(2) by (auto simp: kqueue_changes_def)
  with w p show ?thesis by blast
qed



end
