(* ===== verification/Melon_Shutdown.thy ===== *)
theory Melon_Shutdown
  imports Melon_Kqueue Melon_Life
begin

text \<open>
  The loops of the runtime's threads and the way they end: \<^verbatim>\<open>melon_sched_run\<close> of
  \<^verbatim>\<open>src/sched.c\<close>, \<^verbatim>\<open>melon_timer_manager_loop\<close> of \<^verbatim>\<open>src/timer_manager.c\<close>,
  \<^verbatim>\<open>melon_io_manager_loop\<close> of \<^verbatim>\<open>src/io_manager_epoll.c\<close>, and
  \<^verbatim>\<open>melon_deinit\<close> of \<^verbatim>\<open>src/melon.c\<close> as a thread that runs beside them. What a thread
  does between taking \<^verbatim>\<open>g_melon.lock\<close> and leaving it, or sleeping on a condition, is
  one step, since the lock keeps the others out; the steps of the threads interleave in
  any order. A condition may also wake a thread that nobody has signalled.
\<close>

section \<open>The loops\<close>

datatype sched_pc = Sched_head | Sched_locks | Sched_asleep | Sched_on_fiber ptr | Sched_done

text \<open>
  \<open>Sched_head\<close> is the test of \<^verbatim>\<open>g_melon.stop\<close> in \<^verbatim>\<open>melon_sched_run\<close>,
  \<open>Sched_locks\<close> the point where \<^verbatim>\<open>sched_next\<close> takes the lock, at first or after
  \<^verbatim>\<open>pthread_cond_wait\<close>. The thread leaves a fiber when it has swapped back.
\<close>

fun melon_sched_run :: "sched_pc \<Rightarrow> world \<Rightarrow> (sched_pc \<times> world) res" where
  "melon_sched_run Sched_head w = Inr (if g_stop (g_melon w) \<noteq> 0 then Sched_done else Sched_locks, w)"
| "melon_sched_run Sched_locks w =
    res_bind (sched_next w) (\<lambda>(r, w).
    Inr (case r of
        Sched_stopped \<Rightarrow> (Sched_head, w)
      | Sched_sleeps \<Rightarrow> (Sched_asleep, glock_unlock w)
      | Sched_runs \<Rightarrow> (Sched_on_fiber (g_current_fiber w), w)))"
| "melon_sched_run Sched_asleep w = Inr (Sched_locks, w)"
| "melon_sched_run (Sched_on_fiber x) w =
    res_bind (sched_leave (w\<lparr>g_current_fiber := x\<rparr>)) (\<lambda>w. Inr (Sched_head, w))"
| "melon_sched_run Sched_done w = Inr (Sched_done, w)"

datatype timer_pc = Timer_head | Timer_asleep | Timer_done

text \<open>\<open>time\<close> is what \<^verbatim>\<open>melon_time\<close> returns in this turn.\<close>

fun melon_timer_manager_loop :: "int \<Rightarrow> timer_pc \<Rightarrow> world \<Rightarrow> (timer_pc \<times> world) res" where
  "melon_timer_manager_loop time Timer_head w =
    (let w = glock_lock w in
     if g_stop (g_melon w) \<noteq> 0 then Inr (Timer_done, glock_unlock w)
     else res_bind (melon_timer_manager_pass run_timer_cb time w) (\<lambda>(_, w). Inr (Timer_asleep, glock_unlock w)))"
| "melon_timer_manager_loop time Timer_asleep w = Inr (Timer_head, w)"
| "melon_timer_manager_loop time Timer_done w = Inr (Timer_done, w)"

datatype io_pc = Io_head | Io_waits | Io_sleeps | Io_done

text \<open>
  \<open>None\<close> is a failed \<^verbatim>\<open>epoll_wait\<close>, \<open>Some es\<close> one that returned the events \<open>es\<close>;
  \<open>Io_sleeps\<close> is the call of \<^verbatim>\<open>usleep\<close>.
\<close>

fun melon_io_manager_loop :: "epoll_event list option \<Rightarrow> io_pc \<Rightarrow> world \<Rightarrow> (io_pc \<times> world) res" where
  "melon_io_manager_loop r Io_head w = Inr (if g_stop (g_melon w) \<noteq> 0 then Io_done else Io_waits, w)"
| "melon_io_manager_loop None Io_waits w = Inr (if g_stop (g_melon w) \<noteq> 0 then Io_done else Io_sleeps, w)"
| "melon_io_manager_loop r Io_sleeps w = Inr (Io_head, w)"
| "melon_io_manager_loop (Some es) Io_waits w = res_bind (melon_io_manager_pass es w) (\<lambda>w. Inr (Io_head, w))"
| "melon_io_manager_loop r Io_done w = Inr (Io_done, w)"

section \<open>The stop\<close>

text \<open>
  The points of \<^verbatim>\<open>melon_deinit\<close>, with the functions of the managers that it calls:
  before it takes the lock, before it closes the descriptor of epoll and cancels the
  thread, in \<^verbatim>\<open>pthread_join\<close> of that thread, before it signals \<^verbatim>\<open>timer_cond\<close>, in
  \<^verbatim>\<open>pthread_join\<close> of the timer's thread, of the scheduler's thread \<open>i\<close>, and after the
  last of them.
\<close>

datatype deinit_pc = Deinit_locks | Deinit_io | Deinit_io_join | Deinit_timer | Deinit_timer_join | Deinit_join nat | Deinit_joined

record runtime =
  rt_world :: world
  rt_sched :: "sched_pc list"
  rt_timer :: timer_pc
  rt_io :: io_pc
  rt_cancel :: bool
  rt_deinit :: deinit_pc

definition broadcast_ready :: "sched_pc list \<Rightarrow> sched_pc list" where
  "broadcast_ready ps = map (\<lambda>p. if p = Sched_asleep then Sched_locks else p) ps"

definition signal_timer :: "timer_pc \<Rightarrow> timer_pc" where
  "signal_timer t = (if t = Timer_asleep then Timer_head else t)"

definition next_join :: "nat \<Rightarrow> runtime \<Rightarrow> deinit_pc" where
  "next_join i r = (if i < length (rt_sched r) then Deinit_join i else Deinit_joined)"

definition deinit_step :: "runtime \<Rightarrow> runtime option" where
  "deinit_step r =
    (case rt_deinit r of
       Deinit_locks \<Rightarrow> Some (r\<lparr>rt_world := deinit_stop (rt_world r), rt_sched := broadcast_ready (rt_sched r), rt_deinit := Deinit_io\<rparr>)
     | Deinit_io \<Rightarrow> Some (r\<lparr>rt_world := mod_melon (\<lambda>g. g\<lparr>g_epoll_fd := -1\<rparr>) (rt_world r), rt_cancel := True, rt_deinit := Deinit_io_join\<rparr>)
     | Deinit_io_join \<Rightarrow> if rt_io r = Io_done then Some (r\<lparr>rt_deinit := Deinit_timer\<rparr>) else None
     | Deinit_timer \<Rightarrow> Some (r\<lparr>rt_world := os_event Signal_timer (rt_world r), rt_timer := signal_timer (rt_timer r), rt_deinit := Deinit_timer_join\<rparr>)
     | Deinit_timer_join \<Rightarrow> if rt_timer r = Timer_done then Some (r\<lparr>rt_deinit := next_join 0 r\<rparr>) else None
     | Deinit_join i \<Rightarrow> if rt_sched r ! i = Sched_done then Some (r\<lparr>rt_deinit := next_join (i + 1) r\<rparr>) else None
     | Deinit_joined \<Rightarrow> None)"

text \<open>
  One step of the whole. A fault of a thread has no successor. \<^verbatim>\<open>epoll_wait\<close> reports
  descriptors of the table only; \<^verbatim>\<open>pthread_cancel\<close> takes effect there and in \<^verbatim>\<open>usleep\<close>.
\<close>

inductive runtime_step :: "runtime \<Rightarrow> runtime \<Rightarrow> bool" where
  step_sched: "i < length (rt_sched r) \<Longrightarrow> rt_sched r ! i \<noteq> Sched_done \<Longrightarrow> melon_sched_run (rt_sched r ! i) (rt_world r) = Inr (p, w) \<Longrightarrow>
    runtime_step r (r\<lparr>rt_world := w, rt_sched := (rt_sched r)[i := p]\<rparr>)"
| step_timer: "rt_timer r \<noteq> Timer_done \<Longrightarrow> melon_timer_manager_loop time (rt_timer r) (rt_world r) = Inr (t, w) \<Longrightarrow>
    runtime_step r (r\<lparr>rt_world := w, rt_timer := t\<rparr>)"
| step_io: "rt_io r \<noteq> Io_done \<Longrightarrow> \<forall>es e. res = Some es \<and> e \<in> set es \<longrightarrow> g_io (g_melon (rt_world r)) (ev_fd e) \<noteq> None \<Longrightarrow>
    melon_io_manager_loop res (rt_io r) (rt_world r) = Inr (p, w) \<Longrightarrow> runtime_step r (r\<lparr>rt_world := w, rt_io := p\<rparr>)"
| step_cancel: "rt_cancel r \<Longrightarrow> rt_io r = Io_waits \<or> rt_io r = Io_sleeps \<Longrightarrow> runtime_step r (r\<lparr>rt_io := Io_done\<rparr>)"
| step_deinit: "deinit_step r = Some r' \<Longrightarrow> runtime_step r r'"

inductive_cases runtime_stepE: "runtime_step r r'"

abbreviation runtime_reach :: "runtime \<Rightarrow> runtime \<Rightarrow> bool" where
  "runtime_reach \<equiv> runtime_step\<^sup>*\<^sup>*"

section \<open>Turns with nothing queued\<close>

text \<open>Without fibers, which \<^verbatim>\<open>melon_deinit\<close> asserts, no queue of the runtime has a member.\<close>

definition nothing_queued :: "world \<Rightarrow> bool" where
  "nothing_queued w \<longleftrightarrow> g_ready (g_melon w) = NULL \<and> g_timer_queue (g_melon w) = NULL \<and>
     (\<forall>fd d. g_io (g_melon w) fd = Some d \<longrightarrow> read_queue d = NULL \<and> write_queue d = NULL)"

lemma nothing_queued_upd [simp]:
  "nothing_queued (w\<lparr>g_current_fiber := x\<rparr>) = nothing_queued w" "nothing_queued (deinit_stop w) = nothing_queued w"
  "nothing_queued (mod_melon (\<lambda>g. g\<lparr>g_epoll_fd := e\<rparr>) w) = nothing_queued w" "nothing_queued (os_event ev w) = nothing_queued w"
  "nothing_queued (glock_lock w) = nothing_queued w"
  by (simp_all add: nothing_queued_def deinit_stop_def world_defs)

lemma sched_next_nothing_queued:
  assumes "nothing_queued w"
  shows "sched_next w = (if g_stop (g_melon w) \<noteq> 0 then Inr (Sched_stopped, w\<lparr>g_current_fiber := NULL\<rparr>)
    else Inr (Sched_sleeps, glock_lock (w\<lparr>g_current_fiber := NULL\<rparr>)))"
  using assms by (simp add: sched_next_def nothing_queued_def world_defs melon_list_pop_def)

lemma timer_pass_nothing_queued:
  assumes "nothing_queued w"
  shows "melon_timer_manager_pass call time w = Inr (Wait_forever, w)"
  using assms by (simp add: melon_timer_manager_pass_def nothing_queued_def timer_expire_loop.simps)

lemma fd_pop_empty:
  assumes "g_io (g_melon w) fd = Some d" and "fd_queue dir d = NULL"
  shows "fd_pop dir fd w = Inr (NULL, w)"
proof -
  have "set_fd_queue dir NULL d = d" using assms(2) by (cases dir) simp_all
  moreover have "(g_io (g_melon w))(fd \<mapsto> d) = g_io (g_melon w)" using assms(1) by auto
  ultimately show ?thesis using assms
    by (simp add: fd_pop_def load_fd_def mod_fd_def mod_melon_def fiber_pop_def melon_dlist_pop_def)
qed

lemma handle_nothing_queued:
  assumes w: "nothing_queued w" and d: "g_io (g_melon w) (ev_fd e) \<noteq> None"
  shows "melon_io_manager_handle e w = Inr (None, w)"
proof -
  obtain d where d: "g_io (g_melon w) (ev_fd e) = Some d" "read_queue d = NULL" "write_queue d = NULL"
    using assms by (auto simp: nothing_queued_def)
  have pop: "fd_pop dir (ev_fd e) w = Inr (NULL, w)" for dir by (rule fd_pop_empty [OF d(1)]) (cases dir; simp add: d)
  then have "release_one dir (ev_fd e) w = Inr w" "run_loop (release_loop dir (ev_fd e) w) = Inr w" for dir
    by (simp_all add: release_one_def melon_io_manager_release_fiber_def release_loop.simps)
  then show ?thesis using d by (simp add: melon_io_manager_handle_def load_fd_def wait_mask_def)
qed

lemma io_pass_nothing_queued:
  assumes "nothing_queued w" and "\<forall>e \<in> set es. g_io (g_melon w) (ev_fd e) \<noteq> None"
  shows "melon_io_manager_pass es w = Inr w"
proof -
  have "handle_events es w = Inr w" if "nothing_queued w" "\<forall>e \<in> set es. g_io (g_melon w) (ev_fd e) \<noteq> None" for w
    using that by (induction es) (simp_all add: handle_nothing_queued)
  from this [of "glock_lock w"] assms show ?thesis by (simp add: melon_io_manager_pass_def) (simp add: world_defs)
qed

section \<open>Threads that leave their last fiber\<close>

text \<open>
  A fiber counts itself off before it swaps back, so that \<^verbatim>\<open>melon_deinit\<close> may begin while
  threads still have to destroy the fibers that ended last: \<open>quits\<close> is what the end of
  \<^verbatim>\<open>melon_fiber_wrapper\<close> leaves of such a fiber, its stack being one of those in use. Its
  mutex and condition, if it can be joined, are its own.
\<close>

definition quits :: "world \<Rightarrow> ptr set \<Rightarrow> ptr \<Rightarrow> melon_fiber \<Rightarrow> bool" where
  "quits w used x f \<longleftrightarrow> x \<noteq> NULL \<and> fibers w x = Some f \<and> f_sched_next_cb f = Sched_cb_fiber_destroy \<and> f_sched_next_ctx f = x \<and>
     f_ss_sp f \<in> used \<and> (f_join_mutex f \<noteq> NULL \<longrightarrow> (\<exists>r q. mutexes w (f_join_mutex f) =
         Some \<lparr>m_lock = 0, m_owner = NULL, m_lock_queue = NULL, m_lock_count = 0, m_is_recursive = r\<rparr> \<and>
       conds w (f_join_cond f) = Some \<lparr>c_lock = 0, c_wait_queue = q\<rparr> \<and> q = NULL))"

definition apart_fibers :: "melon_fiber \<Rightarrow> melon_fiber \<Rightarrow> bool" where
  "apart_fibers f g \<longleftrightarrow> f_ss_sp f \<noteq> f_ss_sp g \<and>
     (f_join_mutex f \<noteq> NULL \<and> f_join_mutex g \<noteq> NULL \<longrightarrow> f_join_mutex f \<noteq> f_join_mutex g \<and> f_join_cond f \<noteq> f_join_cond g)"

definition parting :: "world \<Rightarrow> ptr set \<Rightarrow> bool" where
  "parting w A \<longleftrightarrow> (\<exists>xs used. stack_inv (stacks w) xs used \<and> (\<forall>x \<in> A. \<exists>f. quits w used x f)) \<and>
     (\<forall>x \<in> A. \<forall>y \<in> A. x \<noteq> y \<longrightarrow> apart_fibers (the (fibers w x)) (the (fibers w y)))"

text \<open>The fibers that the threads are on, and that no two threads are on the same.\<close>

definition on_fibers :: "sched_pc list \<Rightarrow> ptr set" where
  "on_fibers ps = {x. Sched_on_fiber x \<in> set ps}"

definition once :: "sched_pc list \<Rightarrow> bool" where
  "once ps \<longleftrightarrow> (\<forall>i j x. i < length ps \<and> j < length ps \<and> ps ! i = Sched_on_fiber x \<and> ps ! j = Sched_on_fiber x \<longrightarrow> i = j)"

lemma parting_upd [simp]:
  "parting (w\<lparr>g_current_fiber := x\<rparr>) A = parting w A" "parting (deinit_stop w) A = parting w A"
  "parting (mod_melon k w) A = parting w A" "parting (os_event ev w) A = parting w A"
  by (simp_all add: parting_def quits_def deinit_stop_def world_defs)

lemma parting_mono: "parting w A \<Longrightarrow> B \<subseteq> A \<Longrightarrow> parting w B"
  unfolding parting_def by blast

lemma once_other:
  assumes "once ps" and "\<forall>x. p \<noteq> Sched_on_fiber x"
  shows "once (ps[i := p])" and "on_fibers (ps[i := p]) \<subseteq> on_fibers ps"
proof -
  have n: "ps ! j = Sched_on_fiber x" if "ps[i := p] ! j = Sched_on_fiber x" "j < length ps" for j x
    using that assms(2) by (cases "j = i") auto
  then show "once (ps[i := p])" using assms(1) unfolding once_def length_list_update by metis
  show "on_fibers (ps[i := p]) \<subseteq> on_fibers ps"
    using assms(2) set_update_subset_insert [of ps i p] by (auto simp: on_fibers_def)
qed

lemma once_leave:
  assumes "once ps" and i: "i < length ps" "ps ! i = Sched_on_fiber x"
  shows "on_fibers (ps[i := Sched_head]) \<subseteq> on_fibers ps - {x}"
proof
  fix y
  assume "y \<in> on_fibers (ps[i := Sched_head])"
  then obtain j where j: "j < length ps" "ps[i := Sched_head] ! j = Sched_on_fiber y" by (auto simp: on_fibers_def in_set_conv_nth)
  then have "j \<noteq> i" "ps ! j = Sched_on_fiber y" using i(1) by (auto simp: nth_list_update split: if_splits)
  then show "y \<in> on_fibers ps - {x}" using j(1) assms unfolding once_def on_fibers_def by (metis Diff_iff mem_Collect_eq nth_mem singletonD)
qed

lemma once_broadcast:
  assumes "once ps"
  shows "once (broadcast_ready ps)" and "on_fibers (broadcast_ready ps) = on_fibers ps"
proof -
  have "ps ! i = Sched_on_fiber x" if "broadcast_ready ps ! i = Sched_on_fiber x" "i < length ps" for i x
    using that by (simp add: broadcast_ready_def split: if_splits)
  moreover have "length (broadcast_ready ps) = length ps" by (simp add: broadcast_ready_def)
  ultimately show "once (broadcast_ready ps)" using assms unfolding once_def by metis
  show "on_fibers (broadcast_ready ps) = on_fibers ps" by (auto simp: on_fibers_def broadcast_ready_def)
qed

text \<open>What the thread does with such a fiber.\<close>

lemma leave_quits:
  assumes q: "quits w used x f" and st: "stack_inv (stacks w) xs used"
  obtains st' ys where "stack_inv st' ys (used - {f_ss_sp f})" and "sched_leave (w\<lparr>g_current_fiber := x\<rparr>) =
    Inr (w\<lparr>fibers := (fibers w)(x := None), stacks := st', g_current_fiber := NULL,
      mutexes := (if f_join_mutex f = NULL then mutexes w else (mutexes w)(f_join_mutex f := None)),
      conds := (if f_join_mutex f = NULL then conds w else (conds w)(f_join_cond f := None))\<rparr>)"
proof -
  have f: "fibers w x = Some f" "x \<noteq> NULL" "f_sched_next_cb f = Sched_cb_fiber_destroy" "f_sched_next_ctx f = x" "f_ss_sp f \<in> used"
    using q by (simp_all add: quits_def)
  obtain st' ys where s: "melon_stack_free (f_ss_sp f) (stacks w) = Inr st'" "stack_inv st' ys (used - {f_ss_sp f})" by (rule stack_freed [OF st f(5)])
  show thesis
  proof (cases "f_join_mutex f = NULL")
    case True
    then show thesis using f s
      by (intro that [OF s(2)]) (simp add: sched_leave_def sched_next_back_def mod_fiber_def sched_run_callback_def call_sched_next_cb_def
          melon_fiber_destroy_def)
  next
    case False
    then show thesis using f s q
      by (intro that [OF s(2)]) (auto simp: quits_def sched_leave_def sched_next_back_def mod_fiber_def sched_run_callback_def call_sched_next_cb_def
          melon_fiber_destroy_def melon_cond_destroy_def melon_mutex_destroy_def world_defs)
  qed
qed

lemma parting_leave:
  assumes p: "parting w A" and x: "x \<in> A"
  obtains w' where "sched_leave (w\<lparr>g_current_fiber := x\<rparr>) = Inr w'" and "g_melon w' = g_melon w" and "parting w' (A - {x})"
proof -
  obtain xs used f where st: "stack_inv (stacks w) xs used" "quits w used x f" and all: "\<forall>y \<in> A. \<exists>g. quits w used y g"
    using p x unfolding parting_def by blast
  have ap: "\<forall>x \<in> A. \<forall>y \<in> A. x \<noteq> y \<longrightarrow> apart_fibers (the (fibers w x)) (the (fibers w y))" using p by (simp add: parting_def)
  obtain st' ys where s: "stack_inv st' ys (used - {f_ss_sp f})" "sched_leave (w\<lparr>g_current_fiber := x\<rparr>) =
    Inr (w\<lparr>fibers := (fibers w)(x := None), stacks := st', g_current_fiber := NULL,
      mutexes := (if f_join_mutex f = NULL then mutexes w else (mutexes w)(f_join_mutex f := None)),
      conds := (if f_join_mutex f = NULL then conds w else (conds w)(f_join_cond f := None))\<rparr>)" (is "_ = Inr ?w")
    by (rule leave_quits [OF st(2,1)])
  have "\<exists>g. quits ?w (used - {f_ss_sp f}) y g" if y: "y \<in> A - {x}" for y
  proof -
    obtain g where g: "quits w used y g" using all y by blast
    have "apart_fibers (the (fibers w x)) (the (fibers w y))" using ap x y by auto
    then have "apart_fibers f g" using g st(2) by (simp add: quits_def)
    then show ?thesis using g y by (intro exI [of _ g]) (auto simp: quits_def apart_fibers_def)
  qed
  moreover have "stack_inv (stacks ?w) ys (used - {f_ss_sp f})" using s(1) by simp
  moreover have "apart_fibers (the (fibers ?w y)) (the (fibers ?w z))" if "y \<in> A - {x}" "z \<in> A - {x}" "y \<noteq> z" for y z
    using that ap by simp
  ultimately have "parting ?w (A - {x})" unfolding parting_def by blast
  then show thesis by (intro that [OF s(2)]) simp_all
qed

section \<open>The invariant of the stop\<close>

fun deinit_rank :: "deinit_pc \<Rightarrow> nat" where
  "deinit_rank Deinit_locks = 0"
| "deinit_rank Deinit_io = 1"
| "deinit_rank Deinit_io_join = 2"
| "deinit_rank Deinit_timer = 3"
| "deinit_rank Deinit_timer_join = 4"
| "deinit_rank (Deinit_join i) = 5 + i"
| "deinit_rank Deinit_joined = 5"

text \<open>How many of \<open>n\<close> scheduler threads have been joined.\<close>

fun joined :: "nat \<Rightarrow> deinit_pc \<Rightarrow> nat" where
  "joined n (Deinit_join i) = i"
| "joined n Deinit_joined = n"
| "joined n _ = 0"

definition stop_inv :: "runtime \<Rightarrow> bool" where
  "stop_inv r \<longleftrightarrow> nothing_queued (rt_world r) \<and> parting (rt_world r) (on_fibers (rt_sched r)) \<and> once (rt_sched r) \<and>
     (g_stop (g_melon (rt_world r)) = 0 \<longleftrightarrow> rt_deinit r = Deinit_locks) \<and>
     (rt_deinit r \<noteq> Deinit_locks \<longrightarrow> Sched_asleep \<notin> set (rt_sched r)) \<and>
     (2 \<le> deinit_rank (rt_deinit r) \<longrightarrow> rt_cancel r) \<and>
     (3 \<le> deinit_rank (rt_deinit r) \<longrightarrow> rt_io r = Io_done) \<and>
     (4 \<le> deinit_rank (rt_deinit r) \<longrightarrow> rt_timer r \<noteq> Timer_asleep) \<and>
     (5 \<le> deinit_rank (rt_deinit r) \<longrightarrow> rt_timer r = Timer_done) \<and>
     (\<forall>i. rt_deinit r = Deinit_join i \<longrightarrow> i < length (rt_sched r)) \<and>
     (\<forall>i < joined (length (rt_sched r)) (rt_deinit r). rt_sched r ! i = Sched_done)"

text \<open>What is left to do for a thread.\<close>

fun sched_left :: "sched_pc \<Rightarrow> nat" where
  "sched_left Sched_head = 1"
| "sched_left Sched_locks = 2"
| "sched_left Sched_asleep = 3"
| "sched_left (Sched_on_fiber x) = 2"
| "sched_left Sched_done = 0"

text \<open>A turn of a scheduler thread does not fail and, once the runtime stops, brings it nearer to its end.\<close>

lemma sched_turn_idle:
  assumes "nothing_queued w" and "\<forall>x. p \<noteq> Sched_on_fiber x"
  shows "\<exists>p' w'. melon_sched_run p w = Inr (p', w') \<and> (w' = w \<or> w' = w\<lparr>g_current_fiber := NULL\<rparr>) \<and> (\<forall>x. p' \<noteq> Sched_on_fiber x) \<and>
    (g_stop (g_melon w) \<noteq> 0 \<longrightarrow> p' \<noteq> Sched_asleep \<and> (p \<noteq> Sched_done \<longrightarrow> sched_left p' < sched_left p))"
  using assms by (cases p) (simp_all add: sched_next_nothing_queued)

lemma sched_turn:
  assumes w: "nothing_queued w" "parting w (on_fibers ps)" "once ps" and i: "i < length ps"
  obtains p w' where "melon_sched_run (ps ! i) w = Inr (p, w')" and "nothing_queued w'" and "g_stop (g_melon w') = g_stop (g_melon w)"
    and "parting w' (on_fibers (ps[i := p]))" and "once (ps[i := p])" and "g_stop (g_melon w) \<noteq> 0 \<longrightarrow> p \<noteq> Sched_asleep"
    and "g_stop (g_melon w) \<noteq> 0 \<longrightarrow> ps ! i \<noteq> Sched_done \<longrightarrow> sched_left p < sched_left (ps ! i)"
proof (cases "\<exists>x. ps ! i = Sched_on_fiber x")
  case True
  then obtain x where x: "ps ! i = Sched_on_fiber x" ..
  then have "x \<in> on_fibers ps" using i by (auto simp: on_fibers_def dest: nth_mem)
  then obtain w' where l: "sched_leave (w\<lparr>g_current_fiber := x\<rparr>) = Inr w'" "g_melon w' = g_melon w" "parting w' (on_fibers ps - {x})"
    by (rule parting_leave [OF w(2)])
  have "once (ps[i := Sched_head])" by (rule once_other [OF w(3)]) simp
  moreover have "parting w' (on_fibers (ps[i := Sched_head]))" by (rule parting_mono [OF l(3) once_leave [OF w(3) i x]])
  moreover have "nothing_queued w'" using w(1) l(2) by (simp add: nothing_queued_def)
  ultimately show thesis using x l(1,2) by (intro that [of Sched_head w']) simp_all
next
  case False
  then obtain p w' where e: "melon_sched_run (ps ! i) w = Inr (p, w')" "w' = w \<or> w' = w\<lparr>g_current_fiber := NULL\<rparr>" "\<forall>x. p \<noteq> Sched_on_fiber x"
    "g_stop (g_melon w) \<noteq> 0 \<longrightarrow> p \<noteq> Sched_asleep \<and> (ps ! i \<noteq> Sched_done \<longrightarrow> sched_left p < sched_left (ps ! i))"
    using sched_turn_idle [OF w(1), of "ps ! i"] by blast
  have "parting w' (on_fibers (ps[i := p]))" "nothing_queued w'" "g_stop (g_melon w') = g_stop (g_melon w)"
    using parting_mono [OF w(2) once_other(2) [OF w(3) e(3)]] w(1) e(2) by auto
  then show thesis using e(4) by (intro that [OF e(1) _ _ _ once_other(1) [OF w(3) e(3)]]) simp_all
qed

lemma timer_loop_nothing_queued:
  assumes "nothing_queued w"
  shows "melon_timer_manager_loop time t w = Inr (case t of
    Timer_head \<Rightarrow> if g_stop (g_melon w) \<noteq> 0 then Timer_done else Timer_asleep | Timer_asleep \<Rightarrow> Timer_head | Timer_done \<Rightarrow> Timer_done, w)"
proof -
  have "g_stop (g_melon (glock_lock w)) = g_stop (g_melon w)" by (simp add: world_defs)
  then show ?thesis using assms by (cases t) (simp_all add: timer_pass_nothing_queued)
qed

lemma io_loop_nothing_queued:
  assumes "nothing_queued w" and "\<forall>es e. res = Some es \<and> e \<in> set es \<longrightarrow> g_io (g_melon w) (ev_fd e) \<noteq> None"
  shows "melon_io_manager_loop res p w = Inr (case p of Io_head \<Rightarrow> if g_stop (g_melon w) \<noteq> 0 then Io_done else Io_waits
    | Io_waits \<Rightarrow> if res \<noteq> None then Io_head else if g_stop (g_melon w) \<noteq> 0 then Io_done else Io_sleeps
    | Io_sleeps \<Rightarrow> Io_head | Io_done \<Rightarrow> Io_done, w)"
  using assms by (cases p; cases res) (simp_all add: io_pass_nothing_queued)

lemma deinit_stop_stops [simp]: "g_stop (g_melon (deinit_stop w)) = 1"
  by (simp add: deinit_stop_def world_defs)

lemma stop_flag_kept [simp]:
  "g_stop (g_melon (mod_melon (\<lambda>g. g\<lparr>g_epoll_fd := e\<rparr>) w)) = g_stop (g_melon w)" "g_stop (g_melon (os_event ev w)) = g_stop (g_melon w)"
  by (simp_all add: world_defs)

lemma stop_inv_turn:
  assumes "stop_inv r" and "i < length (rt_sched r)"
  obtains p w where "melon_sched_run (rt_sched r ! i) (rt_world r) = Inr (p, w)" and "nothing_queued w"
    and "g_stop (g_melon w) = g_stop (g_melon (rt_world r))" and "parting w (on_fibers ((rt_sched r)[i := p]))" and "once ((rt_sched r)[i := p])"
    and "rt_deinit r \<noteq> Deinit_locks \<longrightarrow> p \<noteq> Sched_asleep"
    and "rt_deinit r \<noteq> Deinit_locks \<longrightarrow> rt_sched r ! i \<noteq> Sched_done \<longrightarrow> sched_left p < sched_left (rt_sched r ! i)"
  by (rule sched_turn [of "rt_world r" "rt_sched r" i]) (use assms in \<open>simp_all add: stop_inv_def\<close>)

lemma stop_inv_sched:
  assumes r: "stop_inv r" and i: "i < length (rt_sched r)" "rt_sched r ! i \<noteq> Sched_done"
    and s: "melon_sched_run (rt_sched r ! i) (rt_world r) = Inr (p, w)"
  shows "stop_inv (r\<lparr>rt_world := w, rt_sched := (rt_sched r)[i := p]\<rparr>)"
proof -
  have t: "nothing_queued w" "g_stop (g_melon w) = g_stop (g_melon (rt_world r))" "parting w (on_fibers ((rt_sched r)[i := p]))" "once ((rt_sched r)[i := p])"
    "rt_deinit r \<noteq> Deinit_locks \<longrightarrow> p \<noteq> Sched_asleep"
    by (rule stop_inv_turn [OF r i(1)], use s in simp)+
  have "Sched_asleep \<notin> set ((rt_sched r)[i := p])" if "rt_deinit r \<noteq> Deinit_locks"
    using r t(5) that set_update_subset_insert [of "rt_sched r" i p] by (auto simp: stop_inv_def)
  moreover have "(rt_sched r)[i := p] ! j = Sched_done" if "j < joined (length (rt_sched r)) (rt_deinit r)" for j
    using r i that by (cases "j = i") (auto simp: stop_inv_def)
  ultimately show ?thesis using r t(1-4) by (simp add: stop_inv_def)
qed

lemma stop_inv_deinit:
  assumes r: "stop_inv r" and d: "deinit_step r = Some r'"
  shows "stop_inv r'"
proof (cases "rt_deinit r")
  case Deinit_locks
  then have "r' = r\<lparr>rt_world := deinit_stop (rt_world r), rt_sched := broadcast_ready (rt_sched r), rt_deinit := Deinit_io\<rparr>"
    using d by (simp add: deinit_step_def)
  moreover have "Sched_asleep \<notin> set (broadcast_ready (rt_sched r))" by (auto simp: broadcast_ready_def)
  ultimately show ?thesis using r Deinit_locks by (simp add: stop_inv_def once_broadcast)
next
  case (Deinit_join i)
  then have "\<forall>j < Suc i. rt_sched r ! j = Sched_done" using r d by (auto simp: stop_inv_def deinit_step_def less_Suc_eq split: if_splits)
  then show ?thesis using Deinit_join r d by (auto simp: stop_inv_def deinit_step_def next_join_def split: if_splits)
qed (use r d in \<open>auto simp: stop_inv_def deinit_step_def next_join_def signal_timer_def split: if_splits\<close>)

lemma runtime_step_inv:
  assumes "runtime_step r r'" and r: "stop_inv r"
  shows "stop_inv r'"
  using assms(1)
proof cases
  case (step_sched i p w)
  then show ?thesis using stop_inv_sched [OF r] by simp
next
  case (step_timer time t w)
  have "nothing_queued (rt_world r)" using r by (simp add: stop_inv_def)
  from step_timer(3) timer_loop_nothing_queued [OF this]
  have "w = rt_world r" "t = Timer_asleep \<longrightarrow> g_stop (g_melon w) = 0" "t = Timer_done \<or> deinit_rank (rt_deinit r) < 5"
    using r step_timer(2) by (auto simp: stop_inv_def split: timer_pc.splits if_splits)
  then show ?thesis using r step_timer(1) by (auto simp: stop_inv_def)
next
  case (step_io res p w)
  have "nothing_queued (rt_world r)" using r by (simp add: stop_inv_def)
  from step_io(4) io_loop_nothing_queued [OF this step_io(3)] have "w = rt_world r" by simp
  then show ?thesis using r step_io(1,2) by (auto simp: stop_inv_def)
next
  case step_cancel
  then show ?thesis using r by (auto simp: stop_inv_def)
next
  case step_deinit
  then show ?thesis using stop_inv_deinit [OF r] by simp
qed

lemma runtime_reach_inv: "runtime_reach r r' \<Longrightarrow> stop_inv r \<Longrightarrow> stop_inv r'"
  by (induction rule: rtranclp_induct) (auto intro: runtime_step_inv)

section \<open>Every step after the stop leads to its end\<close>

fun timer_left :: "timer_pc \<Rightarrow> nat" where
  "timer_left Timer_head = 1"
| "timer_left Timer_asleep = 2"
| "timer_left Timer_done = 0"

fun io_left :: "io_pc \<Rightarrow> nat" where
  "io_left Io_head = 1"
| "io_left Io_waits = 3"
| "io_left Io_sleeps = 2"
| "io_left Io_done = 0"

fun deinit_left :: "nat \<Rightarrow> deinit_pc \<Rightarrow> nat" where
  "deinit_left n Deinit_joined = 0"
| "deinit_left n d = n + 6 - deinit_rank d"

definition steps_left :: "runtime \<Rightarrow> nat" where
  "steps_left r = sum_list (map sched_left (rt_sched r)) + timer_left (rt_timer r) + io_left (rt_io r) +
     deinit_left (length (rt_sched r)) (rt_deinit r)"

lemma sum_list_map_update:
  fixes f :: "'a \<Rightarrow> nat"
  assumes "i < length xs"
  shows "sum_list (map f (xs[i := x])) + f (xs ! i) = sum_list (map f xs) + f x"
  using assms by (induction xs arbitrary: i) (auto split: nat.splits)

lemma deinit_step_left:
  assumes r: "stop_inv r" and g: "rt_deinit r \<noteq> Deinit_locks" and d: "deinit_step r = Some r'"
  shows "steps_left r' < steps_left r"
proof (cases "rt_deinit r")
  case (Deinit_join i)
  then have "i < length (rt_sched r)" using r by (simp add: stop_inv_def)
  then show ?thesis using Deinit_join d by (auto simp: steps_left_def deinit_step_def next_join_def split: if_splits)
next
  case Deinit_timer
  then show ?thesis using d by (cases "rt_timer r") (auto simp: steps_left_def deinit_step_def signal_timer_def)
qed (use g d in \<open>auto simp: steps_left_def deinit_step_def next_join_def split: if_splits\<close>)

lemma runtime_step_left:
  assumes "runtime_step r r'" and r: "stop_inv r" and g: "rt_deinit r \<noteq> Deinit_locks"
  shows "steps_left r' < steps_left r"
proof -
  have n: "nothing_queued (rt_world r)" and g': "g_stop (g_melon (rt_world r)) \<noteq> 0" using r g by (simp_all add: stop_inv_def)
  show ?thesis using assms(1)
  proof cases
    case (step_sched i p w)
    have "sched_left p < sched_left (rt_sched r ! i)" by (rule stop_inv_turn [OF r step_sched(2)]) (use step_sched(3,4) g in simp)
    then show ?thesis using sum_list_map_update [OF step_sched(2), of sched_left p] step_sched(1) by (simp add: steps_left_def)
  next
    case (step_timer time t w)
    then have "timer_left t < timer_left (rt_timer r)" using g' timer_loop_nothing_queued [OF n] by (auto split: timer_pc.splits)
    then show ?thesis using step_timer(1) by (simp add: steps_left_def)
  next
    case (step_io res p w)
    then have "io_left p < io_left (rt_io r)" using g' io_loop_nothing_queued [OF n step_io(3)] by (auto split: io_pc.splits if_splits)
    then show ?thesis using step_io(1) by (simp add: steps_left_def)
  next
    case step_cancel
    then show ?thesis by (auto simp: steps_left_def)
  next
    case step_deinit
    then show ?thesis using deinit_step_left [OF r g] by simp
  qed
qed

lemma runtime_step_stays:
  assumes "runtime_step r r'" and "rt_deinit r \<noteq> Deinit_locks"
  shows "rt_deinit r' \<noteq> Deinit_locks"
  using assms by cases (auto simp: deinit_step_def next_join_def split: deinit_pc.splits if_splits)

lemma stopped_run:
  assumes "(runtime_step ^^ n) r q" and "stop_inv r" and "rt_deinit r \<noteq> Deinit_locks"
  shows "stop_inv q \<and> rt_deinit q \<noteq> Deinit_locks \<and> n + steps_left q \<le> steps_left r"
  using assms(1)
proof (induction n arbitrary: q)
  case 0
  then show ?case using assms by simp
next
  case (Suc n)
  then obtain q1 where q1: "(runtime_step ^^ n) r q1" "runtime_step q1 q" by auto
  note I = Suc.IH [OF q1(1)]
  from runtime_step_inv [OF q1(2)] runtime_step_left [OF q1(2)] runtime_step_stays [OF q1(2)] I show ?case by simp
qed

lemma steps_left_bound:
  assumes "stop_inv r" and "rt_deinit r \<noteq> Deinit_locks"
  shows "steps_left r \<le> 3 * length (rt_sched r) + 10"
proof -
  have "sched_left p \<le> 2" if "p \<in> set (rt_sched r)" for p using assms that by (cases p) (auto simp: stop_inv_def)
  then have "sum_list (map sched_left (rt_sched r)) \<le> sum_list (map (\<lambda>_. 2) (rt_sched r))" by (rule sum_list_mono)
  moreover have "timer_left (rt_timer r) \<le> 2" by (cases "rt_timer r") simp_all
  moreover have "io_left (rt_io r) \<le> 3" by (cases "rt_io r") simp_all
  moreover have "deinit_left (length (rt_sched r)) (rt_deinit r) \<le> length (rt_sched r) + 5" using assms(2) by (cases "rt_deinit r") simp_all
  ultimately show ?thesis by (simp add: steps_left_def sum_list_triv)
qed

section \<open>No thread is left behind\<close>

definition all_done :: "runtime \<Rightarrow> bool" where
  "all_done r \<longleftrightarrow> rt_deinit r = Deinit_joined \<and> rt_io r = Io_done \<and> rt_timer r = Timer_done \<and> (\<forall>p \<in> set (rt_sched r). p = Sched_done)"

lemma joined_all_done: "stop_inv r \<Longrightarrow> rt_deinit r = Deinit_joined \<Longrightarrow> all_done r"
  by (auto simp: stop_inv_def all_done_def in_set_conv_nth)

lemma runtime_not_stuck:
  assumes r: "stop_inv r" and d: "rt_deinit r \<noteq> Deinit_joined"
  shows "\<exists>r'. runtime_step r r'"
proof -
  have n: "nothing_queued (rt_world r)" using r by (simp add: stop_inv_def)
  consider "deinit_step r \<noteq> None" | "rt_deinit r = Deinit_io_join" "rt_io r \<noteq> Io_done"
    | "rt_deinit r = Deinit_timer_join" "rt_timer r \<noteq> Timer_done" | i where "rt_deinit r = Deinit_join i" "rt_sched r ! i \<noteq> Sched_done"
    using d by (cases "rt_deinit r"; fastforce simp: deinit_step_def)
  then show ?thesis
  proof cases
    case 1
    then show ?thesis using step_deinit by blast
  next
    case 2
    then show ?thesis using step_io [of r None] io_loop_nothing_queued [OF n, of None] by auto
  next
    case 3
    then show ?thesis using step_timer [of r] timer_loop_nothing_queued [OF n] by blast
  next
    case 4
    then have "i < length (rt_sched r)" using r by (simp add: stop_inv_def)
    then show ?thesis by (rule stop_inv_turn [OF r]) (use step_sched [of i r] 4(2) \<open>i < length (rt_sched r)\<close> in blast)
  qed
qed

section \<open>Properties\<close>

text \<open>
  The state in which \<^verbatim>\<open>melon_deinit\<close> is called: no fiber is counted any more, and the threads
  are anywhere in their loops; some may still have to leave the fibers that ended last.
\<close>

definition before_stop :: "runtime \<Rightarrow> bool" where
  "before_stop r \<longleftrightarrow> g_fibers_count (g_melon (rt_world r)) = 0 \<and> nothing_queued (rt_world r) \<and> g_stop (g_melon (rt_world r)) = 0 \<and> rt_deinit r = Deinit_locks \<and>
     parting (rt_world r) (on_fibers (rt_sched r)) \<and> once (rt_sched r)"

lemma before_stop_inv: "before_stop r \<Longrightarrow> stop_inv r"
  by (auto simp: before_stop_def stop_inv_def)

text \<open>One thread sleeps, one starts its loop, one has the last fiber to destroy, and the managers' threads wait.\<close>

definition ex_runtime :: runtime where
  "ex_runtime = \<lparr>rt_world = ex_world\<lparr>fibers := [1 \<mapsto> a_fiber\<lparr>f_ss_sp := 100, f_sched_next_cb := Sched_cb_fiber_destroy, f_sched_next_ctx := 1\<rparr>],
       g_melon := (g_melon ex_world)\<lparr>g_fibers_count := 0\<rparr>, stacks := (stacks ex_world)\<lparr>stack_mem := [100 \<mapsto> NULL]\<rparr>\<rparr>,
     rt_sched = [Sched_asleep, Sched_head, Sched_on_fiber 1], rt_timer = Timer_asleep, rt_io = Io_waits, rt_cancel = False, rt_deinit = Deinit_locks\<rparr>"

lemma ex_before_stop: "before_stop ex_runtime"
proof -
  have o: "on_fibers (rt_sched ex_runtime) = {1}" by (auto simp: on_fibers_def ex_runtime_def)
  have "stack_inv (stacks (rt_world ex_runtime)) [] {100}" by (simp add: ex_runtime_def stack_inv_def ex_world_def)
  moreover have "\<exists>f. quits (rt_world ex_runtime) {100} 1 f" by (simp add: quits_def ex_runtime_def a_fiber_def)
  ultimately have "parting (rt_world ex_runtime) (on_fibers (rt_sched ex_runtime))" unfolding parting_def o by auto
  moreover have "once (rt_sched ex_runtime)" by (auto simp: once_def ex_runtime_def less_Suc_eq numeral_3_eq_3)
  ultimately show ?thesis by (auto simp: before_stop_def nothing_queued_def ex_runtime_def ex_world_def split: if_splits)
qed





end
