(* ===== verification/Melon_Ucontext.thy ===== *)
theory Melon_Ucontext
  imports Melon_Prelude
begin

unbundle bit_operations_syntax

text \<open>
  The contexts that the runtime swaps on Windows (\<^verbatim>\<open>src/ucontext_win32.c\<close>). The code
  is for 32 bit processors: addresses are 32 bit words, memory is a function from addresses
  to bytes, and pointers wrap around. Of \<^verbatim>\<open>CONTEXT\<close> the code names three members;
  \<^verbatim>\<open>CONTEXT_FULL\<close> is the parameter \<open>full\<close>, and what \<^verbatim>\<open>GetThreadContext\<close> and
  \<^verbatim>\<open>SetThreadContext\<close> do are the parameters \<open>gtc\<close> and \<open>stc\<close>.
\<close>

type_synonym addr = "32 word"
type_synonym memory = "addr \<Rightarrow> 8 word"

record stack_t =
  ss_sp :: addr
  ss_size :: "32 word"
  ss_flags :: int

record mcontext_t =
  ContextFlags :: "32 word"
  Eip :: addr
  Esp :: addr

record ucontext_t =
  uc_flags :: "32 word"
  uc_link :: addr
  uc_stack :: stack_t
  uc_mcontext :: mcontext_t
  uc_sigmask :: "32 word"

definition getcontext :: "(mcontext_t \<Rightarrow> int \<times> mcontext_t) \<Rightarrow> 32 word \<Rightarrow> ucontext_t \<Rightarrow> int \<times> ucontext_t" where
  "getcontext gtc full ucp =
    (let (ret, ctx) = gtc ((uc_mcontext ucp)\<lparr>ContextFlags := full\<rparr>) in
     (if ret = 0 then -1 else 0, ucp\<lparr>uc_mcontext := ctx\<rparr>))"

text \<open>The second component is what the thread goes on with, when the call succeeds.\<close>

definition setcontext :: "(mcontext_t \<Rightarrow> int) \<Rightarrow> ucontext_t \<Rightarrow> int \<times> mcontext_t option" where
  "setcontext stc ucp = (if stc (uc_mcontext ucp) = 0 then (-1, None) else (0, Some (uc_mcontext ucp)))"

text \<open>A context that is not given is a NULL pointer.\<close>

definition swapcontext ::
    "(mcontext_t \<Rightarrow> int \<times> mcontext_t) \<Rightarrow> (mcontext_t \<Rightarrow> int) \<Rightarrow> 32 word \<Rightarrow> ucontext_t option \<Rightarrow> ucontext_t option \<Rightarrow>
      int \<times> ucontext_t option \<times> mcontext_t option" where
  "swapcontext gtc stc full oucp ucp =
    (case (oucp, ucp) of
       (Some o', Some u) \<Rightarrow>
         let (ret, o') = getcontext gtc full o' in
         if ret = 0 then let (ret, ctx) = setcontext stc u in (ret, Some o', ctx)
         else (ret, Some o', None)
     | _ \<Rightarrow> (-1, oucp, None))"

definition memcpy8 :: "addr \<Rightarrow> addr \<Rightarrow> memory \<Rightarrow> memory" where
  "memcpy8 dst src mem = (\<lambda>a. if a - dst < 8 then mem (src + (a - dst)) else mem a)"

text \<open>The loop that copies the arguments; \<open>ap\<close> is the address of the first of them.\<close>

fun copy_args :: "nat \<Rightarrow> addr \<Rightarrow> addr \<Rightarrow> memory \<Rightarrow> memory" where
  "copy_args 0 sp ap mem = mem"
| "copy_args (Suc n) sp ap mem = copy_args n (sp + 8) (ap + 8) (memcpy8 sp ap mem)"

definition makecontext :: "32 word \<Rightarrow> ucontext_t \<Rightarrow> addr \<Rightarrow> int \<Rightarrow> addr \<Rightarrow> memory \<Rightarrow> (int \<times> ucontext_t \<times> memory) res" where
  "makecontext full ucp func argc ap mem =
    (if \<not> (- (2 ^ 31) \<le> argc * 8 \<and> argc * 8 < 2 ^ 31) then Inl Signed_overflow
     else
       let sp = ss_sp (uc_stack ucp) + ss_size (uc_stack ucp);
           sp = sp - word_of_int (argc * 8) in
       if sp < ss_sp (uc_stack ucp) then Inr (-1, ucp, mem)
       else
         let ucp = ucp\<lparr>uc_mcontext := (uc_mcontext ucp)\<lparr>Eip := func, Esp := sp - 4, ContextFlags := full\<rparr>\<rparr> in
         Inr (0, ucp, copy_args (nat argc) sp ap mem))"

section \<open>The copy of the arguments\<close>

lemma copy_args_spec:
  assumes "8 * n \<le> 2 ^ 32" and "\<And>i j. i < 8 * n \<Longrightarrow> j < 8 * n \<Longrightarrow> ap + word_of_nat i \<noteq> sp + word_of_nat j"
  shows "copy_args n sp ap mem a = (if unat (a - sp) < 8 * n then mem (ap + (a - sp)) else mem a)"
  using assms
proof (induction n arbitrary: sp ap mem)
  case (Suc n)
  let ?d = "a - sp" and ?m = "memcpy8 sp ap mem"
  have dj: "ap + 8 + word_of_nat i \<noteq> sp + 8 + word_of_nat j" if "i < 8 * n" "j < 8 * n" for i j
    using Suc.prems(2) [of "i + 8" "j + 8"] that by (simp add: algebra_simps)
  have ih: "copy_args (Suc n) sp ap mem a = (if unat (?d - 8) < 8 * n then ?m (ap + ?d) else ?m a)"
    using Suc.IH [OF _ dj, of ?m] Suc.prems(1) by (simp add: algebra_simps)
  have m: "?m b = (if unat (b - sp) < 8 then mem (ap + (b - sp)) else mem b)" for b
    by (simp add: memcpy8_def word_less_nat_alt)
  show ?case
  proof (cases "unat ?d < 8")
    case True
    then have "unat (?d - 8) = 2 ^ 32 + unat ?d - 8" by (simp add: unat_sub_if_size word_size)
    then have "\<not> unat (?d - 8) < 8 * n" using Suc.prems(1) by simp
    then show ?thesis unfolding ih m using True by simp
  next
    case False
    then have d: "unat (?d - 8) = unat ?d - 8" by (simp add: unat_sub_if_size word_size)
    show ?thesis
    proof (cases "unat ?d < 8 * Suc n")
      case True
      have "\<not> unat (ap + ?d - sp) < 8"
      proof
        assume l: "unat (ap + ?d - sp) < 8"
        have "ap + word_of_nat (unat ?d) = sp + word_of_nat (unat (ap + ?d - sp))" by (simp add: algebra_simps)
        with Suc.prems(2) [of "unat ?d" "unat (ap + ?d - sp)"] True l show False by simp
      qed
      moreover have "unat (?d - 8) < 8 * n" unfolding d using True False by (simp add: less_diff_conv2)
      ultimately show ?thesis unfolding ih m using True by simp
    next
      case False': False
      then have "\<not> unat (?d - 8) < 8 * n" unfolding d using False by (simp add: less_diff_conv2)
      then show ?thesis unfolding ih m using False False' by simp
    qed
  qed
qed simp

section \<open>Properties\<close>

text \<open>
  C37: \<^verbatim>\<open>makecontext\<close> on a stack that does not wrap around: it refuses exactly when
  the arguments need more room than the stack has, and then changes nothing. Otherwise
  the context starts at the function, the arguments are at the top of the stack as the
  caller gave them, no byte outside the stack is written, and nothing else of the context
  changes. The stack pointer is one word below the arguments.
\<close>

theorem makecontext_correct:
  fixes n :: nat
  assumes wrap: "unat (ss_sp (uc_stack ucp)) + unat (ss_size (uc_stack ucp)) < 2 ^ 32"
    and n: "8 * n < 2 ^ 31" "8 * n \<le> unat (ss_sp (uc_stack ucp)) + unat (ss_size (uc_stack ucp))"
  defines "hi \<equiv> ss_sp (uc_stack ucp) + ss_size (uc_stack ucp)"
  defines "sp \<equiv> hi - word_of_nat (8 * n)"
  assumes dj: "\<And>i j. i < 8 * n \<Longrightarrow> j < 8 * n \<Longrightarrow> ap + word_of_nat i \<noteq> sp + word_of_nat j"
  shows "if unat (ss_size (uc_stack ucp)) < 8 * n then makecontext full ucp func (int n) ap mem = Inr (-1, ucp, mem)
    else \<exists>mem'. makecontext full ucp func (int n) ap mem =
        Inr (0, ucp\<lparr>uc_mcontext := (uc_mcontext ucp)\<lparr>Eip := func, Esp := sp - 4, ContextFlags := full\<rparr>\<rparr>, mem') \<and>
      ss_sp (uc_stack ucp) \<le> sp \<and> (\<forall>a. \<not> (sp \<le> a \<and> a < hi) \<longrightarrow> mem' a = mem a) \<and>
      (\<forall>i < 8 * n. mem' (sp + word_of_nat i) = mem (ap + word_of_nat i))"
proof -
  have ov: "- (2 ^ 31) \<le> int n * 8 \<and> int n * 8 < 2 ^ 31" using n(1) by simp
  have w: "hi - word_of_nat n * 8 = sp" by (simp add: sp_def mult.commute)
  have t: "unat hi = unat (ss_sp (uc_stack ucp)) + unat (ss_size (uc_stack ucp))" using wrap by (simp add: hi_def unat_plus_if_size word_size)
  have u: "unat (word_of_nat (8 * n) :: addr) = 8 * n" unfolding unat_of_nat using n(1) by (intro mod_less) simp
  have s: "unat sp = unat hi - 8 * n" using n(2) t u by (simp add: sp_def unat_sub_if_size)
  have c: "sp < ss_sp (uc_stack ucp) \<longleftrightarrow> unat (ss_size (uc_stack ucp)) < 8 * n"
    using s t n(2) by (auto simp: word_less_nat_alt)
  show ?thesis
  proof (cases "unat (ss_size (uc_stack ucp)) < 8 * n")
    case True
    then show ?thesis using ov c by (simp add: makecontext_def hi_def [symmetric] w Let_def)
  next
    case False
    have cp: "copy_args n sp ap mem a = (if unat (a - sp) < 8 * n then mem (ap + (a - sp)) else mem a)" for a
      by (rule copy_args_spec) (use n(1) dj in auto)
    have "copy_args n sp ap mem a = mem a" if "\<not> (sp \<le> a \<and> a < hi)" for a
    proof -
      have "\<not> unat (a - sp) < 8 * n"
        using that s t n False wrap by (auto simp: word_less_nat_alt word_le_nat_alt unat_sub_if_size word_size)
      then show ?thesis by (simp add: cp)
    qed
    moreover have "copy_args n sp ap mem (sp + word_of_nat i) = mem (ap + word_of_nat i)" if "i < 8 * n" for i
    proof -
      have "unat (word_of_nat i :: addr) = i" using that n(1) by (simp add: unat_of_nat take_bit_nat_eq_self)
      then show ?thesis using that by (simp add: cp)
    qed
    ultimately show ?thesis using False ov c
      by (simp add: makecontext_def hi_def [symmetric] w Let_def not_less)
  qed
qed

text \<open>A stack of 64 bytes at address 4096, and two arguments at address 256.\<close>

definition ex_ucontext :: ucontext_t where
  "ex_ucontext = \<lparr>uc_flags = 0, uc_link = 0, uc_stack = \<lparr>ss_sp = 4096, ss_size = 64, ss_flags = 0\<rparr>,
     uc_mcontext = \<lparr>ContextFlags = 0, Eip = 0, Esp = 0\<rparr>, uc_sigmask = 0\<rparr>"

theorem makecontext_correct_witness:
  "\<exists>u mem'. makecontext 7 ex_ucontext 9000 2 256 (\<lambda>a. ucast a) = Inr (0, u, mem') \<and> Eip (uc_mcontext u) = 9000 \<and>
    Esp (uc_mcontext u) = 4140 \<and> mem' 4144 = 0 \<and> mem' 4145 = 1"
proof -
  have d: "256 + word_of_nat i \<noteq> (4096 + 64 - word_of_nat (8 * 2) + word_of_nat j :: addr)" if "i < 8 * 2" "j < 8 * 2" for i j
  proof
    assume e: "256 + word_of_nat i = (4096 + 64 - word_of_nat (8 * 2) + word_of_nat j :: addr)"
    have "unat (256 + word_of_nat i :: addr) = 256 + i" "unat (4144 + word_of_nat j :: addr) = 4144 + j"
      using that by (simp_all add: unat_plus_if_size word_size unat_of_nat take_bit_nat_eq_self)
    with e that show False by simp
  qed
  have "\<not> unat (ss_size (uc_stack ex_ucontext)) < 8 * 2" by (simp add: ex_ucontext_def)
  then obtain mem' where m: "makecontext 7 ex_ucontext 9000 (int 2) 256 (\<lambda>a. ucast a) =
      Inr (0, ex_ucontext\<lparr>uc_mcontext := (uc_mcontext ex_ucontext)\<lparr>Eip := 9000, Esp := 4140, ContextFlags := 7\<rparr>\<rparr>, mem')"
    "\<And>i. i < 16 \<Longrightarrow> mem' (4144 + word_of_nat i) = ucast (256 + word_of_nat i :: addr)"
    using makecontext_correct [of ex_ucontext 2 256 7 9000 "\<lambda>a. ucast a"] d by (auto simp: ex_ucontext_def)
  have "mem' 4144 = 0" "mem' 4145 = 1" using m(2) [of 0] m(2) [of 1] by simp_all
  with m(1) show ?thesis by auto
qed

text \<open>
  A swap saves the running context before it restores the other one; when a context
  is NULL or saving fails nothing is restored, and the result tells.
\<close>

theorem swapcontext_saves_first:
  "swapcontext gtc stc full oucp ucp = (ret, oucp', restored) \<Longrightarrow>
    (restored = None \<longleftrightarrow> ret = -1) \<and> (ret = 0 \<or> ret = -1) \<and>
    (restored \<noteq> None \<longrightarrow> (\<exists>o1 u r ctx. oucp = Some o1 \<and> ucp = Some u \<and> gtc ((uc_mcontext o1)\<lparr>ContextFlags := full\<rparr>) = (r, ctx) \<and>
       r \<noteq> 0 \<and> oucp' = Some (o1\<lparr>uc_mcontext := ctx\<rparr>) \<and> restored = Some (uc_mcontext u)))"
  by (auto simp: swapcontext_def getcontext_def setcontext_def split: option.splits prod.splits if_splits)

theorem swapcontext_saves_first_witness:
  "\<exists>o2. swapcontext (\<lambda>m. (1, m\<lparr>Esp := 8\<rparr>)) (\<lambda>_. 1) 7 (Some ex_ucontext) (Some ex_ucontext) = (0, Some o2, Some (uc_mcontext ex_ucontext)) \<and>
    uc_mcontext o2 = \<lparr>ContextFlags = 7, Eip = 0, Esp = 8\<rparr>"
proof -
  obtain ret o2 res where s: "swapcontext (\<lambda>m. (1, m\<lparr>Esp := 8\<rparr>)) (\<lambda>_. 1) 7 (Some ex_ucontext) (Some ex_ucontext) = (ret, o2, res)" using prod_cases3 by blast
  then have "res \<noteq> None" by (auto simp: swapcontext_def getcontext_def setcontext_def)
  with swapcontext_saves_first [OF s] s show ?thesis by (auto simp: ex_ucontext_def)
qed

end
