(* ===== verification/Melon_Barrier.thy ===== *)
theory Melon_Barrier
  imports Melon_Cond
begin

text \<open>
  The barrier of \<^verbatim>\<open>src/barrier.c\<close>: a counter updated atomically, a mutex and a
  condition on which the fibers wait for the counter to reach zero.
\<close>

definition melon_barrierattr_init :: "int \<times> ptr" where
  "melon_barrierattr_init = (0, NULL)"

definition mod_barrier :: "ptr \<Rightarrow> (melon_barrier \<Rightarrow> melon_barrier) \<Rightarrow> world \<Rightarrow> world res" where
  "mod_barrier p f w = res_bind (store (barriers w) p f) (\<lambda>h. Inr (w\<lparr>barriers := h\<rparr>))"

text \<open>
  \<open>malloc\<close>, \<open>mutex\<close> and \<open>cond\<close> are what the three allocations return, \<open>mem\<close> is the
  content of the memory of the barrier.
\<close>

definition melon_barrier_init :: "ptr \<Rightarrow> melon_barrier \<Rightarrow> ptr \<Rightarrow> ptr \<Rightarrow> 32 word \<Rightarrow> world \<Rightarrow> (int \<times> ptr \<times> world) res" where
  "melon_barrier_init malloc mem mutex cond nb w =
    (if malloc = NULL then Inr (-1, NULL, w)
     else (case melon_mutex_init mutex None (w\<lparr>barriers := (barriers w)(malloc \<mapsto> mem)\<rparr>) of (ret, m, w) \<Rightarrow>
       res_bind (mod_barrier malloc (\<lambda>b. b\<lparr>b_lock := m\<rparr>) w) (\<lambda>w.
       if ret \<noteq> 0 then Inr (-1, malloc, w\<lparr>barriers := (barriers w)(malloc := None)\<rparr>)
       else (case melon_cond_init cond w of (ret, c, w) \<Rightarrow>
         res_bind (mod_barrier malloc (\<lambda>b. b\<lparr>b_cond := c\<rparr>) w) (\<lambda>w.
         if ret \<noteq> 0
         then
           res_bind (melon_mutex_destroy m w) (\<lambda>w.
           Inr (-1, malloc, w\<lparr>barriers := (barriers w)(malloc := None)\<rparr>))
         else
           res_bind (mod_barrier malloc (\<lambda>b. b\<lparr>b_count := nb\<rparr>) w) (\<lambda>w.
           Inr (0, malloc, w)))))))"

definition barrier_destroy_locked :: "ptr \<Rightarrow> world \<Rightarrow> (unit outcome \<times> world) res" where
  "barrier_destroy_locked barrier w =
    res_bind (load (barriers w) barrier) (\<lambda>b.
    res_bind (melon_mutex_unlock (b_lock b) w) (\<lambda>w.
    res_bind (melon_cond_destroy (b_cond b) w) (\<lambda>w.
    res_bind (melon_mutex_destroy (b_lock b) w) (\<lambda>w.
    Inr (Returned 0, w\<lparr>barriers := (barriers w)(barrier := None)\<rparr>)))))"

definition melon_barrier_destroy :: "ptr \<Rightarrow> world \<Rightarrow> (unit outcome \<times> world) res" where
  "melon_barrier_destroy barrier w =
    res_bind (load (barriers w) barrier) (\<lambda>b.
    chain (melon_mutex_lock (b_lock b) w) () (barrier_destroy_locked barrier))"

definition melon_barrier_add :: "ptr \<Rightarrow> 32 word \<Rightarrow> world \<Rightarrow> world res" where
  "melon_barrier_add barrier nb w = mod_barrier barrier (\<lambda>b. b\<lparr>b_count := b_count b + nb\<rparr>) w"

definition barrier_release_locked :: "ptr \<Rightarrow> world \<Rightarrow> (unit outcome \<times> world) res" where
  "barrier_release_locked barrier w =
    res_bind (load (barriers w) barrier) (\<lambda>b.
    res_bind (melon_cond_broadcast (b_cond b) w) (\<lambda>(_, w).
    res_bind (melon_mutex_unlock (b_lock b) w) (\<lambda>w.
    Inr (Returned 0, w))))"

definition melon_barrier_release :: "ptr \<Rightarrow> 32 word \<Rightarrow> world \<Rightarrow> (unit outcome \<times> world) res" where
  "melon_barrier_release barrier nb w =
    res_bind (load (barriers w) barrier) (\<lambda>b.
    assert_that (nb \<le> b_count b) (
    res_bind (mod_barrier barrier (\<lambda>b. b\<lparr>b_count := b_count b - nb\<rparr>) w) (\<lambda>w.
    if b_count b - nb = 0
    then chain (melon_mutex_lock (b_lock b) w) () (barrier_release_locked barrier)
    else Inr (Returned 0, w))))"

text \<open>The two points of suspension of \<^verbatim>\<open>melon_barrier_wait\<close>.\<close>

datatype barrier_k = B_lock | B_wait

definition barrier_wait_end :: "ptr \<Rightarrow> world \<Rightarrow> (barrier_k outcome \<times> world) res" where
  "barrier_wait_end barrier w =
    res_bind (mod_barrier barrier (\<lambda>b. b\<lparr>b_count := b_count b + 1\<rparr>) w) (\<lambda>w.
    res_bind (load (barriers w) barrier) (\<lambda>b.
    res_bind (melon_mutex_unlock (b_lock b) w) (\<lambda>w.
    Inr (Returned 0, w))))"

definition barrier_wait_locked :: "ptr \<Rightarrow> world \<Rightarrow> (barrier_k outcome \<times> world) res" where
  "barrier_wait_locked barrier w =
    res_bind (mod_barrier barrier (\<lambda>b. b\<lparr>b_count := b_count b - 1\<rparr>) w) (\<lambda>w.
    res_bind (load (barriers w) barrier) (\<lambda>b.
    if b_count b = 0
    then res_bind (melon_cond_broadcast (b_cond b) w) (\<lambda>(_, w). barrier_wait_end barrier w)
    else chain (melon_cond_wait (b_cond b) (b_lock b) w) B_wait (barrier_wait_end barrier)))"

definition melon_barrier_wait :: "ptr \<Rightarrow> world \<Rightarrow> (barrier_k outcome \<times> world) res" where
  "melon_barrier_wait barrier w =
    res_bind (load (barriers w) barrier) (\<lambda>b.
    chain (melon_mutex_lock (b_lock b) w) B_lock (barrier_wait_locked barrier))"

definition melon_barrier_wait_resume :: "barrier_k \<Rightarrow> ptr \<Rightarrow> world \<Rightarrow> (barrier_k outcome \<times> world) res" where
  "melon_barrier_wait_resume k barrier w =
    (case k of B_lock \<Rightarrow> barrier_wait_locked barrier w | B_wait \<Rightarrow> barrier_wait_end barrier w)"

end
