(* ===== verification/Melon_Barrier_Properties.thy ===== *)
theory Melon_Barrier_Properties
  imports Melon_Monitor Melon_Barrier
begin

text \<open>
  The properties of the barrier (\<^verbatim>\<open>src/barrier.c\<close>), with concrete instances.
\<close>

abbreviation set_barriers :: "(ptr \<rightharpoonup> melon_barrier) \<Rightarrow> world \<Rightarrow> world" where
  "set_barriers h w \<equiv> w\<lparr>barriers := h\<rparr>"

interpretation barrier: client_data barriers set_barriers
  by unfold_locales (simp_all add: rep_other_upd(5) sp_lift_def)

abbreviation sp_barrier :: "ptr \<Rightarrow> (melon_barrier \<Rightarrow> melon_barrier) \<Rightarrow> spec \<Rightarrow> spec" where
  "sp_barrier \<equiv> sp_data barriers set_barriers"

text \<open>The barrier has its mutex and its condition, and nobody is inside.\<close>

definition barrier_ready :: "spec \<Rightarrow> ptr \<Rightarrow> melon_barrier \<Rightarrow> bool" where
  "barrier_ready s p b \<longleftrightarrow> barriers (sp_world s) p = Some b \<and> monitor s (b_lock b) \<and> owner s (b_lock b) = NULL \<and>
     room s (b_lock b) (b_cond b) \<and> runs s"

section \<open>Refinement\<close>

lemma barrier_wait_end_refines:
  assumes r: "rep w s" and b: "barriers (sp_world s) p = Some b" and m: "monitor s (b_lock b)" "held s (b_lock b)" "runs s"
  shows "wp (barrier_wait_end p w) (yields (Returned 0, sp_unlock (b_lock b) (sp_barrier p (\<lambda>b. b\<lparr>b_count := b_count b + 1\<rparr>) s)))"
proof -
  have bw: "barriers w p = Some b" using b barrier.heap_rep [OF r] by simp
  let ?w = "set_barriers ((barriers w)(p \<mapsto> b\<lparr>b_count := b_count b + 1\<rparr>)) w"
  have r1: "rep ?w (sp_barrier p (\<lambda>b. b\<lparr>b_count := b_count b + 1\<rparr>) s)"
    using barrier.rep_write [OF r bw, of "\<lambda>b. b\<lparr>b_count := b_count b + 1\<rparr>"] by simp
  from unlock_held [OF r1, of "b_lock b"] m bw show ?thesis
    by (auto simp: barrier_wait_end_def mod_barrier_def wp_def yields_def)
qed

text \<open>The fiber has the mutex and has counted itself.\<close>

definition sp_arrive :: "ptr \<Rightarrow> melon_barrier \<Rightarrow> spec \<Rightarrow> spec" where
  "sp_arrive p b s = sp_barrier p (\<lambda>b. b\<lparr>b_count := b_count b - 1\<rparr>) (snd (sp_lock (b_lock b) s))"

lemma arrive_keeps:
  assumes "barrier_ready s p b"
  shows "monitor (sp_arrive p b s) (b_lock b)" "held (sp_arrive p b s) (b_lock b)" "runs (sp_arrive p b s)"
    "room (sp_arrive p b s) (b_lock b) (b_cond b)" "barriers (sp_world (sp_arrive p b s)) p = Some (b\<lparr>b_count := b_count b - 1\<rparr>)"
    "sp_queues (sp_arrive p b s) = sp_queues s" "sp_self (sp_arrive p b s) = sp_self s"
  using monitor_lock_free [of s "b_lock b"] assms by (simp_all add: barrier_ready_def sp_arrive_def)

lemma arrive:
  assumes r: "rep w s" and b: "barrier_ready s p b"
  obtains w' where "rep w' (sp_arrive p b s)" and "melon_barrier_wait p w = (if b_count b = 1
      then res_bind (melon_cond_broadcast (b_cond b) w') (\<lambda>(_, w). barrier_wait_end p w)
      else chain (melon_cond_wait (b_cond b) (b_lock b) w') B_wait (barrier_wait_end p))"
proof -
  have b': "barriers (sp_world s) p = Some b" and m: "monitor s (b_lock b)" "owner s (b_lock b) = NULL" "runs s"
    using b by (simp_all add: barrier_ready_def)
  obtain w1 where w1: "melon_mutex_lock (b_lock b) w = Inr (Returned 0, w1)" "rep w1 (snd (sp_lock (b_lock b) s))"
    using lock_free [OF r m] by (auto simp: wp_yields)
  let ?b = "b\<lparr>b_count := b_count b - 1\<rparr>"
  have bw: "barriers w p = Some b" "barriers w1 p = Some b" using b' barrier.heap_rep [OF r] barrier.heap_rep [OF w1(2)] by simp_all
  show thesis
  proof (rule that [of "set_barriers ((barriers w1)(p \<mapsto> ?b)) w1"])
    show "rep (set_barriers ((barriers w1)(p \<mapsto> ?b)) w1) (sp_arrive p b s)"
      using barrier.rep_write [OF w1(2) bw(2), of "\<lambda>b. b\<lparr>b_count := b_count b - 1\<rparr>"] by (simp add: sp_arrive_def)
  qed (use bw w1(1) in \<open>simp add: melon_barrier_wait_def barrier_wait_locked_def chain_def mod_barrier_def\<close>)
qed

lemma barrier_wait_last:
  assumes r: "rep w s" and b: "barrier_ready s p b" "b_count b = 1"
  obtains w' t where "melon_barrier_wait p w = Inr (Returned 0, w')" and "rep w' t" and "monitor t (b_lock b)"
    and "room t (b_lock b) (b_cond b)" and "barriers (sp_world t) p = Some b"
    and "sp_queues t = (let xs = sp_queues s (Q_lock (b_lock b)) @ sp_queues s (Q_wait (b_cond b)) in
      (sp_queues s)(Q_wait (b_cond b) := [], Q_lock (b_lock b) := tl xs, Q_ready := sp_queues s Q_ready @ take 1 xs))"
proof -
  let ?m = "b_lock b" and ?c = "b_cond b" and ?s = "sp_arrive p b s"
  note a = arrive_keeps [OF b(1)]
  obtain w2 where w2: "rep w2 ?s" "melon_barrier_wait p w = res_bind (melon_cond_broadcast ?c w2) (\<lambda>(_, w). barrier_wait_end p w)"
    by (rule arrive [OF r b(1)]) (use b(2) in simp)
  obtain n w3 where w3: "melon_cond_broadcast ?c w2 = Inr (n, w3)" "rep w3 (sp_broadcast ?c ?s)"
    using broadcast_held [OF w2(1) a(1-4)] by (auto simp: wp_def)
  note h = monitor_broadcast [OF w2(1) a(1-4)]
  let ?t = "sp_barrier p (\<lambda>b. b\<lparr>b_count := b_count b + 1\<rparr>) (sp_broadcast ?c ?s)"
  have b3: "barriers (sp_world (sp_broadcast ?c ?s)) p = Some (b\<lparr>b_count := 0\<rparr>)" using a(5) b(2) by simp
  obtain w' where w': "barrier_wait_end p w3 = Inr (Returned 0, w')" "rep w' (sp_unlock ?m ?t)"
    using barrier_wait_end_refines [OF w3(2) b3] h(1-3) by (auto simp: wp_yields)
  have "barriers w3 p = Some (b\<lparr>b_count := 0\<rparr>)" using b3 barrier.heap_rep [OF w3(2)] by simp
  note u = monitor_unlock [OF barrier.rep_write [OF w3(2) this, of "\<lambda>b. b\<lparr>b_count := b_count b + 1\<rparr>"], of ?m]
  show thesis
  proof (rule that)
    show "melon_barrier_wait p w = Inr (Returned 0, w')" using w2(2) w3(1) w'(1) by simp
    show "barriers (sp_world (sp_unlock ?m ?t)) p = Some b" using b3 b(2) by simp
    show "sp_queues (sp_unlock ?m ?t) = (let xs = sp_queues s (Q_lock ?m) @ sp_queues s (Q_wait ?c) in
      (sp_queues s)(Q_wait ?c := [], Q_lock ?m := tl xs, Q_ready := sp_queues s Q_ready @ take 1 xs))"
      using u(7) h a(6) by (auto simp: fun_eq_iff Let_def)
  qed (use w'(2) u(1,5) h in simp_all)
qed

lemma barrier_wait_more:
  assumes r: "rep w s" and b: "barrier_ready s p b" "b_count b \<noteq> 1"
  obtains w' t where "melon_barrier_wait p w = Inr (Suspended B_wait, w')" and "rep w' t" and "monitor t (b_lock b)"
    and "room t (b_lock b) (b_cond b)" and "barriers (sp_world t) p = Some (b\<lparr>b_count := b_count b - 1\<rparr>)"
    and "sp_queues t (Q_wait (b_cond b)) = sp_queues s (Q_wait (b_cond b)) @ [sp_self s]"
    and "owner t (b_lock b) = (case sp_queues s (Q_lock (b_lock b)) of [] \<Rightarrow> NULL | x # _ \<Rightarrow> x)"
proof -
  note a = arrive_keeps [OF b(1)]
  obtain w2 where w2: "rep w2 (sp_arrive p b s)" "melon_barrier_wait p w = chain (melon_cond_wait (b_cond b) (b_lock b) w2) B_wait (barrier_wait_end p)"
    by (rule arrive [OF r b(1)]) (use b(2) in simp)
  obtain w' where w': "melon_cond_wait (b_cond b) (b_lock b) w2 = Inr (Suspended (), w')"
    "rep w' (snd (sp_cond_wait (b_cond b) (b_lock b) (sp_arrive p b s)))"
    using wait_held [OF w2(1) a(1-4)] by (auto simp: wp_yields)
  note h = monitor_wait [OF w2(1) a(1-4)]
  show thesis by (rule that [OF _ w'(2)]) (use w2(2) w'(1) h a in \<open>simp_all add: chain_def\<close>)
qed

section \<open>Properties\<close>

text \<open>
  C24: A fiber that comes to a barrier and is not the last one is suspended: it is queued
  last on the condition, one less is awaited, and the mutex is free for the next one. The
  last one does not wait: all the fibers that waited go to the mutex in the order of their
  arrival, the first of them has it and is ready, nobody waits on the condition, and the
  count is as it was, for the next round.
\<close>

theorem barrier_wait_correct:
  assumes r: "rep w s" and b: "barrier_ready s p b" and q: "sp_queues s (Q_lock (b_lock b)) = []"
  shows "\<exists>w' s'. rep w' s' \<and> monitor s' (b_lock b) \<and> room s' (b_lock b) (b_cond b) \<and>
    (if b_count b = 1 then melon_barrier_wait p w = Inr (Returned 0, w') \<and> barriers w' p = Some b \<and>
       sp_queues s' (Q_wait (b_cond b)) = [] \<and> sp_queues s' (Q_lock (b_lock b)) = tl (sp_queues s (Q_wait (b_cond b))) \<and>
       sp_queues s' Q_ready = sp_queues s Q_ready @ take 1 (sp_queues s (Q_wait (b_cond b)))
     else melon_barrier_wait p w = Inr (Suspended B_wait, w') \<and> barriers w' p = Some (b\<lparr>b_count := b_count b - 1\<rparr>) \<and>
       sp_queues s' (Q_wait (b_cond b)) = sp_queues s (Q_wait (b_cond b)) @ [sp_self s] \<and> owner s' (b_lock b) = NULL)"
proof (cases "b_count b = 1")
  case True
  obtain w' t where t: "melon_barrier_wait p w = Inr (Returned 0, w')" "rep w' t"
    "monitor t (b_lock b)" "room t (b_lock b) (b_cond b)" "barriers (sp_world t) p = Some b"
    "sp_queues t = (sp_queues s)(Q_wait (b_cond b) := [], Q_lock (b_lock b) := tl (sp_queues s (Q_wait (b_cond b))),
       Q_ready := sp_queues s Q_ready @ take 1 (sp_queues s (Q_wait (b_cond b))))"
    by (rule barrier_wait_last [OF r b True]) (simp add: q Let_def)
  then show ?thesis using True barrier.heap_rep [OF t(2)] by (intro exI [of _ w'] exI [of _ t]) simp
next
  case False
  obtain w' t where t: "melon_barrier_wait p w = Inr (Suspended B_wait, w')" "rep w' t"
    "monitor t (b_lock b)" "room t (b_lock b) (b_cond b)" "barriers (sp_world t) p = Some (b\<lparr>b_count := b_count b - 1\<rparr>)"
    "sp_queues t (Q_wait (b_cond b)) = sp_queues s (Q_wait (b_cond b)) @ [sp_self s]" "owner t (b_lock b) = NULL"
    by (rule barrier_wait_more [OF r b False]) (simp add: q)
  then show ?thesis using False barrier.heap_rep [OF t(2)] by (intro exI [of _ w'] exI [of _ t]) simp
qed

text \<open>Fibers 1 and 2 wait at the barrier 30, fiber 3 is the last to come.\<close>

definition ex_gate :: spec where
  "ex_gate = sp_lift (set_barriers [30 \<mapsto> \<lparr>b_lock = 10, b_cond = 20, b_count = 1\<rparr>]) (sp_current 3 ex_both)"

lemma rep_ex_gate: "\<exists>w. rep w ex_gate"
  using rep_ex_both barrier.rep_set rep_current_upd unfolding ex_gate_def by blast

lemma ex_gate_simps [simp]:
  "sp_mutex ex_gate = sp_mutex ex_both" "sp_cond ex_gate = sp_cond ex_both" "sp_fiber ex_gate = sp_fiber ex_both"
  "sp_queues ex_gate = sp_queues ex_both" "sp_timers ex_gate = sp_timers ex_both" "sp_self ex_gate = 3"
  "barriers (sp_world ex_gate) 30 = Some \<lparr>b_lock = 10, b_cond = 20, b_count = 1\<rparr>"
  by (simp_all add: ex_gate_def sp_current_def sp_lift_def)

lemma ex_gate_ready: "barrier_ready ex_gate 30 \<lparr>b_lock = 10, b_cond = 20, b_count = 1\<rparr>"
proof -
  have "mutexes_ok ex_gate" using ex_both_ok by (simp add: mutexes_ok_def)
  then show ?thesis
    using ex_both_ok(2) by (simp add: barrier_ready_def monitor_def lockers_timed_def owner_def room_def waits_with_def runs_def idle_def timed_def)
qed

theorem barrier_wait_correct_witness:
  "\<exists>w w' s'. rep w ex_gate \<and> melon_barrier_wait 30 w = Inr (Returned 0, w') \<and> rep w' s' \<and> sp_queues s' Q_ready = [1] \<and> sp_queues s' (Q_lock 10) = [2]"
proof -
  obtain w where w: "rep w ex_gate" using rep_ex_gate by blast
  from barrier_wait_correct [OF w ex_gate_ready] w show ?thesis by auto
qed

text \<open>
  \<^verbatim>\<open>melon_barrier_release\<close> counts \<^verbatim>\<open>nb\<close> arrivals without waiting. More than are
  awaited fail the assertion; fewer only lower the count; exactly as many wake all the
  fibers that wait, in the order of their arrival.
\<close>

theorem barrier_release_correct:
  assumes r: "rep w s" and b: "barrier_ready s p b" and q: "sp_queues s (Q_lock (b_lock b)) = []"
  shows "if b_count b < nb then melon_barrier_release p nb w = Inl Assert_failed
    else \<exists>w' s'. melon_barrier_release p nb w = Inr (Returned 0, w') \<and> rep w' s' \<and>
      barriers w' p = Some (b\<lparr>b_count := b_count b - nb\<rparr>) \<and>
      (if nb = b_count b then sp_queues s' (Q_wait (b_cond b)) = [] \<and> sp_queues s' (Q_lock (b_lock b)) = tl (sp_queues s (Q_wait (b_cond b))) \<and>
         sp_queues s' Q_ready = sp_queues s Q_ready @ take 1 (sp_queues s (Q_wait (b_cond b)))
       else sp_queues s' = sp_queues s)"
proof -
  let ?m = "b_lock b" and ?c = "b_cond b" and ?f = "\<lambda>b :: melon_barrier. b\<lparr>b_count := b_count b - nb\<rparr>"
  have b': "barriers (sp_world s) p = Some b" and m: "monitor s ?m" "owner s ?m = NULL" "room s ?m ?c" "runs s"
    using b by (simp_all add: barrier_ready_def)
  have bw: "barriers w p = Some b" using b' barrier.heap_rep [OF r] by simp
  define w1 where "w1 = set_barriers ((barriers w)(p \<mapsto> ?f b)) w"
  have r1: "rep w1 (sp_barrier p ?f s)" using barrier.rep_write [OF r bw, of ?f] by (simp add: w1_def)
  have bw1: "barriers w1 p = Some (?f b)" by (simp add: w1_def)
  consider (less) "b_count b < nb" | (more) "nb < b_count b" | (all) "nb = b_count b" by (meson linorder_neqE)
  then show ?thesis
  proof cases
    case less
    then show ?thesis using bw by (simp add: melon_barrier_release_def)
  next
    case more
    then have "melon_barrier_release p nb w = Inr (Returned 0, w1)"
      using bw by (auto simp: melon_barrier_release_def mod_barrier_def w1_def)
    with more r1 bw1 show ?thesis by (auto intro!: exI [of _ w1] exI [of _ "sp_barrier p ?f s"])
  next
    case all
    let ?s = "snd (sp_lock ?m (sp_barrier p ?f s))"
    have k: "monitor (sp_barrier p ?f s) ?m" "owner (sp_barrier p ?f s) ?m = NULL" "runs (sp_barrier p ?f s)" using m by simp_all
    note l = monitor_lock_free [OF k]
    obtain w2 where w2: "melon_mutex_lock ?m w1 = Inr (Returned 0, w2)" "rep w2 ?s"
      using lock_free [OF r1 k] by (auto simp: wp_yields)
    have c: "room ?s ?m ?c" using l(4) m(3) by simp
    obtain n w3 w' where w3: "melon_cond_broadcast ?c w2 = Inr (n, w3)" "melon_mutex_unlock ?m w3 = Inr w'"
      and w': "rep w' (sp_unlock ?m (sp_broadcast ?c ?s))"
      and u: "sp_queues (sp_unlock ?m (sp_broadcast ?c ?s)) = (let xs = sp_queues ?s (Q_lock ?m) @ sp_queues ?s (Q_wait ?c) in
        (sp_queues ?s)(Q_wait ?c := [], Q_lock ?m := tl xs, Q_ready := sp_queues ?s Q_ready @ take 1 xs))"
      by (rule broadcast_unlock [OF w2(2) l(1-3) c])
    have "barriers w' p = Some (?f b)" "barriers w2 p = Some (?f b)"
      using barrier.heap_rep [OF w'] barrier.heap_rep [OF w2(2)] b' by simp_all
    moreover have "melon_barrier_release p nb w = Inr (Returned 0, w')"
      using bw w2(1) w3 all calculation(2)
      by (simp add: melon_barrier_release_def barrier_release_locked_def chain_def mod_barrier_def w1_def)
    ultimately show ?thesis using all w' u l(5) q
      by (auto simp: Let_def intro!: exI [of _ w'] exI [of _ "sp_unlock ?m (sp_broadcast ?c ?s)"])
  qed
qed

theorem barrier_release_correct_witness:
  "\<exists>w w' s'. rep w ex_gate \<and> melon_barrier_release 30 1 w = Inr (Returned 0, w') \<and> rep w' s' \<and> sp_queues s' (Q_wait 20) = []"
proof -
  obtain w where w: "rep w ex_gate" using rep_ex_gate by blast
  from barrier_release_correct [OF w ex_gate_ready, of 1] w show ?thesis by auto
qed

end
