(* ===== verification/Melon_Rwlock.thy ===== *)
theory Melon_Rwlock
  imports Melon_Cond
begin

text \<open>
  The read-write lock of \<^verbatim>\<open>src/rwlock.c\<close>: a count of holders, a mode, the writer
  that owns it, and one condition for the writers and one for the readers.
\<close>

definition melon_rwlockattr_init :: "int \<times> ptr" where
  "melon_rwlockattr_init = (0, NULL)"

definition mod_rwlock :: "ptr \<Rightarrow> (melon_rwlock \<Rightarrow> melon_rwlock) \<Rightarrow> world \<Rightarrow> world res" where
  "mod_rwlock p f w = res_bind (store (rwlocks w) p f) (\<lambda>h. Inr (w\<lparr>rwlocks := h\<rparr>))"

section \<open>Creation and destruction\<close>

definition rwlock_free :: "ptr \<Rightarrow> world \<Rightarrow> world" where
  "rwlock_free p w = w\<lparr>rwlocks := (rwlocks w)(p := None)\<rparr>"

text \<open>\<open>malloc\<close> and the other pointers are what the allocations return, \<open>mem\<close> the fresh memory.\<close>

definition melon_rwlock_init ::
    "ptr \<Rightarrow> melon_rwlock \<Rightarrow> ptr \<Rightarrow> ptr \<Rightarrow> ptr \<Rightarrow> world \<Rightarrow> (int \<times> ptr \<times> world) res" where
  "melon_rwlock_init malloc mem mutex wcond rcond w =
    (if malloc = NULL then Inr (-1, NULL, w)
     else (case melon_mutex_init mutex None (w\<lparr>rwlocks := (rwlocks w)(malloc \<mapsto> mem)\<rparr>) of (ret, m, w) \<Rightarrow>
       res_bind (mod_rwlock malloc (\<lambda>x. x\<lparr>rw_lock := m\<rparr>) w) (\<lambda>w.
       if ret \<noteq> 0 then Inr (-1, malloc, rwlock_free malloc w)
       else (case melon_cond_init wcond w of (ret, wc, w) \<Rightarrow>
         res_bind (mod_rwlock malloc (\<lambda>x. x\<lparr>rw_wcond := wc\<rparr>) w) (\<lambda>w.
         if ret \<noteq> 0
         then res_bind (melon_mutex_destroy m w) (\<lambda>w. Inr (-1, malloc, rwlock_free malloc w))
         else (case melon_cond_init rcond w of (ret, rc, w) \<Rightarrow>
           res_bind (mod_rwlock malloc (\<lambda>x. x\<lparr>rw_rcond := rc\<rparr>) w) (\<lambda>w.
           if ret \<noteq> 0
           then
             res_bind (melon_cond_destroy wc w) (\<lambda>w.
             res_bind (melon_mutex_destroy m w) (\<lambda>w.
             Inr (-1, malloc, rwlock_free malloc w)))
           else
             res_bind (mod_rwlock malloc (\<lambda>x. x\<lparr>rw_lock_count := 0, rw_wowner := NULL, rw_is_read := 0\<rparr>) w) (\<lambda>w.
             Inr (0, malloc, w)))))))))"

definition melon_rwlock_destroy :: "ptr \<Rightarrow> world \<Rightarrow> world res" where
  "melon_rwlock_destroy rwlock w =
    res_bind (load (rwlocks w) rwlock) (\<lambda>x.
    res_bind (melon_cond_destroy (rw_rcond x) w) (\<lambda>w.
    res_bind (melon_cond_destroy (rw_wcond x) w) (\<lambda>w.
    res_bind (melon_mutex_destroy (rw_lock x) w) (\<lambda>w.
    Inr (rwlock_free rwlock w)))))"

section \<open>Locking\<close>

text \<open>
  The end of the six locking functions: the mode is set, the holder counted (the
  \<^verbatim>\<open>assert\<close> on the count and the increment overflow together), the mutex released.
\<close>

definition rwlock_take :: "ptr \<Rightarrow> (melon_rwlock \<Rightarrow> melon_rwlock) \<Rightarrow> world \<Rightarrow> world res" where
  "rwlock_take rwlock mode w =
    res_bind (mod_rwlock rwlock mode w) (\<lambda>w.
    res_bind (load (rwlocks w) rwlock) (\<lambda>x.
    res_bind (int_inc (rw_lock_count x)) (\<lambda>n.
    res_bind (mod_rwlock rwlock (\<lambda>x. x\<lparr>rw_lock_count := n\<rparr>) w) (\<lambda>w.
    melon_mutex_unlock (rw_lock x) w))))"

definition rd_mode :: "melon_rwlock \<Rightarrow> melon_rwlock" where
  "rd_mode x = x\<lparr>rw_is_read := 1\<rparr>"

definition wr_mode :: "ptr \<Rightarrow> melon_rwlock \<Rightarrow> melon_rwlock" where
  "wr_mode self x = x\<lparr>rw_wowner := self, rw_is_read := 0\<rparr>"

definition rd_blocked :: "melon_rwlock \<Rightarrow> bool" where
  "rd_blocked x \<longleftrightarrow> rw_lock_count x > 0 \<and> rw_is_read x = 0"

definition wr_blocked :: "ptr \<Rightarrow> melon_rwlock \<Rightarrow> bool" where
  "wr_blocked self x \<longleftrightarrow> rw_wowner x \<noteq> self \<and> rw_lock_count x > 0"

datatype rwlock_k = R_lock | R_wait

text \<open>
  The loop of \<^verbatim>\<open>melon_rwlock_rdlock\<close>: it is entered with the mutex held, at the
  start and after every wait.
\<close>

definition rdlock_loop :: "ptr \<Rightarrow> world \<Rightarrow> (rwlock_k outcome \<times> world) res" where
  "rdlock_loop rwlock w =
    res_bind (load (rwlocks w) rwlock) (\<lambda>x.
    if rd_blocked x
    then res_bind (melon_cond_wait (rw_rcond x) (rw_lock x) w) (\<lambda>(_, w). Inr (Suspended R_wait, w))
    else res_bind (rwlock_take rwlock rd_mode w) (\<lambda>w. Inr (Returned 0, w)))"

definition melon_rwlock_rdlock :: "ptr \<Rightarrow> world \<Rightarrow> (rwlock_k outcome \<times> world) res" where
  "melon_rwlock_rdlock rwlock w =
    res_bind (load (rwlocks w) rwlock) (\<lambda>x.
    chain (melon_mutex_lock (rw_lock x) w) R_lock (rdlock_loop rwlock))"

definition melon_rwlock_rdlock_resume :: "rwlock_k \<Rightarrow> ptr \<Rightarrow> world \<Rightarrow> (rwlock_k outcome \<times> world) res" where
  "melon_rwlock_rdlock_resume k rwlock w = rdlock_loop rwlock w"

definition wrlock_loop :: "ptr \<Rightarrow> world \<Rightarrow> (rwlock_k outcome \<times> world) res" where
  "wrlock_loop rwlock w =
    res_bind (load (rwlocks w) rwlock) (\<lambda>x.
    if wr_blocked (g_current_fiber w) x
    then res_bind (melon_cond_wait (rw_wcond x) (rw_lock x) w) (\<lambda>(_, w). Inr (Suspended R_wait, w))
    else res_bind (rwlock_take rwlock (wr_mode (g_current_fiber w)) w) (\<lambda>w. Inr (Returned 0, w)))"

definition melon_rwlock_wrlock :: "ptr \<Rightarrow> world \<Rightarrow> (rwlock_k outcome \<times> world) res" where
  "melon_rwlock_wrlock rwlock w =
    res_bind (load (rwlocks w) rwlock) (\<lambda>x.
    chain (melon_mutex_lock (rw_lock x) w) R_lock (wrlock_loop rwlock))"

definition melon_rwlock_wrlock_resume :: "rwlock_k \<Rightarrow> ptr \<Rightarrow> world \<Rightarrow> (rwlock_k outcome \<times> world) res" where
  "melon_rwlock_wrlock_resume k rwlock w = wrlock_loop rwlock w"

text \<open>The functions that do not wait for the lock (they may wait for the mutex).\<close>

definition tryrdlock_locked :: "ptr \<Rightarrow> world \<Rightarrow> (unit outcome \<times> world) res" where
  "tryrdlock_locked rwlock w =
    res_bind (load (rwlocks w) rwlock) (\<lambda>x.
    if rd_blocked x then Inr (Returned (- EAGAIN), w\<lparr>errno := EAGAIN\<rparr>)
    else res_bind (rwlock_take rwlock rd_mode w) (\<lambda>w. Inr (Returned 0, w)))"

definition melon_rwlock_tryrdlock :: "ptr \<Rightarrow> world \<Rightarrow> (unit outcome \<times> world) res" where
  "melon_rwlock_tryrdlock rwlock w =
    res_bind (load (rwlocks w) rwlock) (\<lambda>x.
    chain (melon_mutex_lock (rw_lock x) w) () (tryrdlock_locked rwlock))"

definition trywrlock_locked :: "ptr \<Rightarrow> world \<Rightarrow> (unit outcome \<times> world) res" where
  "trywrlock_locked rwlock w =
    res_bind (load (rwlocks w) rwlock) (\<lambda>x.
    if wr_blocked (g_current_fiber w) x
    then
      res_bind (melon_mutex_unlock (rw_lock x) w) (\<lambda>w.
      Inr (Returned (- EAGAIN), w\<lparr>errno := - EAGAIN\<rparr>))
    else res_bind (rwlock_take rwlock (wr_mode (g_current_fiber w)) w) (\<lambda>w. Inr (Returned 0, w)))"

definition melon_rwlock_trywrlock :: "ptr \<Rightarrow> world \<Rightarrow> (unit outcome \<times> world) res" where
  "melon_rwlock_trywrlock rwlock w =
    res_bind (load (rwlocks w) rwlock) (\<lambda>x.
    chain (melon_mutex_lock (rw_lock x) w) () (trywrlock_locked rwlock))"

section \<open>Locking with a timeout\<close>

datatype timed_rwlock_k = TR_lock timedlock_k | TR_wait timedwait_k

text \<open>
  The two functions differ in the test, the condition, the mode and the sign of the error
  number they leave in \<^verbatim>\<open>errno\<close>. A wait with a timeout always suspends the fiber,
  so only the suspended outcome of \<^verbatim>\<open>melon_cond_timedwait\<close> occurs in the loops.
\<close>

definition timedrdlock_loop :: "ptr \<Rightarrow> 64 word \<Rightarrow> world \<Rightarrow> (timed_rwlock_k outcome \<times> world) res" where
  "timedrdlock_loop rwlock timeout w =
    res_bind (load (rwlocks w) rwlock) (\<lambda>x.
    if rd_blocked x
    then
      res_bind (melon_cond_timedwait (rw_rcond x) (rw_lock x) timeout w) (\<lambda>(r, w).
      Inr (case r of Returned n \<Rightarrow> Returned n | Suspended k \<Rightarrow> Suspended (TR_wait k), w))
    else res_bind (rwlock_take rwlock rd_mode w) (\<lambda>w. Inr (Returned 0, w)))"

definition timedrdlock_locked :: "ptr \<Rightarrow> 64 word \<Rightarrow> int \<Rightarrow> world \<Rightarrow> (timed_rwlock_k outcome \<times> world) res" where
  "timedrdlock_locked rwlock timeout ret w =
    (if ret \<noteq> 0 then Inr (Returned (- ETIMEDOUT), w\<lparr>errno := ETIMEDOUT\<rparr>)
     else timedrdlock_loop rwlock timeout w)"

definition melon_rwlock_timedrdlock :: "ptr \<Rightarrow> 64 word \<Rightarrow> world \<Rightarrow> (timed_rwlock_k outcome \<times> world) res" where
  "melon_rwlock_timedrdlock rwlock timeout w =
    res_bind (load (rwlocks w) rwlock) (\<lambda>x.
    res_bind (melon_mutex_timedlock (rw_lock x) timeout w) (\<lambda>(r, w).
    case r of Returned ret \<Rightarrow> timedrdlock_locked rwlock timeout ret w | Suspended k \<Rightarrow> Inr (Suspended (TR_lock k), w)))"

definition melon_rwlock_timedrdlock_resume ::
    "timed_rwlock_k \<Rightarrow> ptr \<Rightarrow> 64 word \<Rightarrow> world \<Rightarrow> (timed_rwlock_k outcome \<times> world) res" where
  "melon_rwlock_timedrdlock_resume k rwlock timeout w =
    (case k of
       TR_lock k \<Rightarrow>
         res_bind (melon_mutex_timedlock_resume k w) (\<lambda>(ret, w). timedrdlock_locked rwlock timeout ret w)
     | TR_wait k \<Rightarrow>
         res_bind (melon_cond_timedwait_resume k w) (\<lambda>(ret, w).
         if ret \<noteq> 0
         then
           res_bind (load (rwlocks w) rwlock) (\<lambda>x.
           res_bind (melon_mutex_unlock (rw_lock x) w) (\<lambda>w.
           Inr (Returned (- ETIMEDOUT), w\<lparr>errno := ETIMEDOUT\<rparr>)))
         else timedrdlock_loop rwlock timeout w))"

definition timedwrlock_loop :: "ptr \<Rightarrow> 64 word \<Rightarrow> world \<Rightarrow> (timed_rwlock_k outcome \<times> world) res" where
  "timedwrlock_loop rwlock timeout w =
    res_bind (load (rwlocks w) rwlock) (\<lambda>x.
    if wr_blocked (g_current_fiber w) x
    then
      res_bind (melon_cond_timedwait (rw_wcond x) (rw_lock x) timeout w) (\<lambda>(r, w).
      Inr (case r of Returned n \<Rightarrow> Returned n | Suspended k \<Rightarrow> Suspended (TR_wait k), w))
    else res_bind (rwlock_take rwlock (wr_mode (g_current_fiber w)) w) (\<lambda>w. Inr (Returned 0, w)))"

definition timedwrlock_locked :: "ptr \<Rightarrow> 64 word \<Rightarrow> int \<Rightarrow> world \<Rightarrow> (timed_rwlock_k outcome \<times> world) res" where
  "timedwrlock_locked rwlock timeout ret w =
    (if ret \<noteq> 0 then Inr (Returned (- ETIMEDOUT), w\<lparr>errno := - ETIMEDOUT\<rparr>)
     else timedwrlock_loop rwlock timeout w)"

definition melon_rwlock_timedwrlock :: "ptr \<Rightarrow> 64 word \<Rightarrow> world \<Rightarrow> (timed_rwlock_k outcome \<times> world) res" where
  "melon_rwlock_timedwrlock rwlock timeout w =
    res_bind (load (rwlocks w) rwlock) (\<lambda>x.
    res_bind (melon_mutex_timedlock (rw_lock x) timeout w) (\<lambda>(r, w).
    case r of Returned ret \<Rightarrow> timedwrlock_locked rwlock timeout ret w | Suspended k \<Rightarrow> Inr (Suspended (TR_lock k), w)))"

definition melon_rwlock_timedwrlock_resume ::
    "timed_rwlock_k \<Rightarrow> ptr \<Rightarrow> 64 word \<Rightarrow> world \<Rightarrow> (timed_rwlock_k outcome \<times> world) res" where
  "melon_rwlock_timedwrlock_resume k rwlock timeout w =
    (case k of
       TR_lock k \<Rightarrow>
         res_bind (melon_mutex_timedlock_resume k w) (\<lambda>(ret, w). timedwrlock_locked rwlock timeout ret w)
     | TR_wait k \<Rightarrow>
         res_bind (melon_cond_timedwait_resume k w) (\<lambda>(ret, w).
         if ret \<noteq> 0
         then
           res_bind (load (rwlocks w) rwlock) (\<lambda>x.
           res_bind (melon_mutex_unlock (rw_lock x) w) (\<lambda>w.
           Inr (Returned (- ETIMEDOUT), w\<lparr>errno := - ETIMEDOUT\<rparr>)))
         else timedwrlock_loop rwlock timeout w))"

section \<open>Unlocking\<close>

definition rwlock_unlock_locked :: "ptr \<Rightarrow> world \<Rightarrow> (unit outcome \<times> world) res" where
  "rwlock_unlock_locked rwlock w =
    res_bind (load (rwlocks w) rwlock) (\<lambda>x.
    res_bind (int_dec (rw_lock_count x)) (\<lambda>n.
    res_bind (mod_rwlock rwlock (\<lambda>x. x\<lparr>rw_lock_count := n\<rparr>) w) (\<lambda>w.
    res_bind
      (if n = 0
       then
         res_bind (mod_rwlock rwlock (\<lambda>x. x\<lparr>rw_wowner := NULL\<rparr>) w) (\<lambda>w.
         if rw_wcond x \<noteq> NULL then res_bind (melon_cond_signal (rw_wcond x) w) (\<lambda>(_, w). Inr w)
         else if rw_rcond x \<noteq> NULL then res_bind (melon_cond_broadcast (rw_rcond x) w) (\<lambda>(_, w). Inr w)
         else Inr w)
       else Inr w) (\<lambda>w.
    res_bind (melon_mutex_unlock (rw_lock x) w) (\<lambda>w.
    Inr (Returned 0, w))))))"

definition melon_rwlock_unlock :: "ptr \<Rightarrow> world \<Rightarrow> (unit outcome \<times> world) res" where
  "melon_rwlock_unlock rwlock w =
    res_bind (load (rwlocks w) rwlock) (\<lambda>x.
    chain (melon_mutex_lock (rw_lock x) w) () (rwlock_unlock_locked rwlock))"

end
