(* ===== verification/Melon_Rwlock_Properties.thy ===== *)
theory Melon_Rwlock_Properties
  imports Melon_Monitor Melon_Rwlock
begin

text \<open>
  The properties of the read-write lock (\<^verbatim>\<open>src/rwlock.c\<close>), with concrete instances.
\<close>

abbreviation set_rwlocks :: "(ptr \<rightharpoonup> melon_rwlock) \<Rightarrow> world \<Rightarrow> world" where
  "set_rwlocks h w \<equiv> w\<lparr>rwlocks := h\<rparr>"

interpretation rwlock: client_data rwlocks set_rwlocks
  by unfold_locales (simp_all add: rep_other_upd(3) sp_lift_def)

abbreviation sp_rwlock :: "ptr \<Rightarrow> (melon_rwlock \<Rightarrow> melon_rwlock) \<Rightarrow> spec \<Rightarrow> spec" where
  "sp_rwlock \<equiv> sp_data rwlocks set_rwlocks"

text \<open>
  The state of a read-write lock: free, held by readers and without a writer, or held by
  one writer.
\<close>

definition rw_inv :: "melon_rwlock \<Rightarrow> bool" where
  "rw_inv x \<longleftrightarrow> 0 \<le> rw_lock_count x \<and>
     (rw_wowner x = NULL \<longleftrightarrow> rw_lock_count x = 0 \<or> rw_is_read x \<noteq> 0)"

text \<open>Nobody is inside the lock's own mutex.\<close>

definition rwlock_ready :: "spec \<Rightarrow> ptr \<Rightarrow> melon_rwlock \<Rightarrow> bool" where
  "rwlock_ready s p x \<longleftrightarrow> rwlocks (sp_world s) p = Some x \<and> monitor s (rw_lock x) \<and> owner s (rw_lock x) = NULL \<and>
     room s (rw_lock x) (rw_rcond x) \<and> room s (rw_lock x) (rw_wcond x) \<and> rw_rcond x \<noteq> rw_wcond x \<and> runs s"

section \<open>Refinement\<close>

lemma rwlock_entered:
  assumes r: "rep w s" and x: "rwlock_ready s p x"
  obtains w1 where "melon_mutex_lock (rw_lock x) w = Inr (Returned 0, w1)" and "rep w1 (snd (sp_lock (rw_lock x) s))"
    and "rwlocks w p = Some x" and "rwlocks w1 = rwlocks w" and "g_current_fiber w1 = sp_self s"
proof -
  obtain w1 where w1: "melon_mutex_lock (rw_lock x) w = Inr (Returned 0, w1)" "rep w1 (snd (sp_lock (rw_lock x) s))"
    using lock_free [OF r] x by (auto simp: wp_yields rwlock_ready_def)
  have "sp_self (snd (sp_lock (rw_lock x) s)) = sp_self s" using monitor_lock_free(6) x by (simp add: rwlock_ready_def)
  then show thesis using that [OF w1] x rwlock.heap_rep [OF r] rwlock.heap_rep [OF w1(2)] rep_current [OF w1(2)]
    by (simp add: rwlock_ready_def)
qed

lemma entered_keeps:
  assumes "rwlock_ready s p x"
  defines "s1 \<equiv> snd (sp_lock (rw_lock x) s)"
  shows "monitor s1 (rw_lock x)" "held s1 (rw_lock x)" "runs s1" "room s1 (rw_lock x) (rw_rcond x)" "room s1 (rw_lock x) (rw_wcond x)"
    "rwlocks (sp_world s1) p = Some x" "sp_queues s1 = sp_queues s" "sp_self s1 = sp_self s"
  using monitor_lock_free [of s "rw_lock x"] assms(1) by (simp_all add: rwlock_ready_def s1_def)

lemma rwlock_take_refines:
  assumes r: "rep w s" and x: "rwlocks (sp_world s) p = Some x" "rw_lock_count (mode x) < INT_MAX" "rw_lock (mode x) = rw_lock x"
    and m: "monitor s (rw_lock x)" "held s (rw_lock x)" "runs s"
  obtains w' t where "rwlock_take p mode w = Inr w'" and "rep w' t" and "monitor t (rw_lock x)"
    and "rwlocks w' p = Some ((mode x)\<lparr>rw_lock_count := rw_lock_count (mode x) + 1\<rparr>)"
    and "\<And>c. sp_queues t (Q_wait c) = sp_queues s (Q_wait c)"
    and "owner t (rw_lock x) = (case sp_queues s (Q_lock (rw_lock x)) of [] \<Rightarrow> NULL | x # _ \<Rightarrow> x)"
proof -
  let ?f = "\<lambda>x :: melon_rwlock. x\<lparr>rw_lock_count := rw_lock_count (mode x) + 1\<rparr>"
  let ?g = "\<lambda>y :: melon_rwlock. y\<lparr>rw_lock_count := rw_lock_count (mode x) + 1\<rparr>"
  have xw: "rwlocks w p = Some x" using x(1) rwlock.heap_rep [OF r] by simp
  define w1 where "w1 = set_rwlocks ((rwlocks w)(p \<mapsto> mode x)) w"
  have r1: "rep w1 (sp_rwlock p mode s)" unfolding w1_def by (rule rwlock.rep_write [OF r xw])
  have xw1: "rwlocks w1 p = Some (mode x)" by (simp add: w1_def)
  define w2 where "w2 = set_rwlocks ((rwlocks w1)(p \<mapsto> ?g (mode x))) w1"
  let ?s = "sp_rwlock p ?g (sp_rwlock p mode s)"
  have r2: "rep w2 ?s" unfolding w2_def by (rule rwlock.rep_write [OF r1 xw1])
  have m2: "monitor ?s (rw_lock x)" "held ?s (rw_lock x)" "runs ?s" using m by simp_all
  obtain w' where w': "melon_mutex_unlock (rw_lock x) w2 = Inr w'" "rep w' (sp_unlock (rw_lock x) ?s)"
    using unlock_held [OF r2 m2] by (auto simp: wp_def)
  note u = monitor_unlock [OF r2 m2]
  have "rwlock_take p mode w = Inr w'"
    using xw w'(1) x(2,3) by (simp add: rwlock_take_def mod_rwlock_def w2_def w1_def)
  moreover have "rwlocks w' p = Some (?g (mode x))" using rwlock.heap_rep [OF w'(2)] x(1) by simp
  ultimately show thesis using that [OF _ w'(2) u(1)] u(4,7) by simp
qed

section \<open>An example\<close>

text \<open>The lock 40 in a given state, with the mutex 10 and the conditions 20 and 21; nobody waits, fiber 1 runs.\<close>

definition ex_rw :: "int \<Rightarrow> int \<Rightarrow> ptr \<Rightarrow> melon_rwlock" where
  "ex_rw n rd wr = \<lparr>rw_lock = 10, rw_wcond = 21, rw_rcond = 20, rw_lock_count = n, rw_is_read = rd, rw_wowner = wr\<rparr>"

definition ex_rw_world :: "melon_rwlock \<Rightarrow> world" where
  "ex_rw_world x = ex_world\<lparr>rwlocks := [40 \<mapsto> x],
     conds := [20 \<mapsto> \<lparr>c_lock = 0, c_wait_queue = NULL\<rparr>, 21 \<mapsto> \<lparr>c_lock = 0, c_wait_queue = NULL\<rparr>]\<rparr>"

lemma rep_ex_rw: "rep (ex_rw_world x) (abs0 (ex_rw_world x))"
proof (rule rep_abs0)
  have "qhead (ex_rw_world x) q = NULL" for q by (cases q) (auto simp: ex_rw_world_def ex_world_def)
  then show "quiet (ex_rw_world x)" by (auto simp: quiet_def ex_rw_world_def ex_world_def a_fiber_def NULL_def split: if_splits)
qed

lemma ex_rw_simps [simp]:
  "rw_lock (ex_rw n rd wr) = 10" "rw_wcond (ex_rw n rd wr) = 21" "rw_rcond (ex_rw n rd wr) = 20" "rw_lock_count (ex_rw n rd wr) = n"
  "rw_is_read (ex_rw n rd wr) = rd" "rw_wowner (ex_rw n rd wr) = wr"
  by (simp_all add: ex_rw_def)

lemma ex_rw_world_simps [simp]:
  "rwlocks (sp_world (abs0 (ex_rw_world x))) 40 = Some x" "sp_mutex (abs0 (ex_rw_world x)) = mutexes ex_world"
  "sp_cond (abs0 (ex_rw_world x)) = [20 \<mapsto> \<lparr>c_lock = 0, c_wait_queue = NULL\<rparr>, 21 \<mapsto> \<lparr>c_lock = 0, c_wait_queue = NULL\<rparr>]" "sp_fiber (abs0 (ex_rw_world x)) = [1 \<mapsto> a_fiber, 2 \<mapsto> a_fiber, 3 \<mapsto> a_fiber]"
  "sp_queues (abs0 (ex_rw_world x)) q = []" "sp_timers (abs0 (ex_rw_world x)) = []" "sp_self (abs0 (ex_rw_world x)) = 1"
  by (auto simp: abs0_def erase_def ex_rw_world_def ex_world_def cores_def bare_mutexes_def bare_conds_def bare_mutex_def bare_cond_def)

lemma ex_rw_ready: "rwlock_ready (abs0 (ex_rw_world (ex_rw n rd wr))) 40 (ex_rw n rd wr)"
proof -
  have "mutexes_ok (abs0 (ex_rw_world (ex_rw n rd wr)))" using ex_ok(1) by (simp add: mutexes_ok_def)
  then show ?thesis
    by (simp add: rwlock_ready_def monitor_def lockers_timed_def owner_def room_def runs_def idle_def timed_def ex_mutexes)
qed

section \<open>Properties\<close>

text \<open>
  C25: \<^verbatim>\<open>melon_rwlock_rdlock\<close> lets a reader in exactly when no writer holds the lock.
  It is then counted, the lock is held by readers without a writer, and the state of the
  lock is well formed; otherwise the fiber is queued last on the readers' condition and
  suspended, and the lock is as before.
\<close>

theorem rwlock_rdlock_correct:
  assumes r: "rep w s" and x: "rwlock_ready s p x" "rw_inv x" "rw_lock_count x < INT_MAX"
  shows "\<exists>w' s'. rep w' s' \<and> monitor s' (rw_lock x) \<and>
    (if rw_wowner x \<noteq> NULL
     then melon_rwlock_rdlock p w = Inr (Suspended R_wait, w') \<and> rwlocks w' = rwlocks w \<and>
       sp_queues s' (Q_wait (rw_rcond x)) = sp_queues s (Q_wait (rw_rcond x)) @ [sp_self s]
     else \<exists>x'. melon_rwlock_rdlock p w = Inr (Returned 0, w') \<and> rwlocks w' p = Some x' \<and> rw_inv x' \<and>
       rw_is_read x' \<noteq> 0 \<and> rw_wowner x' = NULL \<and> rw_lock_count x' = rw_lock_count x + 1)"
proof -
  obtain w1 where w1: "melon_mutex_lock (rw_lock x) w = Inr (Returned 0, w1)" "rep w1 (snd (sp_lock (rw_lock x) s))"
    "rwlocks w p = Some x" "rwlocks w1 = rwlocks w" by (rule rwlock_entered [OF r x(1)])
  note k = entered_keeps [OF x(1)]
  have run: "melon_rwlock_rdlock p w = rdlock_loop p w1" using w1 by (simp add: melon_rwlock_rdlock_def chain_def)
  have b: "rd_blocked x \<longleftrightarrow> rw_wowner x \<noteq> NULL" using x(2) by (auto simp: rd_blocked_def rw_inv_def)
  show ?thesis
  proof (cases "rw_wowner x = NULL")
    case False
    let ?t = "snd (sp_cond_wait (rw_rcond x) (rw_lock x) (snd (sp_lock (rw_lock x) s)))"
    obtain w' where w': "melon_cond_wait (rw_rcond x) (rw_lock x) w1 = Inr (Suspended (), w')" "rep w' ?t"
      using wait_held [OF w1(2) k(1-4)] by (auto simp: wp_yields)
    have "rwlocks w' = rwlocks w1" using rwlock.heap_rep [OF w'(2)] rwlock.heap_rep [OF w1(2)] by simp
    moreover have "melon_rwlock_rdlock p w = Inr (Suspended R_wait, w')"
      using False b w1 w'(1) by (simp add: run rdlock_loop_def)
    ultimately show ?thesis using False w' monitor_wait [OF w1(2) k(1-4)] k w1(4) by (intro exI [of _ w'] exI [of _ ?t]) simp
  next
    case True
    have "rw_lock_count (rd_mode x) < INT_MAX" "rw_lock (rd_mode x) = rw_lock x" using x(3) by (simp_all add: rd_mode_def)
    from rwlock_take_refines [where mode = rd_mode, OF w1(2) k(6) this k(1-3)] obtain w' t where w': "rwlock_take p rd_mode w1 = Inr w'" "rep w' t"
      "monitor t (rw_lock x)" "rwlocks w' p = Some ((rd_mode x)\<lparr>rw_lock_count := rw_lock_count (rd_mode x) + 1\<rparr>)" by blast
    moreover have "melon_rwlock_rdlock p w = Inr (Returned 0, w')"
      using True b w1 w'(1) by (simp add: run rdlock_loop_def)
    moreover have "rw_inv ((rd_mode x)\<lparr>rw_lock_count := rw_lock_count x + 1\<rparr>)" using x(2) True by (auto simp: rw_inv_def rd_mode_def)
    ultimately show ?thesis using True by (intro exI [of _ w'] exI [of _ t]) (simp add: rd_mode_def)
  qed
qed

theorem rwlock_rdlock_correct_witness:
  "\<exists>w' x'. melon_rwlock_rdlock 40 (ex_rw_world (ex_rw 2 1 NULL)) = Inr (Returned 0, w') \<and> rwlocks w' 40 = Some x' \<and> rw_lock_count x' = 3"
  using rwlock_rdlock_correct [OF rep_ex_rw ex_rw_ready, of 2 1 NULL] by (auto simp: rw_inv_def INT_MAX_def)

text \<open>
  C26: \<^verbatim>\<open>melon_rwlock_wrlock\<close> lets a writer in exactly when nobody holds the lock or
  it holds the lock for writing itself. It is then the writer of the lock, and the state
  of the lock is well formed; otherwise the fiber is queued last on the writers' condition
  and suspended, and the lock is as before.
\<close>

theorem rwlock_wrlock_correct:
  assumes r: "rep w s" and x: "rwlock_ready s p x" "rw_inv x" "rw_lock_count x < INT_MAX"
  shows "\<exists>w' s'. rep w' s' \<and> monitor s' (rw_lock x) \<and>
    (if rw_lock_count x > 0 \<and> rw_wowner x \<noteq> sp_self s
     then melon_rwlock_wrlock p w = Inr (Suspended R_wait, w') \<and> rwlocks w' = rwlocks w \<and>
       sp_queues s' (Q_wait (rw_wcond x)) = sp_queues s (Q_wait (rw_wcond x)) @ [sp_self s]
     else \<exists>x'. melon_rwlock_wrlock p w = Inr (Returned 0, w') \<and> rwlocks w' p = Some x' \<and> rw_inv x' \<and>
       rw_is_read x' = 0 \<and> rw_wowner x' = sp_self s \<and> rw_lock_count x' = rw_lock_count x + 1)"
proof -
  obtain w1 where w1: "melon_mutex_lock (rw_lock x) w = Inr (Returned 0, w1)" "rep w1 (snd (sp_lock (rw_lock x) s))"
    "rwlocks w p = Some x" "rwlocks w1 = rwlocks w" "g_current_fiber w1 = sp_self s" by (rule rwlock_entered [OF r x(1)])
  note k = entered_keeps [OF x(1)]
  have run: "melon_rwlock_wrlock p w = wrlock_loop p w1" using w1 by (simp add: melon_rwlock_wrlock_def chain_def)
  show ?thesis
  proof (cases "wr_blocked (sp_self s) x")
    case True
    let ?t = "snd (sp_cond_wait (rw_wcond x) (rw_lock x) (snd (sp_lock (rw_lock x) s)))"
    obtain w' where w': "melon_cond_wait (rw_wcond x) (rw_lock x) w1 = Inr (Suspended (), w')" "rep w' ?t"
      using wait_held [OF w1(2) k(1-3,5)] by (auto simp: wp_yields)
    have "rwlocks w' = rwlocks w1" using rwlock.heap_rep [OF w'(2)] rwlock.heap_rep [OF w1(2)] by simp
    moreover have "melon_rwlock_wrlock p w = Inr (Suspended R_wait, w')"
      using True w1 w'(1) by (simp add: run wrlock_loop_def)
    ultimately show ?thesis using True w' monitor_wait [OF w1(2) k(1-3,5)] k w1(4)
      by (intro exI [of _ w'] exI [of _ ?t]) (simp add: wr_blocked_def)
  next
    case False
    let ?f = "wr_mode (sp_self s)"
    have "rw_lock_count (?f x) < INT_MAX" "rw_lock (?f x) = rw_lock x" using x(3) by (simp_all add: wr_mode_def)
    from rwlock_take_refines [where mode = "?f", OF w1(2) k(6) this k(1-3)] obtain w' t where w': "rwlock_take p ?f w1 = Inr w'" "rep w' t"
      "monitor t (rw_lock x)" "rwlocks w' p = Some ((?f x)\<lparr>rw_lock_count := rw_lock_count (?f x) + 1\<rparr>)" by blast
    moreover have "melon_rwlock_wrlock p w = Inr (Returned 0, w')"
      using False w1 w'(1) by (simp add: run wrlock_loop_def)
    moreover have "sp_self s \<noteq> NULL" using x(1) by (simp add: rwlock_ready_def runsD(1))
    then have "rw_inv ((?f x)\<lparr>rw_lock_count := rw_lock_count x + 1\<rparr>)" using x(2) by (auto simp: rw_inv_def wr_mode_def)
    ultimately show ?thesis using False by (intro exI [of _ w'] exI [of _ t]) (auto simp: wr_mode_def wr_blocked_def)
  qed
qed

theorem rwlock_wrlock_correct_witness:
  "\<exists>w'. melon_rwlock_wrlock 40 (ex_rw_world (ex_rw 2 1 NULL)) = Inr (Suspended R_wait, w')"
  using rwlock_wrlock_correct [OF rep_ex_rw ex_rw_ready, of 2 1 NULL] by (auto simp: rw_inv_def INT_MAX_def)



text \<open>
  When a writer holds the lock, \<^verbatim>\<open>melon_rwlock_tryrdlock\<close> returns
  \<^verbatim>\<open>-EAGAIN\<close> with the lock's own mutex still held by the caller: every other fiber
  that uses the lock from now on, the writer that wants to unlock it too, is suspended on
  that mutex.
\<close>

theorem rwlock_tryrdlock_keeps_mutex:
  assumes r: "rep w s" and x: "rwlock_ready s p x" "rw_inv x" "rw_wowner x \<noteq> NULL"
  shows "\<exists>w' s'. melon_rwlock_tryrdlock p w = Inr (Returned (- EAGAIN), w') \<and> rep w' s' \<and> errno w' = EAGAIN \<and>
    held s' (rw_lock x) \<and> rwlocks w' = rwlocks w \<and>
    (\<forall>z. z \<noteq> sp_self s \<longrightarrow> idle s z \<longrightarrow> \<not> timed s z \<longrightarrow>
      (\<exists>w''. melon_rwlock_unlock p (w'\<lparr>g_current_fiber := z\<rparr>) = Inr (Suspended (), w'')))"
proof -
  obtain w1 where w1: "melon_mutex_lock (rw_lock x) w = Inr (Returned 0, w1)" "rep w1 (snd (sp_lock (rw_lock x) s))"
    "rwlocks w p = Some x" "rwlocks w1 = rwlocks w" by (rule rwlock_entered [OF r x(1)])
  note k = entered_keeps [OF x(1)]
  let ?s = "sp_errno EAGAIN (snd (sp_lock (rw_lock x) s))" and ?w = "w1\<lparr>errno := EAGAIN\<rparr>"
  have b: "rd_blocked x" using x(2,3) by (auto simp: rd_blocked_def rw_inv_def)
  have r': "rep ?w ?s" using rep_errno [OF w1(2)] .
  have l: "sp_fiber ?s = (sp_fiber s)(sp_self s := map_option (\<lambda>f. f\<lparr>f_lock_count := 1, f_timer := 0\<rparr>) (sp_fiber s (sp_self s)))"
    using x(1) sp_lock_free [of s "rw_lock x"] by (simp add: rwlock_ready_def)
  have t: "timed ?s z = timed s z" for z using x(1) sp_lock_free [of s "rw_lock x"] by (simp add: rwlock_ready_def)
  have "\<exists>w''. melon_rwlock_unlock p (?w\<lparr>g_current_fiber := z\<rparr>) = Inr (Suspended (), w'')"
    if z: "z \<noteq> sp_self s" "idle s z" "\<not> timed s z" for z
  proof -
    let ?t = "sp_current z ?s"
    have "monitor ?t (rw_lock x)" "owner ?t (rw_lock x) \<noteq> NULL" "\<not> held ?t (rw_lock x)"
      using k(1,2,3,8) z(1) runsD(1) [OF k(3)]
      by (auto simp: monitor_def held_def owner_def mutexes_ok_def lockers_timed_def sp_current_def sp_lift_def sp_errno_def timed_def)
    moreover have "runs ?t" using z l t [of z] k(7) by (auto simp: runs_def idle_def sp_current_def sp_lift_def timed_def)
    ultimately have "wp (melon_mutex_lock (rw_lock x) (?w\<lparr>g_current_fiber := z\<rparr>)) (yields (Suspended (), snd (sp_lock (rw_lock x) ?t)))"
      by (rule lock_busy [OF rep_current_upd [OF r']])
    then show ?thesis using w1 by (auto simp: melon_rwlock_unlock_def chain_def wp_yields)
  qed
  moreover have "melon_rwlock_tryrdlock p w = Inr (Returned (- EAGAIN), ?w)"
    using w1 b by (simp add: melon_rwlock_tryrdlock_def tryrdlock_locked_def chain_def)
  moreover have "held ?s (rw_lock x)" using k(2) by (simp add: held_def owner_def)
  ultimately show ?thesis using r' w1(4) by (intro exI [of _ ?w] exI [of _ ?s]) simp
qed

theorem rwlock_tryrdlock_keeps_mutex_witness:
  "\<exists>w' s'. melon_rwlock_tryrdlock 40 (ex_rw_world (ex_rw 1 0 2)) = Inr (Returned (- EAGAIN), w') \<and> rep w' s' \<and> held s' 10"
  using rwlock_tryrdlock_keeps_mutex [OF rep_ex_rw ex_rw_ready, of 1 0 2] by (auto simp: rw_inv_def)

end
