(* ===== verification/Melon_Sem.thy ===== *)
theory Melon_Sem
  imports Melon_Cond
begin

text \<open>
  The semaphore of \<^verbatim>\<open>src/sem.c\<close>: a number of units that are left, a mutex, a
  condition, and a queue of the fibers that wait. The queue uses the same link members of
  a fiber as every other queue.
\<close>

definition melon_semattr_init :: "int \<times> ptr" where
  "melon_semattr_init = (0, NULL)"

definition mod_sem :: "ptr \<Rightarrow> (melon_sem \<Rightarrow> melon_sem) \<Rightarrow> world \<Rightarrow> world res" where
  "mod_sem p f w = res_bind (store (sems w) p f) (\<lambda>h. Inr (w\<lparr>sems := h\<rparr>))"

section \<open>Creation and destruction\<close>

text \<open>
  \<open>mem\<close> is the content of the allocated memory. The member \<^verbatim>\<open>nb\<close> keeps what was
  there.
\<close>

definition melon_sem_init :: "ptr \<Rightarrow> melon_sem \<Rightarrow> ptr \<Rightarrow> ptr \<Rightarrow> 32 word \<Rightarrow> world \<Rightarrow> (int \<times> ptr \<times> world) res" where
  "melon_sem_init malloc mem mutex cond nb w =
    (if malloc = NULL then Inr (-1, NULL, w)
     else (case melon_mutex_init mutex None (w\<lparr>sems := (sems w)(malloc \<mapsto> mem)\<rparr>) of (ret, m, w) \<Rightarrow>
       res_bind (mod_sem malloc (\<lambda>x. x\<lparr>s_lock := m\<rparr>) w) (\<lambda>w.
       if ret \<noteq> 0 then Inr (-1, malloc, w\<lparr>sems := (sems w)(malloc := None)\<rparr>)
       else (case melon_cond_init cond w of (ret, c, w) \<Rightarrow>
         res_bind (mod_sem malloc (\<lambda>x. x\<lparr>s_cond := c\<rparr>) w) (\<lambda>w.
         if ret \<noteq> 0
         then
           res_bind (melon_mutex_destroy m w) (\<lambda>w.
           Inr (-1, malloc, w\<lparr>sems := (sems w)(malloc := None)\<rparr>))
         else
           res_bind (mod_sem malloc (\<lambda>x. x\<lparr>s_left := nb, s_queue := NULL\<rparr>) w) (\<lambda>w.
           Inr (0, malloc, w)))))))"

definition melon_sem_destroy :: "ptr \<Rightarrow> world \<Rightarrow> world res" where
  "melon_sem_destroy sem w =
    res_bind (load (sems w) sem) (\<lambda>x.
    assert_that (s_left x = s_nb x) (
    res_bind (melon_cond_destroy (s_cond x) w) (\<lambda>w.
    res_bind (melon_mutex_destroy (s_lock x) w) (\<lambda>w.
    Inr (w\<lparr>sems := (sems w)(sem := None)\<rparr>)))))"

section \<open>Acquiring\<close>

definition sem_queue_push :: "ptr \<Rightarrow> ptr \<Rightarrow> world \<Rightarrow> world res" where
  "sem_queue_push sem fiber w =
    res_bind (load (sems w) sem) (\<lambda>x.
    res_bind (fiber_push (s_queue x) fiber w) (\<lambda>(q, w).
    mod_sem sem (\<lambda>x. x\<lparr>s_queue := q\<rparr>) w))"

definition sem_queue_unlink :: "ptr \<Rightarrow> ptr \<Rightarrow> world \<Rightarrow> world res" where
  "sem_queue_unlink sem fiber w =
    res_bind (load (sems w) sem) (\<lambda>x.
    res_bind (fiber_unlink (s_queue x) fiber w) (\<lambda>(q, w).
    mod_sem sem (\<lambda>x. x\<lparr>s_queue := q\<rparr>) w))"

text \<open>The branch of the loops that takes the units.\<close>

definition sem_take :: "ptr \<Rightarrow> 32 word \<Rightarrow> bool \<Rightarrow> world \<Rightarrow> world res" where
  "sem_take sem nb in_queue w =
    res_bind (mod_sem sem (\<lambda>x. x\<lparr>s_left := s_left x - nb\<rparr>) w) (\<lambda>w.
    res_bind (if in_queue then sem_queue_unlink sem (melon_fiber_self w) w else Inr w) (\<lambda>w.
    res_bind (load (sems w) sem) (\<lambda>x.
    melon_mutex_unlock (s_lock x) w)))"

text \<open>The branch that queues the fiber the first time.\<close>

definition sem_enter_queue :: "ptr \<Rightarrow> 32 word \<Rightarrow> bool \<Rightarrow> world \<Rightarrow> world res" where
  "sem_enter_queue sem nb in_queue w =
    (if in_queue then Inr w
     else
       res_bind (mod_fiber (melon_fiber_self w) (\<lambda>f. f\<lparr>f_sem_nb := sint nb\<rparr>) w) (\<lambda>w.
       sem_queue_push sem (melon_fiber_self w) w))"

datatype sem_k = S_lock | S_wait

definition sem_acquire_loop :: "ptr \<Rightarrow> 32 word \<Rightarrow> bool \<Rightarrow> world \<Rightarrow> (sem_k outcome \<times> world) res" where
  "sem_acquire_loop sem nb in_queue w =
    res_bind (load (sems w) sem) (\<lambda>x.
    if s_left x \<ge> nb
    then res_bind (sem_take sem nb in_queue w) (\<lambda>w. Inr (Returned 0, w))
    else
      res_bind (sem_enter_queue sem nb in_queue w) (\<lambda>w.
      res_bind (melon_cond_wait (s_cond x) (s_lock x) w) (\<lambda>(_, w).
      Inr (Suspended S_wait, w))))"

definition melon_sem_acquire :: "ptr \<Rightarrow> 32 word \<Rightarrow> world \<Rightarrow> (sem_k outcome \<times> world) res" where
  "melon_sem_acquire sem nb w =
    res_bind (load (sems w) sem) (\<lambda>x.
    chain (melon_mutex_lock (s_lock x) w) S_lock (sem_acquire_loop sem nb False))"

definition melon_sem_acquire_resume :: "sem_k \<Rightarrow> ptr \<Rightarrow> 32 word \<Rightarrow> world \<Rightarrow> (sem_k outcome \<times> world) res" where
  "melon_sem_acquire_resume k sem nb w = sem_acquire_loop sem nb (k = S_wait) w"

definition tryacquire_locked :: "ptr \<Rightarrow> 32 word \<Rightarrow> world \<Rightarrow> (unit outcome \<times> world) res" where
  "tryacquire_locked sem nb w =
    res_bind (load (sems w) sem) (\<lambda>x.
    if s_left x \<ge> nb
    then
      res_bind (mod_sem sem (\<lambda>x. x\<lparr>s_left := s_left x - nb\<rparr>) w) (\<lambda>w.
      res_bind (melon_mutex_unlock (s_lock x) w) (\<lambda>w.
      Inr (Returned 0, w)))
    else
      res_bind (melon_mutex_unlock (s_lock x) w) (\<lambda>w.
      Inr (Returned (- EAGAIN), w\<lparr>errno := EAGAIN\<rparr>)))"

definition melon_sem_tryacquire :: "ptr \<Rightarrow> 32 word \<Rightarrow> world \<Rightarrow> (unit outcome \<times> world) res" where
  "melon_sem_tryacquire sem nb w =
    res_bind (load (sems w) sem) (\<lambda>x.
    chain (melon_mutex_lock (s_lock x) w) () (tryacquire_locked sem nb))"

section \<open>Acquiring with a timeout\<close>

datatype timed_sem_k = TS_lock timedlock_k | TS_wait timedwait_k

text \<open>The timeout is a \<^verbatim>\<open>melon_time_t\<close>, passed on as an unsigned 64-bit value.\<close>

definition sem_timedacquire_loop :: "ptr \<Rightarrow> 32 word \<Rightarrow> int \<Rightarrow> bool \<Rightarrow> world \<Rightarrow> (timed_sem_k outcome \<times> world) res" where
  "sem_timedacquire_loop sem nb timeout in_queue w =
    res_bind (load (sems w) sem) (\<lambda>x.
    if s_left x \<ge> nb
    then res_bind (sem_take sem nb in_queue w) (\<lambda>w. Inr (Returned 0, w))
    else
      res_bind (sem_enter_queue sem nb in_queue w) (\<lambda>w.
      res_bind (melon_cond_timedwait (s_cond x) (s_lock x) (word_of_int timeout) w) (\<lambda>(r, w).
      Inr (case r of Returned n \<Rightarrow> Returned n | Suspended k \<Rightarrow> Suspended (TS_wait k), w))))"

definition timedacquire_locked :: "ptr \<Rightarrow> 32 word \<Rightarrow> int \<Rightarrow> int \<Rightarrow> world \<Rightarrow> (timed_sem_k outcome \<times> world) res" where
  "timedacquire_locked sem nb timeout ret w =
    (if ret \<noteq> 0 then Inr (Returned (- ETIMEDOUT), w\<lparr>errno := ETIMEDOUT\<rparr>)
     else sem_timedacquire_loop sem nb timeout False w)"

definition melon_sem_timedacquire :: "ptr \<Rightarrow> 32 word \<Rightarrow> int \<Rightarrow> world \<Rightarrow> (timed_sem_k outcome \<times> world) res" where
  "melon_sem_timedacquire sem nb timeout w =
    res_bind (load (sems w) sem) (\<lambda>x.
    res_bind (melon_mutex_timedlock (s_lock x) (word_of_int timeout) w) (\<lambda>(r, w).
    case r of Returned ret \<Rightarrow> timedacquire_locked sem nb timeout ret w | Suspended k \<Rightarrow> Inr (Suspended (TS_lock k), w)))"

definition melon_sem_timedacquire_resume ::
    "timed_sem_k \<Rightarrow> ptr \<Rightarrow> 32 word \<Rightarrow> int \<Rightarrow> world \<Rightarrow> (timed_sem_k outcome \<times> world) res" where
  "melon_sem_timedacquire_resume k sem nb timeout w =
    (case k of
       TS_lock k \<Rightarrow> res_bind (melon_mutex_timedlock_resume k w) (\<lambda>(ret, w). timedacquire_locked sem nb timeout ret w)
     | TS_wait k \<Rightarrow>
         res_bind (melon_cond_timedwait_resume k w) (\<lambda>(ret, w).
         if ret \<noteq> 0
         then
           res_bind (sem_queue_unlink sem (melon_fiber_self w) w) (\<lambda>w.
           res_bind (load (sems w) sem) (\<lambda>x.
           res_bind (melon_mutex_unlock (s_lock x) w) (\<lambda>w.
           Inr (Returned (- ETIMEDOUT), w\<lparr>errno := ETIMEDOUT\<rparr>))))
         else sem_timedacquire_loop sem nb timeout True w))"

section \<open>Releasing\<close>

text \<open>The loop over the queue; \<open>left\<close> is the local \<^verbatim>\<open>int left\<close>.\<close>

partial_function (option) sem_release_loop :: "ptr \<Rightarrow> int \<Rightarrow> ptr \<Rightarrow> world \<Rightarrow> world res option" where
  [code]: "sem_release_loop sem left cur w =
    (if cur = NULL then Some (Inr w)
     else (case load (fibers w) cur of
         Inl e \<Rightarrow> Some (Inl e)
       | Inr f \<Rightarrow>
           if \<not> f_sem_nb f > left then Some (Inr w)
           else (case load (sems w) sem of
               Inl e \<Rightarrow> Some (Inl e)
             | Inr x \<Rightarrow> (case melon_cond_signal (s_cond x) w of
                   Inl e \<Rightarrow> Some (Inl e)
                 | Inr r \<Rightarrow> (case load (fibers (snd r)) cur of
                       Inl e \<Rightarrow> Some (Inl e)
                     | Inr f \<Rightarrow> (case int_sub left (f_sem_nb f) of
                           Inl e \<Rightarrow> Some (Inl e)
                         | Inr left' \<Rightarrow>
                             if f_next f = s_queue x then Some (Inr (snd r))
                             else sem_release_loop sem left' (f_next f) (snd r)))))))"

definition sem_release_locked :: "ptr \<Rightarrow> 32 word \<Rightarrow> world \<Rightarrow> (unit outcome \<times> world) res" where
  "sem_release_locked sem nb w =
    res_bind (mod_sem sem (\<lambda>x. x\<lparr>s_left := s_left x + nb\<rparr>) w) (\<lambda>w.
    res_bind (load (sems w) sem) (\<lambda>x.
    assert_that (s_left x \<le> s_nb x) (
    res_bind (run_loop (sem_release_loop sem (sint (s_left x)) (s_queue x) w)) (\<lambda>w.
    res_bind (melon_mutex_unlock (s_lock x) w) (\<lambda>w.
    Inr (Returned 0, w))))))"

definition melon_sem_release :: "ptr \<Rightarrow> 32 word \<Rightarrow> world \<Rightarrow> (unit outcome \<times> world) res" where
  "melon_sem_release sem nb w =
    res_bind (load (sems w) sem) (\<lambda>x.
    chain (melon_mutex_lock (s_lock x) w) () (sem_release_locked sem nb))"

end
