(* ===== verification/Melon_Sem_Properties.thy ===== *)
theory Melon_Sem_Properties
  imports Melon_Monitor Melon_Sem
begin

text \<open>
  The properties of the semaphore (\<^verbatim>\<open>src/sem.c\<close>), with concrete instances.
\<close>

abbreviation set_sems :: "(ptr \<rightharpoonup> melon_sem) \<Rightarrow> world \<Rightarrow> world" where
  "set_sems h w \<equiv> w\<lparr>sems := h\<rparr>"

interpretation sem: client_data sems set_sems
  by unfold_locales (simp_all add: rep_other_upd(4) sp_lift_def)

abbreviation sp_sem :: "ptr \<Rightarrow> (melon_sem \<Rightarrow> melon_sem) \<Rightarrow> spec \<Rightarrow> spec" where
  "sp_sem \<equiv> sp_data sems set_sems"

definition sem_ready :: "spec \<Rightarrow> ptr \<Rightarrow> melon_sem \<Rightarrow> bool" where
  "sem_ready s p x \<longleftrightarrow> sems (sp_world s) p = Some x \<and> monitor s (s_lock x) \<and> owner s (s_lock x) = NULL \<and> runs s"

lemma sem_entered:
  assumes r: "rep w s" and x: "sem_ready s p x"
  obtains w1 where "melon_mutex_lock (s_lock x) w = Inr (Returned 0, w1)" and "rep w1 (snd (sp_lock (s_lock x) s))"
    and "sems w p = Some x" and "sems w1 p = Some x"
proof -
  obtain w1 where w1: "melon_mutex_lock (s_lock x) w = Inr (Returned 0, w1)" "rep w1 (snd (sp_lock (s_lock x) s))"
    using lock_free [OF r] x by (auto simp: wp_yields sem_ready_def)
  then show thesis using that [OF w1] x sem.heap_rep [OF r] sem.heap_rep [OF w1(2)] by (simp add: sem_ready_def)
qed

text \<open>The units are taken and the mutex is given up.\<close>

lemma sem_taken:
  assumes r: "rep w s" and x: "sem_ready s p x" and w1: "rep w1 (snd (sp_lock (s_lock x) s))"
  obtains w' s' where "melon_mutex_unlock (s_lock x) (set_sems ((sems w1)(p \<mapsto> f x)) w1) = Inr w'" and "rep w' s'"
    and "monitor s' (s_lock x)" and "sems w' p = Some (f x)" and "\<And>c. sp_queues s' (Q_wait c) = sp_queues s (Q_wait c)"
proof -
  let ?s1 = "snd (sp_lock (s_lock x) s)"
  note k = monitor_lock_free [of s "s_lock x"]
  have x1: "sems w1 p = Some x" using x sem.heap_rep [OF w1] by (simp add: sem_ready_def)
  have r2: "rep (set_sems ((sems w1)(p \<mapsto> f x)) w1) (sp_sem p f ?s1)" by (rule sem.rep_write [OF w1 x1])
  have m: "monitor (sp_sem p f ?s1) (s_lock x)" "held (sp_sem p f ?s1) (s_lock x)" "runs (sp_sem p f ?s1)"
    using k x by (simp_all add: sem_ready_def)
  obtain w' where w': "melon_mutex_unlock (s_lock x) (set_sems ((sems w1)(p \<mapsto> f x)) w1) = Inr w'" "rep w' (sp_unlock (s_lock x) (sp_sem p f ?s1))"
    using unlock_held [OF r2 m] by (auto simp: wp_def)
  show thesis
    by (rule that [OF w']) (use monitor_unlock [OF r2 m] sem.heap_rep [OF w'(2)] x k in \<open>simp_all add: sem_ready_def\<close>)
qed

section \<open>Properties\<close>

text \<open>
  C28: When enough units are left, \<^verbatim>\<open>melon_sem_acquire\<close> and
  \<^verbatim>\<open>melon_sem_tryacquire\<close> take them, without wrapping around, and return. When there are
  not enough, \<^verbatim>\<open>melon_sem_tryacquire\<close> returns \<^verbatim>\<open>-EAGAIN\<close> and takes nothing. In each
  case the mutex is released.
\<close>

theorem sem_acquire_correct:
  assumes r: "rep w s" and x: "sem_ready s p x"
  shows "if nb \<le> s_left x
    then \<exists>w' s'. melon_sem_acquire p nb w = Inr (Returned 0, w') \<and> melon_sem_tryacquire p nb w = Inr (Returned 0, w') \<and>
      rep w' s' \<and> monitor s' (s_lock x) \<and> sems w' p = Some (x\<lparr>s_left := s_left x - nb\<rparr>) \<and>
      unat (s_left x - nb) = unat (s_left x) - unat nb
    else \<exists>w' s'. melon_sem_tryacquire p nb w = Inr (Returned (- EAGAIN), w') \<and> rep w' s' \<and> monitor s' (s_lock x) \<and>
      sems w' p = Some x \<and> errno w' = EAGAIN"
proof -
  obtain w1 where w1: "melon_mutex_lock (s_lock x) w = Inr (Returned 0, w1)" "rep w1 (snd (sp_lock (s_lock x) s))"
    "sems w p = Some x" "sems w1 p = Some x" by (rule sem_entered [OF r x])
  show ?thesis
  proof (cases "nb \<le> s_left x")
    case True
    obtain w' s' where w': "melon_mutex_unlock (s_lock x) (set_sems ((sems w1)(p \<mapsto> x\<lparr>s_left := s_left x - nb\<rparr>)) w1) = Inr w'" "rep w' s'"
      "monitor s' (s_lock x)" "sems w' p = Some (x\<lparr>s_left := s_left x - nb\<rparr>)" by (rule sem_taken [OF r x w1(2), of "\<lambda>x. x\<lparr>s_left := s_left x - nb\<rparr>"])
    have "unat (s_left x - nb) = unat (s_left x) - unat nb" using True by (rule unat_sub)
    moreover have "melon_sem_acquire p nb w = Inr (Returned 0, w')"
      using w1 w'(1) True by (simp add: melon_sem_acquire_def sem_acquire_loop_def sem_take_def chain_def mod_sem_def)
    moreover have "melon_sem_tryacquire p nb w = Inr (Returned 0, w')"
      using w1 w'(1) True by (simp add: melon_sem_tryacquire_def tryacquire_locked_def chain_def mod_sem_def)
    ultimately show ?thesis using w' True by auto
  next
    case False
    let ?s1 = "snd (sp_lock (s_lock x) s)"
    have m: "monitor ?s1 (s_lock x)" "held ?s1 (s_lock x)" "runs ?s1"
      using monitor_lock_free [of s "s_lock x"] x by (simp_all add: sem_ready_def)
    obtain w' where w': "melon_mutex_unlock (s_lock x) w1 = Inr w'" "rep w' (sp_unlock (s_lock x) ?s1)"
      using unlock_held [OF w1(2) m] by (auto simp: wp_def)
    let ?t = "sp_errno EAGAIN (sp_unlock (s_lock x) ?s1)"
    have "melon_sem_tryacquire p nb w = Inr (Returned (- EAGAIN), w'\<lparr>errno := EAGAIN\<rparr>)"
      using w1 w'(1) False by (simp add: melon_sem_tryacquire_def tryacquire_locked_def chain_def)
    moreover have "monitor ?t (s_lock x)"
      using monitor_unlock(1) [OF w1(2) m] by (simp add: monitor_def mutexes_ok_def lockers_timed_def)
    moreover have "sems w' p = Some x" using sem.heap_rep [OF w'(2)] x by (simp add: sem_ready_def)
    ultimately show ?thesis using False rep_errno [OF w'(2)] by auto
  qed
qed

text \<open>The semaphore 50 of three units, with some of them left; nobody waits, fiber 1 runs.\<close>

definition ex_sem :: "32 word \<Rightarrow> melon_sem" where
  "ex_sem n = \<lparr>s_lock = 10, s_cond = 20, s_queue = NULL, s_nb = 3, s_left = n\<rparr>"

definition ex_sem_world :: "32 word \<Rightarrow> world" where
  "ex_sem_world n = set_sems [50 \<mapsto> ex_sem n] ex_world"

lemma rep_ex_sem: "rep (ex_sem_world n) (sp_lift (set_sems [50 \<mapsto> ex_sem n]) (abs0 ex_world))"
  unfolding ex_sem_world_def by (rule sem.rep_set [OF rep_abs0 [OF quiet_ex_world]])

lemma ex_sem_ready: "sem_ready (sp_lift (set_sems [50 \<mapsto> ex_sem n]) (abs0 ex_world)) 50 (ex_sem n)"
proof -
  have "mutexes_ok (sp_lift (set_sems [50 \<mapsto> ex_sem n]) (abs0 ex_world))" using ex_ok(1) by (simp add: mutexes_ok_def sp_lift_def)
  then show ?thesis
    by (simp add: sem_ready_def monitor_def lockers_timed_def owner_def runs_def idle_def timed_def sp_lift_def ex_sem_def ex_mutexes)
qed

theorem sem_acquire_correct_witness:
  "\<exists>w'. melon_sem_acquire 50 2 (ex_sem_world 3) = Inr (Returned 0, w') \<and> sems w' 50 = Some (ex_sem 1)"
  using sem_acquire_correct [OF rep_ex_sem ex_sem_ready, of 2 3] by (auto simp: ex_sem_def)

text \<open>The definitions that a run of \<^verbatim>\<open>melon_sem_acquire\<close> unfolds.\<close>

lemmas sem_eval = melon_sem_acquire_def sem_acquire_loop_def sem_enter_queue_def sem_queue_push_def mod_sem_def
  melon_mutex_lock_def melon_mutex_unlock_def melon_cond_wait_def wait_queue_push_def melon_sched_next_def chain_def
  mutex_spin_lock_def mutex_spin_unlock_def cond_spin_lock_def cond_spin_unlock_def melon_spin_lock_def
  spin_lock_loop.simps sync_bool_compare_and_swap_def melon_spin_unlock_def melon_fiber_self_def fiber_push_def
  melon_dlist_push_def dlist_relink_def fiber_link_def mod_fiber_def mod_mutex_def mod_cond_def load_def store_def
  int_dec_def INT_MIN_def NULL_def Let_def


end
