(* ===== verification/Melon_Stream.thy ===== *)
theory Melon_Stream
  imports Melon_Io
begin

text \<open>
  Streams over fibers' I/O (\<^verbatim>\<open>src/stream.c\<close>): the parsing of a mode string and the
  functions of a stream's cookie. The flags are those of \<^verbatim>\<open>open\<close> on Linux.
\<close>

definition O_RDONLY :: "32 word" where "O_RDONLY = 0"
definition O_WRONLY :: "32 word" where "O_WRONLY = 1"
definition O_RDWR :: "32 word" where "O_RDWR = 2"
definition O_CREAT :: "32 word" where "O_CREAT = 0x40"
definition O_TRUNC :: "32 word" where "O_TRUNC = 0x200"
definition O_APPEND :: "32 word" where "O_APPEND = 0x400"

lemmas open_flags = O_RDONLY_def O_WRONLY_def O_RDWR_def O_CREAT_def O_TRUNC_def O_APPEND_def

text \<open>A C string ends with a zero byte: the byte after the last one is 0.\<close>

definition byte_at :: "string \<Rightarrow> nat \<Rightarrow> char" where
  "byte_at str i = (if i < length str then str ! i else CHR 0x00)"

definition scan_mode :: "string \<Rightarrow> 32 word res" where
  "scan_mode mode =
    (if byte_at mode 0 = CHR ''a''
     then Inr (if byte_at mode 1 = CHR ''+'' then O_APPEND OR O_CREAT else O_APPEND OR O_CREAT OR O_RDWR)
     else if byte_at mode 0 = CHR ''r''
     then Inr (if byte_at mode 1 = CHR ''+'' then O_RDONLY else O_RDWR)
     else if byte_at mode 0 = CHR ''w''
     then Inr (if byte_at mode 1 = CHR ''+'' then O_WRONLY OR O_CREAT OR O_TRUNC else O_RDWR OR O_CREAT OR O_TRUNC)
     else Inl Assert_failed)"

record stream_cookie =
  sc_fd :: int
  sc_timeout :: "int option"

text \<open>The calls of a cookie: the I/O function and its timeout.\<close>

definition cookie_timeout :: "stream_cookie \<Rightarrow> int" where
  "cookie_timeout c = (case sc_timeout c of Some t \<Rightarrow> t | None \<Rightarrow> 0)"

definition cookie_read :: "epoll_ctl \<Rightarrow> (syscall \<Rightarrow> int) \<Rightarrow> stream_cookie \<Rightarrow> world \<Rightarrow> (io_call outcome \<times> world) res" where
  "cookie_read ctl sys c w = io_run ctl sys (cookie_timeout c) (melon_read (sc_fd c)) w"

definition cookie_write :: "epoll_ctl \<Rightarrow> (syscall \<Rightarrow> int) \<Rightarrow> stream_cookie \<Rightarrow> world \<Rightarrow> (io_call outcome \<times> world) res" where
  "cookie_write ctl sys c w = io_run ctl sys (cookie_timeout c) (melon_write (sc_fd c)) w"

text \<open>\<open>lseek\<close> is the result of \<^verbatim>\<open>lseek64\<close>; the result holds the new value of the offset.\<close>

definition cookie_seek :: "int \<Rightarrow> int \<Rightarrow> int \<times> int" where
  "cookie_seek lseek offset = (if lseek = -1 then (-1, offset) else (0, lseek))"

definition cookie_close :: "int \<Rightarrow> stream_cookie \<Rightarrow> world \<Rightarrow> (int \<times> world) res" where
  "cookie_close close_ret c w = res_bind (melon_close close_ret (sc_fd c) w) (\<lambda>(_, w). Inr (0, w))"

text \<open>
  \<^verbatim>\<open>melon_fdopen\<close>: the cookie it makes; \<open>malloc\<close> and \<open>fopencookie\<close> are what those
  calls return. The result is the stream and the cookie that stays allocated.
\<close>

definition melon_fdopen :: "ptr \<Rightarrow> ptr \<Rightarrow> int \<Rightarrow> int option \<Rightarrow> (ptr \<times> stream_cookie option) res" where
  "melon_fdopen malloc fopencookie fd timeout =
    (if malloc = NULL then Inl Null_deref
     else if fopencookie \<noteq> NULL then Inr (fopencookie, Some \<lparr>sc_fd = fd, sc_timeout = timeout\<rparr>)
     else Inr (NULL, None))"

text \<open>
  \<^verbatim>\<open>melon_fopen\<close>: \<open>open_fd\<close> is the descriptor that \<^verbatim>\<open>open\<close> returns for the
  flags. The last component is the list of descriptors that are closed again.
\<close>

definition melon_fopen ::
    "(32 word \<Rightarrow> int) \<Rightarrow> ptr \<Rightarrow> ptr \<Rightarrow> string \<Rightarrow> int option \<Rightarrow> (ptr \<times> stream_cookie option \<times> int list) res" where
  "melon_fopen open_fd malloc fopencookie mode timeout =
    res_bind (scan_mode mode) (\<lambda>flags.
    let fd = open_fd flags in
    res_bind (melon_fdopen malloc fopencookie fd timeout) (\<lambda>(file, cookie).
    Inr (if file \<noteq> NULL then (file, cookie, []) else (NULL, cookie, [fd]))))"

end
