(* ===== verification/Melon_Expire.thy ===== *)
theory Melon_Expire
  imports Melon_Io_Properties
begin

text \<open>
  A pass of the timer manager (\<^verbatim>\<open>melon_timer_manager_loop\<close> of
  \<^verbatim>\<open>src/timer_manager.c\<close>) with the four callbacks that the program installs. The locale
  \<open>timer_callbacks\<close> is what the manager relies on: a callback leaves the timer queue and
  the other fibers alone. It is interpreted on the dispatch of all four.
\<close>

section \<open>What the manager relies on\<close>

locale timer_callbacks =
  fixes call :: "ptr \<Rightarrow> world \<Rightarrow> world res" and sp_call :: "ptr \<Rightarrow> spec \<Rightarrow> spec" and ok :: "spec \<Rightarrow> ptr \<Rightarrow> bool"
  assumes call: "rep w s \<Longrightarrow> ok s x \<Longrightarrow> \<not> timed s x \<Longrightarrow> wp (call x w) (\<lambda>w'. rep w' (sp_call x s))"
    and installed: "ok s x \<Longrightarrow> \<exists>f. sp_fiber s x = Some f \<and> f_timer_cb f \<noteq> Cb_none"
    and call_timers: "ok s x \<Longrightarrow> sp_timers (sp_call x s) = sp_timers s"
    and call_others: "ok s x \<Longrightarrow> y \<noteq> x \<Longrightarrow> timer_of (sp_fiber (sp_call x s)) y = timer_of (sp_fiber s) y"
    and call_ok: "ok s x \<Longrightarrow> ok s y \<Longrightarrow> y \<noteq> x \<Longrightarrow> ok (sp_call x s) y"
    and ok_timer_del: "ok (sp_timer_del z s) y = ok s y"
begin

definition expired :: "int \<Rightarrow> spec \<Rightarrow> ptr list" where
  "expired time s = takeWhile (\<lambda>x. timer_of (sp_fiber s) x \<le> time) (sp_timers s)"

definition sp_expire :: "ptr list \<Rightarrow> spec \<Rightarrow> spec" where
  "sp_expire xs s = fold (\<lambda>x s. sp_call x (sp_timer_del x s)) xs s"

lemma timer_head: "rep w s \<Longrightarrow> g_timer_queue (g_melon w) = (case sp_timers s of [] \<Rightarrow> NULL | x # _ \<Rightarrow> x)"
  by (auto simp: rep_def wrep_def trep_def dlist_def split: list.splits)

lemma expire_others:
  assumes "ok s x" and "y \<noteq> x"
  shows "timer_of (sp_fiber (sp_call x (sp_timer_del x s))) y = timer_of (sp_fiber s) y" "ok s y \<Longrightarrow> ok (sp_call x (sp_timer_del x s)) y"
    "sp_timers (sp_call x (sp_timer_del x s)) = remove1 x (sp_timers s)"
  using call_others [of "sp_timer_del x s" x y] call_ok [of "sp_timer_del x s" x y] call_timers [of "sp_timer_del x s" x] assms
  by (simp_all add: ok_timer_del)

lemma takeWhile_timers:
  assumes "ok s x" and "sp_timers s = x # xs" and "distinct (x # xs)"
  shows "takeWhile (\<lambda>y. timer_of (sp_fiber (sp_call x (sp_timer_del x s))) y \<le> time) xs = takeWhile (\<lambda>y. timer_of (sp_fiber s) y \<le> time) xs"
proof (rule takeWhile_cong [OF refl])
  fix y assume "y \<in> set xs"
  then have "y \<noteq> x" using assms(3) by auto
  then show "(timer_of (sp_fiber (sp_call x (sp_timer_del x s))) y \<le> time) = (timer_of (sp_fiber s) y \<le> time)"
    using expire_others(1) [OF assms(1)] by simp
qed

theorem expire_loop:
  assumes "rep w s" and "\<forall>x \<in> set (expired time s). ok s x"
  shows "wp (run_loop (timer_expire_loop call time w)) (\<lambda>w'. rep w' (sp_expire (expired time s) s))"
  using assms
proof (induction "sp_timers s" arbitrary: w s)
  case Nil
  then show ?case
    using timer_head [OF Nil(2)] by (subst timer_expire_loop.simps) (simp add: expired_def sp_expire_def split: list.splits)
next
  case (Cons x xs)
  note ts = Cons(2) [symmetric]
  have h: "g_timer_queue (g_melon w) = x" using timer_head [OF Cons(3)] ts by simp
  have d: "distinct (x # xs)" using rep_timers_distinct [OF Cons(3)] ts by simp
  have dl: "dlist timer_link (fibers w) (g_timer_queue (g_melon w)) (sp_timers s)" using Cons(3) by (simp add: rep_def wrep_def trep_def)
  have xt: "x \<in> set (sp_timers s)" using ts by simp
  then have "x \<noteq> NULL" using dl by (auto simp: dlist_def)
  moreover obtain f where "fibers w x = Some f" using dlist_node [OF dl xt] by auto
  ultimately have f: "fibers w x = Some f" "x \<noteq> NULL" by simp_all
  have tm: "timer_of (sp_fiber s) x = f_timer f" using f(1) by (simp add: timer_of_cores [OF Cons(3)] timer_of_def)
  show ?case
  proof (cases "f_timer f \<le> time")
    case False
    then show ?thesis using f h tm ts Cons(3) by (subst timer_expire_loop.simps) (simp add: expired_def sp_expire_def)
  next
    case True
    let ?s = "sp_timer_del x s"
    have e: "expired time s = x # takeWhile (\<lambda>y. timer_of (sp_fiber s) y \<le> time) xs" using True tm ts by (simp add: expired_def)
    then have ok: "ok s x" using Cons(4) by simp
    obtain w1 where w1: "timer_unlink x w = Inr w1" "rep w1 ?s" using timer_unlink_refines [OF Cons(3), of x] ts by (auto simp: timed_def)
    have "\<not> timed ?s x" using ts d by (simp add: timed_def)
    then obtain w2 where w2: "call x w1 = Inr w2" "rep w2 (sp_call x ?s)" using call [OF w1(2)] ok by (auto simp: ok_timer_del wp_def)
    have cb: "f_timer_cb f \<noteq> Cb_none" using installed [OF ok] rep_fiber [OF Cons(3) f(1)] by auto
    have xs: "sp_timers (sp_call x ?s) = xs" using call_timers [of ?s x] ok ts by (simp add: ok_timer_del)
    have e': "expired time (sp_call x ?s) = takeWhile (\<lambda>y. timer_of (sp_fiber s) y \<le> time) xs"
      using takeWhile_timers [OF ok ts d, of time] by (simp add: expired_def xs)
    have "wp (run_loop (timer_expire_loop call time w2)) (\<lambda>w'. rep w' (sp_expire (expired time (sp_call x ?s)) (sp_call x ?s)))"
    proof (rule Cons.hyps(1) [OF xs [symmetric] w2(2)])
      show "\<forall>y \<in> set (expired time (sp_call x ?s)). ok (sp_call x ?s) y"
      proof
        fix y assume "y \<in> set (expired time (sp_call x ?s))"
        then have "y \<in> set (expired time s)" "y \<noteq> x" using e' e d by (auto dest: set_takeWhileD)
        then show "ok (sp_call x ?s) y" using Cons(4) by (intro expire_others(2) [OF ok]) auto
      qed
    qed
    then have "wp (run_loop (timer_expire_loop call time w2)) (\<lambda>w'. rep w' (sp_expire (expired time s) s))"
      by (simp add: e e' sp_expire_def)
    then show ?thesis using True f h w1(1) w2(1) cb by (subst timer_expire_loop.simps) simp
  qed
qed

text \<open>After the loop the timers that have not expired are left.\<close>

lemma expire_timers:
  assumes "rep w s" and "\<forall>x \<in> set (expired time s). ok s x"
  shows "sp_timers (sp_expire (expired time s) s) = dropWhile (\<lambda>x. timer_of (sp_fiber s) x \<le> time) (sp_timers s)"
    and "y \<notin> set (expired time s) \<Longrightarrow> timer_of (sp_fiber (sp_expire (expired time s) s)) y = timer_of (sp_fiber s) y"
proof -
  have "sp_timers (sp_expire xs s) = ys \<and> (\<forall>y. y \<notin> set xs \<longrightarrow> timer_of (sp_fiber (sp_expire xs s)) y = timer_of (sp_fiber s) y)"
    if "sp_timers s = xs @ ys" "distinct xs" "\<forall>x \<in> set xs. ok s x" for xs ys and s :: spec
    using that
  proof (induction xs arbitrary: s)
    case (Cons x xs)
    let ?s = "sp_call x (sp_timer_del x s)"
    have o: "ok s x" using Cons.prems by simp
    have "sp_timers ?s = xs @ ys" using Cons.prems call_timers [of "sp_timer_del x s" x] o by (simp add: ok_timer_del)
    moreover have "\<forall>y \<in> set xs. ok ?s y"
    proof
      fix y assume "y \<in> set xs"
      then show "ok ?s y" using Cons.prems by (intro expire_others(2) [OF o]) auto
    qed
    ultimately show ?case using Cons.IH [of ?s] Cons.prems expire_others(1) [OF o] by (simp add: sp_expire_def)
  qed (simp add: sp_expire_def)
  from this [of s "expired time s" "dropWhile (\<lambda>x. timer_of (sp_fiber s) x \<le> time) (sp_timers s)"] assms(2) rep_timers_distinct [OF assms(1)]
  have *: "sp_timers (sp_expire (expired time s) s) = dropWhile (\<lambda>x. timer_of (sp_fiber s) x \<le> time) (sp_timers s) \<and>
      (\<forall>y. y \<notin> set (expired time s) \<longrightarrow> timer_of (sp_fiber (sp_expire (expired time s) s)) y = timer_of (sp_fiber s) y)"
    by (simp add: expired_def)
  show "sp_timers (sp_expire (expired time s) s) = dropWhile (\<lambda>x. timer_of (sp_fiber s) x \<le> time) (sp_timers s)" using * by blast
  show "y \<notin> set (expired time s) \<Longrightarrow> timer_of (sp_fiber (sp_expire (expired time s) s)) y = timer_of (sp_fiber s) y" using * by blast
qed

end

section \<open>The four callbacks\<close>

definition dir_of :: "melon_fiber \<Rightarrow> direction" where
  "dir_of f = (if f_waited_event f AND kEventIoRead \<noteq> 0 then Rd else Wr)"

fun sp_dispatch :: "timer_callback \<Rightarrow> timer_context \<Rightarrow> melon_fiber \<Rightarrow> ptr \<Rightarrow> spec \<Rightarrow> spec" where
  "sp_dispatch Cb_mutex_timedlock (Ctx_lock ctx) f x s = sp_timedlock_cb x ctx s"
| "sp_dispatch Cb_cond_timedwait (Ctx_wait ctx) f x s = sp_timedwait_cb x ctx s"
| "sp_dispatch Cb_waitfor (Ctx_waitfor ctx) f x s = sp_waitfor_cb (dir_of f) x ctx s"
| "sp_dispatch Cb_usleep (Ctx_fiber y) f x s = sp_ready y s"
| "sp_dispatch _ _ f x s = s"

definition sp_timer_cb :: "ptr \<Rightarrow> spec \<Rightarrow> spec" where
  "sp_timer_cb x s = (case sp_fiber s x of Some f \<Rightarrow> sp_dispatch (f_timer_cb f) (f_timer_ctx f) f x s | None \<Rightarrow> s)"

text \<open>The fiber waits where its callback looks for it.\<close>

fun cb_pre :: "timer_callback \<Rightarrow> timer_context \<Rightarrow> melon_fiber \<Rightarrow> ptr \<Rightarrow> spec \<Rightarrow> bool" where
  "cb_pre Cb_mutex_timedlock (Ctx_lock ctx) f x s \<longleftrightarrow> lc_fiber ctx = x \<and> x \<in> set (sp_queues s (Q_lock (lc_mutex ctx))) \<and>
     (\<exists>z. sp_mutex s (lc_mutex ctx) = Some z \<and> m_lock z = 0)"
| "cb_pre Cb_cond_timedwait (Ctx_wait ctx) f x s \<longleftrightarrow> wc_fiber ctx = x \<and> wc_debug ctx = 0 \<and> x \<in> set (sp_queues s (Q_wait (wc_cond ctx))) \<and>
     (\<exists>z. sp_cond s (wc_cond ctx) = Some z \<and> c_lock z = 0) \<and> f_cond_mutex f \<noteq> NULL \<and>
     (\<exists>z. sp_mutex s (f_cond_mutex f) = Some z \<and> m_lock z = 0 \<and> m_owner z \<noteq> x \<and>
       (f_lock_count f = 1 \<or> f_lock_count f > 1 \<and> m_is_recursive z \<noteq> 0))"
| "cb_pre Cb_waitfor (Ctx_waitfor ctx) f x s \<longleftrightarrow> fc_fiber ctx = x \<and> x \<in> set (sp_queues s (fd_qid (dir_of f) (fc_fildes ctx))) \<and>
     f_waited_event f = event_of (dir_of f) \<and> sp_fds s (fc_fildes ctx) \<noteq> None"
| "cb_pre Cb_usleep (Ctx_fiber y) f x s \<longleftrightarrow> y = x \<and> idle s x"
| "cb_pre _ _ f x s \<longleftrightarrow> False"

definition cb_ok :: "spec \<Rightarrow> ptr \<Rightarrow> bool" where
  "cb_ok s x \<longleftrightarrow> (\<exists>f. sp_fiber s x = Some f \<and> cb_pre (f_timer_cb f) (f_timer_ctx f) f x s)"

lemma cb_okE:
  assumes "cb_ok s x"
  obtains (lock) f ctx where "sp_fiber s x = Some f" "f_timer_cb f = Cb_mutex_timedlock" "f_timer_ctx f = Ctx_lock ctx" "cb_pre Cb_mutex_timedlock (Ctx_lock ctx) f x s"
  | (wait) f ctx where "sp_fiber s x = Some f" "f_timer_cb f = Cb_cond_timedwait" "f_timer_ctx f = Ctx_wait ctx" "cb_pre Cb_cond_timedwait (Ctx_wait ctx) f x s"
  | (io) f ctx where "sp_fiber s x = Some f" "f_timer_cb f = Cb_waitfor" "f_timer_ctx f = Ctx_waitfor ctx" "cb_pre Cb_waitfor (Ctx_waitfor ctx) f x s"
  | (sleep) f where "sp_fiber s x = Some f" "f_timer_cb f = Cb_usleep" "f_timer_ctx f = Ctx_fiber x" "idle s x"
proof -
  obtain f where f: "sp_fiber s x = Some f" "cb_pre (f_timer_cb f) (f_timer_ctx f) f x s" using assms by (auto simp: cb_ok_def)
  show thesis by (cases "f_timer_cb f"; cases "f_timer_ctx f") (use f lock wait io sleep in auto)
qed

text \<open>What a callback of \<open>x\<close> leaves alone.\<close>

definition only_fiber :: "ptr \<Rightarrow> spec \<Rightarrow> spec \<Rightarrow> bool" where
  "only_fiber x s s' \<longleftrightarrow> (\<forall>y. y \<noteq> x \<longrightarrow> sp_fiber s' y = sp_fiber s y \<and> (\<forall>q. y \<in> set (sp_queues s' q) \<longleftrightarrow> y \<in> set (sp_queues s q))) \<and>
     (\<forall>m z. sp_mutex s m = Some z \<longrightarrow> (\<exists>z'. sp_mutex s' m = Some z' \<and> m_lock z' = m_lock z \<and> m_is_recursive z' = m_is_recursive z \<and>
       (m_owner z' = m_owner z \<or> m_owner z' = x))) \<and> sp_cond s' = sp_cond s \<and> sp_fds s' = sp_fds s \<and> sp_timers s' = sp_timers s"

lemma only_fiberD:
  assumes "only_fiber x s s'" and "y \<noteq> x"
  shows "sp_fiber s' y = sp_fiber s y" "y \<in> set (sp_queues s' q) \<longleftrightarrow> y \<in> set (sp_queues s q)"
    "sp_mutex s m = Some z \<Longrightarrow> \<exists>z'. sp_mutex s' m = Some z' \<and> m_lock z' = m_lock z \<and> m_is_recursive z' = m_is_recursive z \<and>
       (m_owner z' = m_owner z \<or> m_owner z' = x)" "sp_cond s' = sp_cond s" "sp_fds s' = sp_fds s"
  using assms by (auto simp: only_fiber_def)

lemma only_fiber_ok:
  assumes o: "only_fiber x s s'" and y: "y \<noteq> x" "cb_ok s y"
  shows "cb_ok s' y"
  using y(2)
proof (cases rule: cb_okE)
  case (lock f ctx)
  with only_fiberD [OF o y(1)] show ?thesis by (fastforce simp: cb_ok_def)
next
  case (wait f ctx)
  then obtain z where z: "sp_mutex s (f_cond_mutex f) = Some z" "m_lock z = 0" "m_owner z \<noteq> y"
    "f_lock_count f = 1 \<or> f_lock_count f > 1 \<and> m_is_recursive z \<noteq> 0" by auto
  from only_fiberD(3) [OF o y(1) z(1)] obtain z' where "sp_mutex s' (f_cond_mutex f) = Some z'" "m_lock z' = 0" "m_owner z' \<noteq> y"
    "f_lock_count f = 1 \<or> f_lock_count f > 1 \<and> m_is_recursive z' \<noteq> 0" using z y(1) by auto
  with wait only_fiberD [OF o y(1)] show ?thesis by (simp add: cb_ok_def)
next
  case (io f ctx)
  with only_fiberD [OF o y(1)] show ?thesis by (simp add: cb_ok_def)
next
  case (sleep f)
  with only_fiberD [OF o y(1)] show ?thesis by (simp add: cb_ok_def idle_def)
qed

lemma sp_timer_cb_only:
  assumes "cb_ok s x"
  shows "only_fiber x s (sp_timer_cb x s)"
  using assms
proof (cases rule: cb_okE)
  case (lock f ctx)
  then show ?thesis by (auto simp: sp_timer_cb_def sp_timedlock_cb_def only_fiber_def)
next
  case (wait f ctx)
  then show ?thesis by (auto simp: sp_timer_cb_def sp_timedwait_cb_def sp_lock2_def Let_def only_fiber_def)
next
  case (io f ctx)
  then show ?thesis by (auto simp: sp_timer_cb_def sp_waitfor_cb_def only_fiber_def)
next
  case (sleep f)
  then show ?thesis by (auto simp: sp_timer_cb_def only_fiber_def)
qed

lemma run_timer_cb_refines:
  assumes r: "rep w s" and x: "cb_ok s x" and t: "\<not> timed s x"
  shows "wp (run_timer_cb x w) (\<lambda>w'. rep w' (sp_timer_cb x s))"
  using x
proof (cases rule: cb_okE)
  case (lock f ctx)
  obtain f' where f': "fibers w x = Some f'" "f = core f'" using rep_fiberE [OF r lock(1)] .
  then show ?thesis using lock mutex_timedlock_cb_refines [OF r, of ctx _ x] by (auto simp: run_timer_cb_def sp_timer_cb_def)
next
  case (wait f ctx)
  obtain f' where f': "fibers w x = Some f'" "f = core f'" using rep_fiberE [OF r wait(1)] .
  then show ?thesis using wait cond_timedwait_cb_refines [OF r, of ctx _ x f] t by (auto simp: run_timer_cb_def sp_timer_cb_def)
next
  case (io f ctx)
  obtain f' where f': "fibers w x = Some f'" "f = core f'" using rep_fiberE [OF r io(1)] .
  then show ?thesis using io waitfor_cb_refines [OF r _ refl, of ctx x "dir_of f" f] by (auto simp: run_timer_cb_def sp_timer_cb_def)
next
  case (sleep f)
  obtain f' where f': "fibers w x = Some f'" "f = core f'" using rep_fiberE [OF r sleep(1)] .
  then show ?thesis using sleep wp_sched_ready_locked [OF r, of x] by (auto simp: run_timer_cb_def sp_timer_cb_def melon_usleep_cb_def)
qed

interpretation timers: timer_callbacks run_timer_cb sp_timer_cb cb_ok
proof unfold_locales
  show "wp (run_timer_cb x w) (\<lambda>w'. rep w' (sp_timer_cb x s))" if "rep w s" "cb_ok s x" "\<not> timed s x" for w s x
    by (rule run_timer_cb_refines [OF that])
  show "\<exists>f. sp_fiber s x = Some f \<and> f_timer_cb f \<noteq> Cb_none" if "cb_ok s x" for s x
    using that by (cases rule: cb_okE) auto
  show "sp_timers (sp_timer_cb x s) = sp_timers s" if "cb_ok s x" for s x
    using sp_timer_cb_only [OF that] by (simp add: only_fiber_def)
  show "timer_of (sp_fiber (sp_timer_cb x s)) y = timer_of (sp_fiber s) y" if "cb_ok s x" "y \<noteq> x" for s x y
    using only_fiberD(1) [OF sp_timer_cb_only [OF that(1)] that(2)] by (simp add: timer_of_def)
  show "cb_ok (sp_timer_cb x s) y" if "cb_ok s x" "cb_ok s y" "y \<noteq> x" for s x y
    by (rule only_fiber_ok [OF sp_timer_cb_only [OF that(1)] that(3,2)])
  show "cb_ok (sp_timer_del z s) y = cb_ok s y" for z s y
  proof -
    have "cb_pre cb ctx f y (sp_timer_del z s) = cb_pre cb ctx f y s" for cb ctx f by (cases cb; cases ctx) auto
    then show ?thesis by (simp add: cb_ok_def)
  qed
qed

section \<open>Properties\<close>

text \<open>
  C16: One pass of the timer manager ends. It takes all the fibers whose deadline has
  come from the timer queue and runs the callback of each, in the order of the
  deadlines, and no other fiber leaves the timer queue. The manager then waits until the next
  deadline, or for ever when there is none.
\<close>

theorem timer_pass_correct:
  assumes r: "rep w s" and c: "\<forall>x \<in> set (takeWhile (\<lambda>x. timer_of (sp_fiber s) x \<le> time) (sp_timers s)). cb_ok s x"
  shows "\<exists>w' s' t. melon_timer_manager_pass run_timer_cb time w = Inr (t, w') \<and> rep w' s' \<and>
    s' = fold (\<lambda>x s. sp_timer_cb x (sp_timer_del x s)) (takeWhile (\<lambda>x. timer_of (sp_fiber s) x \<le> time) (sp_timers s)) s \<and>
    sp_timers s' = dropWhile (\<lambda>x. timer_of (sp_fiber s) x \<le> time) (sp_timers s) \<and>
    (\<forall>x \<in> set (sp_timers s'). time < timer_of (sp_fiber s') x) \<and>
    t = (case sp_timers s' of [] \<Rightarrow> Wait_forever | x # _ \<Rightarrow> Wait_until (timer_deadline (timer_of (sp_fiber s') x)))"
proof -
  let ?xs = "timers.expired time s" and ?s = "timers.sp_expire (timers.expired time s) s"
  have c': "\<forall>x \<in> set ?xs. cb_ok s x" using c by (simp add: timers.expired_def)
  obtain w' where w': "run_loop (timer_expire_loop run_timer_cb time w) = Inr w'" "rep w' ?s"
    using timers.expire_loop [OF r c'] by (auto simp: wp_def)
  note ts = timers.expire_timers(1) [OF r c']
  have s': "sorted (map (timer_of (sp_fiber ?s)) (sp_timers ?s))"
    using w'(2) timer_of_cores [OF w'(2)] by (simp add: rep_def wrep_def trep_def)
  have late: "time < timer_of (sp_fiber ?s) x" if x: "x \<in> set (sp_timers ?s)" for x
  proof -
    obtain y ys where y: "sp_timers ?s = y # ys" using x by (cases "sp_timers ?s") auto
    then have "\<not> timer_of (sp_fiber s) y \<le> time" using ts by (metis dropWhile_eq_Cons_conv)
    moreover have "y \<notin> set ?xs" using calculation by (auto simp: timers.expired_def dest: set_takeWhileD)
    ultimately have "time < timer_of (sp_fiber ?s) y" using timers.expire_timers(2) [OF r c'] by simp
    also have "timer_of (sp_fiber ?s) y \<le> timer_of (sp_fiber ?s) x" using s' y x by auto
    finally show ?thesis .
  qed
  have h: "g_timer_queue (g_melon w') = (case sp_timers ?s of [] \<Rightarrow> NULL | x # _ \<Rightarrow> x)" by (rule timers.timer_head [OF w'(2)])
  have "melon_timer_manager_pass run_timer_cb time w =
      Inr (case sp_timers ?s of [] \<Rightarrow> Wait_forever | x # _ \<Rightarrow> Wait_until (timer_deadline (timer_of (sp_fiber ?s) x)), w')"
  proof (cases "sp_timers ?s")
    case Nil
    with h w'(1) show ?thesis by (simp add: melon_timer_manager_pass_def)
  next
    case (Cons x xs)
    have dl: "dlist timer_link (fibers w') (g_timer_queue (g_melon w')) (sp_timers ?s)" using w'(2) by (simp add: rep_def wrep_def trep_def)
    obtain f where f: "fibers w' x = Some f" using dlist_node [OF dl, of x] Cons by auto
    have "x \<noteq> NULL" using dl Cons by (auto simp: dlist_def)
    with f Cons h w'(1) show ?thesis by (simp add: melon_timer_manager_pass_def timer_of_cores [OF w'(2)] timer_of_def)
  qed
  moreover have "?s = fold (\<lambda>x s. sp_timer_cb x (sp_timer_del x s)) (takeWhile (\<lambda>x. timer_of (sp_fiber s) x \<le> time) (sp_timers s)) s"
    by (simp add: timers.sp_expire_def timers.expired_def)
  ultimately show ?thesis using w'(2) ts late by blast
qed

theorem timer_pass_correct_witness:
  "\<exists>w w' s'. rep w ex_fd \<and> melon_timer_manager_pass run_timer_cb 10 w = Inr (Wait_forever, w') \<and> rep w' s' \<and> sp_queues s' Q_ready = [2]"
proof -
  obtain w where w: "rep w ex_fd" using rep_ex_fd(1) ..
  have x: "takeWhile (\<lambda>x. timer_of (sp_fiber ex_fd) x \<le> 10) (sp_timers ex_fd) = [2]" "dropWhile (\<lambda>x. timer_of (sp_fiber ex_fd) x \<le> 10) (sp_timers ex_fd) = []"
    by (simp_all add: timer_of_def)
  have "cb_ok ex_fd 2" by (simp add: cb_ok_def dir_of_def kEventIoRead_def)
  then obtain w' s' t where p: "melon_timer_manager_pass run_timer_cb 10 w = Inr (t, w')" "rep w' s'" "s' = sp_timer_cb 2 (sp_timer_del 2 ex_fd)"
    "sp_timers s' = []" "t = (case sp_timers s' of [] \<Rightarrow> Wait_forever | x # _ \<Rightarrow> Wait_until (timer_deadline (timer_of (sp_fiber s') x)))"
    using timer_pass_correct [OF w, of 10] unfolding x by auto
  then have "t = Wait_forever" "sp_queues s' Q_ready = [2]"
    by (simp_all add: sp_timer_cb_def sp_waitfor_cb_def dir_of_def)
  with w p(1,2) show ?thesis by blast
qed

end
