(* ===== verification/Spec2Isabelle.thy ===== *)
theory Spec2Isabelle
  imports Melon_Fifo Melon_Samples Melon_Shutdown Melon_Ucontext Melon_Barrier_Properties Melon_Rwlock_Properties Melon_Sem_Properties
  Melon_Stream Melon_Expire Melon_Kqueue
begin

text \<open>
  A verification of melon, a runtime of cooperative fibers (coroutines) in C that are
  scheduled on a pool of kernel threads. Paths are relative to the root of the repository.

  \<^bold>\<open>The program.\<close> A fiber runs until it calls a function that has to wait; the
  function puts the fiber into a queue and calls \<^verbatim>\<open>melon_sched_next\<close>, which swaps back
  to the scheduler thread. Whoever ends the wait takes the fiber from its queue and calls
  \<^verbatim>\<open>melon_sched_ready\<close>, and a scheduler thread runs it again. All queues are intrusive
  circular lists through the fiber itself: the ready queue, the lock queue of a mutex, the
  wait queue of a condition and the two queues of a file descriptor share the members
  \<^verbatim>\<open>next\<close> and \<^verbatim>\<open>prev\<close>; the timer queue has its own. Semaphores, barriers,
  read-write locks and joining are built from mutexes and conditions. Two more kernel
  threads wait for epoll events and for the next timer.

  \<^bold>\<open>The theories\<close>, from the bottom up.
  \<^item> \<open>Melon_Prelude\<close>: pointers (0 is NULL), the faults that stop a run (a failed assertion, a
    NULL or dangling pointer, signed overflow, a loop that does not end), results, heaps,
    cyclic successors in a list, words.
  \<^item> \<open>Melon_List\<close>, \<open>Melon_DList\<close>: the macros of \<^verbatim>\<open>src/list.h\<close> and
    \<^verbatim>\<open>src/dlist.h\<close> for any link member. The locale \<open>fifo_queue\<close> is the contract of
    a queue; the locales \<open>list_member\<close> and \<open>dlist_member\<close> give it for any lawful member,
    and are interpreted on the members of a fiber and of a cached stack.
  \<^item> \<open>Melon_Spinlock\<close>: \<^verbatim>\<open>include/melon/spinlock.h\<close>, sequentially and as an
    interleaving of threads.
  \<^item> \<open>Melon_Stack\<close>: the stack cache, \<^verbatim>\<open>src/stack_alloc.c\<close>.
  \<^item> \<open>Melon_Types\<close>: the structs of \<^verbatim>\<open>src/private.h\<close> as records and the whole state as the
    record \<open>world\<close>, with a typed heap for each kind of object.
  \<^item> \<open>Melon_Queues\<close>, \<open>Melon_Spec\<close>: the representation \<open>rep w s\<close> of an abstract state \<open>s\<close>, in
    which every queue is a HOL list and the links are erased, and the effect of the list
    macros on it. A fiber is in at most one queue. \<open>Melon_Examples\<close>: concrete states.
  \<^item> \<open>Melon_Sched\<close>, \<open>Melon_Run\<close>: \<^verbatim>\<open>src/sched.c\<close>; \<open>Melon_Timer\<close>:
    \<^verbatim>\<open>src/timer_manager.c\<close>.
  \<^item> \<open>Melon_Refine\<close>: the calculus \<open>wp\<close> of total correctness in which the refinements are
    proved: one rule for each primitive, over the abstract state.
  \<^item> \<open>Melon_Mutex\<close>, \<open>Melon_Cond\<close> and their \<open>_Properties\<close>: \<^verbatim>\<open>src/mutex.c\<close> and
    \<^verbatim>\<open>src/cond.c\<close>, their abstract specifications (\<open>sp_lock\<close>, \<open>sp_unlock\<close>, ...), the
    refinements, the invariant \<open>mutexes_ok\<close>.
  \<^item> \<open>Melon_Monitor\<close>: what the users of a mutex and its conditions rely on. \<open>monitor s m\<close> is
    the state of a mutex that only guards its own data, \<open>room s m c\<close> that the fibers of the
    condition \<open>c\<close> wait with it, \<open>runs s\<close> that the current fiber may suspend; the steps
    lock-and-use, wait, broadcast-and-unlock are proved once. The locale \<open>client_data\<close> is
    the part of the state that a client owns, interpreted for barriers, read-write locks
    and semaphores.
  \<^item> \<open>Melon_Fiber\<close>, \<open>Melon_Barrier\<close>, \<open>Melon_Rwlock\<close>, \<open>Melon_Sem\<close>: the files of the same name,
    and their \<open>_Properties\<close> over the monitor.
  \<^item> \<open>Melon_Io\<close>: \<^verbatim>\<open>src/io_manager_epoll.c\<close> and \<^verbatim>\<open>src/io.c\<close>, and the dispatch of
    timer callbacks. \<open>Melon_Io_Properties\<close>: the locale \<open>drain\<close> is a loop that empties a
    queue of a descriptor, interpreted for the loop that answers an event and for the one
    that cancels. \<open>Melon_Kqueue\<close>: \<^verbatim>\<open>src/io_manager_kqueue.c\<close>, compared with epoll.
  \<^item> \<open>Melon_Expire\<close>: the loop of the timer manager over any callback that keeps the locale
    \<open>timer_callbacks\<close>, interpreted on the callbacks of mutex, condition, sleep and I/O.
  \<^item> \<open>Melon_Switch\<close>: a scheduler thread from one fiber to the next, and that a switch changes
    nothing a monitor looks at, so that steps of several fibers compose. The composition
    of scheduler, mutex and condition is the theorem of this theory.
  \<^item> \<open>Melon_System\<close>: any number of fibers on any number of scheduler threads that lock,
    unlock, wait and broadcast in any order. \<open>sys_step\<close> is one call of a running fiber, with
    the thread's return to the scheduler when it suspends, or a thread that takes the next
    ready fiber; \<open>legal\<close> are the rules a caller keeps (it unlocks what it has locked, and
    waits on a condition with its mutex), \<open>sys_inv\<close> the invariant that ties the books of who
    holds what to the state. \<open>Melon_System_Properties\<close>: what holds in every reachable state.
    \<open>Melon_Fifo\<close>: the abstract state is determined by the concrete one, and from it the
    order in which a mutex is passed on along a run.
  \<^item> \<open>Melon_Life\<close>: the life of a fiber from its creation to its destruction by the thread.
  \<^item> \<open>Melon_Stream\<close>: \<^verbatim>\<open>src/stream.c\<close>; \<open>Melon_Runtime\<close>: \<^verbatim>\<open>src/melon.c\<close> and the
    start and stop of the managers; \<open>Melon_Main\<close>: the \<^verbatim>\<open>main\<close> of the macro
    \<^verbatim>\<open>MELON_MAIN\<close> in \<^verbatim>\<open>include/melon/melon.h\<close>.
  \<^item> \<open>Melon_Samples\<close>: the programs of \<^verbatim>\<open>samples\<close> as clients of these definitions, the echo
    server and \<^verbatim>\<open>hello_world\<close>. A fiber of a sample is a function from one suspension to the
    next, and \<open>kernel\<close> holds what the system answers in between.
  \<^item> \<open>Melon_Shutdown\<close>: the loops of all kernel threads and \<^verbatim>\<open>melon_deinit\<close> beside them,
    as a step relation \<open>runtime_step\<close> in which a critical section of \<^verbatim>\<open>g_melon.lock\<close> is
    one step.
  \<^item> \<open>Melon_Ucontext\<close>: \<^verbatim>\<open>src/ucontext_win32.c\<close>, on 32 bit addresses.

  \<^bold>\<open>How calls are modelled.\<close> A function that cannot suspend returns a fault or its result
  and the new state. A function that can returns \<open>Returned\<close> or \<open>Suspended k\<close>, where \<open>k\<close> names
  the point in the function, and a second definition (\<open>..._resume\<close>) is the rest of the
  function from there. A variable on the stack of a suspended fiber that others write (the
  context of a timer callback) is kept in the fiber. Loops over linked memory are
  \<open>partial_function (option)\<close>, so that a loop that does not end is the value \<open>None\<close>, turned
  into the fault \<open>Diverges\<close>; every refinement proves that the loops end. No fuel is used.
  Assertions are modelled as enabled. \<^verbatim>\<open>g_melon.lock\<close> is recursive and is a counter.

  \<^bold>\<open>What is shown.\<close> Each operation of the lists, the scheduler, the timers, the mutex and
  the condition refines its specification on queues as HOL lists, on every branch, and keeps
  the invariants: queues are first-in first-out, the timer queue is sorted, a mutex passes
  to the fiber that waited longest, a wait releases its mutex and every woken fiber takes
  it back; a pass of the timer manager runs the callbacks of all fibers whose time has come
  and of no other. Two fibers that exchange a mutex through a condition run in turn across
  the scheduler, and the mutex is where it should be at each step. For any number of fibers
  and threads, in every reachable state: at most one fiber has a mutex, no call that keeps
  the rules fails, no fiber is lost, and with one mutex the fibers do not block each other;
  along any run nobody overtakes a fiber that waits for a mutex.
  Above them:
  \<^item> fibers: starting is atomic, a failure on any path leaves the state as it was; joining a
    finished fiber lets it go, joining one that has not finished does not; a fiber without a
    joiner leaves, when it ends, the fibers, queues and stacks that were there before;
  \<^item> barriers: the last arrival wakes all the others and restores the count;
  \<^item> read-write locks: readers and writers enter exactly when they may and wait otherwise;
    waiting readers are not woken, and a failed \<^verbatim>\<open>tryrdlock\<close> keeps the inner mutex;
  \<^item> semaphores: units are taken without wrap-around; two waiting fibers break the queues;
  \<^item> I/O: an event wakes exactly the fibers it should, closing wakes all, a timeout removes
    the fiber, a pass over many events wakes each fiber that is due once; kqueue waits as
    epoll does, but its events wake both directions and the changes it prepares are lost;
  \<^item> runtime and stacks: starting and stopping balance their resources on all paths, no stack
    is handed out twice, the cache is bounded;
  \<^item> the whole program: \<^verbatim>\<open>main\<close> starts the runtime, waits for its first fiber, stops the
    runtime and has then given back every resource; the stop never waits for a thread that
    sleeps for ever, and takes at most three steps for every scheduler thread and ten more;
  \<^item> samples: the fiber of a client of the echo server alternates between reading and writing
    with a new deadline each time, and closes its descriptor when a read ends it; the
    server survives every client, but spins when its own descriptor cannot be watched;
  \<^item> contexts: \<^verbatim>\<open>makecontext\<close> refuses arguments that do not fit and writes only to its stack.

  Where the code does not do what it means to, the theorem says what it does instead.

  \<^bold>\<open>Parameters.\<close> What \<^verbatim>\<open>malloc\<close>, \<^verbatim>\<open>mmap\<close>, the clock, \<^verbatim>\<open>epoll_ctl\<close> and the
  other system calls return is an argument of the definitions.

  \<^bold>\<open>Not modelled.\<close> The interleaving of kernel threads inside an operation, except for the
  spinlock: the operations are atomic, as they hold \<^verbatim>\<open>g_melon.lock\<close> or a spinlock while
  they change shared state, and a fiber that has been queued is not taken before its thread
  has swapped back, as the thread holds the fiber's own lock. The swap of contexts by the
  processor, the Windows stubs, the pthread macros, the tests and the
  documentation; the content of the buffers that are read and written.
\<close>

section \<open>Scheduler, mutex and condition together\<close>

text \<open>
  C13: The protocol of a monitor, across the scheduler. The fiber \<open>a\<close> holds the mutex and
  is ready; the running fiber asks for the mutex. It is suspended and the scheduler runs
  \<open>a\<close>; when \<open>a\<close> waits on the condition, the scheduler runs the fiber that asked, now with
  the mutex; when that one broadcasts and unlocks, \<open>a\<close> has the mutex again and is the next
  to run, and nobody waits any more.
\<close>

theorem monitor_protocol:
  assumes r: "rep w s" and h: "contended s m c a"
  shows "\<exists>w1 w2 w3 w4 n w5 w6 s6.
    melon_mutex_lock m w = Inr (Suspended (), w1) \<and> melon_sched_run_turn w1 = Inr (Sched_runs, w2) \<and> g_current_fiber w2 = a \<and>
    melon_cond_wait c m w2 = Inr (Suspended (), w3) \<and> melon_sched_run_turn w3 = Inr (Sched_runs, w4) \<and> g_current_fiber w4 = g_current_fiber w \<and>
    melon_cond_broadcast c w4 = Inr (n, w5) \<and> melon_mutex_unlock m w5 = Inr w6 \<and> rep w6 s6 \<and> monitor s6 m \<and>
    owner s6 m = a \<and> sp_queues s6 Q_ready = [a] \<and> sp_queues s6 (Q_lock m) = [] \<and> sp_queues s6 (Q_wait c) = []"
proof -
  have b: "\<not> timed s (sp_self s)" "sp_queues s (Q_wait c) = []" using h by (auto simp: contended_def runs_def)
  obtain w1 w2 s2 where w2: "melon_mutex_lock m w = Inr (Suspended (), w1)" "melon_sched_run_turn w1 = Inr (Sched_runs, w2)" "rep w2 s2"
    and m2: "monitor s2 m" "room s2 m c" "held s2 m" "runs s2" "sp_self s2 = a" "\<not> stopping s2"
      "sp_queues s2 = (sp_queues s)(Q_lock m := [sp_self s], Q_ready := [])" "sp_timers s2 = sp_timers s"
      "threads s2 a = Some (Sched_cb_none, 1)" "threads s2 (sp_self s) = Some (Sched_cb_none, 0)"
    by (rule contended_lock [OF r h])
  obtain w3 w4 s4 where w4: "melon_cond_wait c m w2 = Inr (Suspended (), w3)" "melon_sched_run_turn w3 = Inr (Sched_runs, w4)" "rep w4 s4"
    and m4: "monitor s4 m" "room s4 m c" "held s4 m" "runs s4" "sp_self s4 = sp_self s"
      "sp_queues s4 = (sp_queues s2)(Q_wait c := sp_queues s2 (Q_wait c) @ [sp_self s2], Q_lock m := [])"
    by (rule contended_wait [OF w2(3) m2(1,3,4,2), of "sp_self s"]) (use m2 b in \<open>auto simp: timed_def\<close>)
  let ?s5 = "sp_broadcast c s4"
  note m5 = monitor_broadcast [OF w4(3) m4(1,3,4,2)]
  obtain n w5 w6 where w6: "melon_cond_broadcast c w4 = Inr (n, w5)" "rep w5 ?s5" "melon_mutex_unlock m w5 = Inr w6" "rep w6 (sp_unlock m ?s5)"
    by (rule broadcast_unlock [OF w4(3) m4(1,3,4,2)])
  note m6 = monitor_unlock [OF w6(2) m5(1-3)]
  have q5: "sp_queues ?s5 = (sp_queues s)(Q_wait c := [], Q_lock m := [a], Q_ready := [])"
    using m5(5) m4(6) m2(5,7) b(2) by auto
  have "owner (sp_unlock m ?s5) m = a" "sp_queues (sp_unlock m ?s5) = (sp_queues s)(Q_wait c := [], Q_lock m := [], Q_ready := [a])"
    using m6(4,7) q5 by auto
  moreover have "g_current_fiber w2 = a" "g_current_fiber w4 = g_current_fiber w"
    using rep_current [OF w2(3)] rep_current [OF w4(3)] rep_current [OF r] m2(5) m4(5) by simp_all
  ultimately show ?thesis using w2(1,2) w4(1,2) w6(1,3,4) m6(1)
    by (intro exI [of _ w1] exI [of _ w2] exI [of _ w3] exI [of _ w4] exI [of _ n] exI [of _ w5] exI [of _ w6] exI [of _ "sp_unlock m ?s5"]) simp
qed

text \<open>Fiber 1 holds the mutex 10 and is ready; fiber 2 runs.\<close>

definition ex_switch :: spec where
  "ex_switch = sp_ready 1 (sp_mod_fiber 2 (\<lambda>f. f\<lparr>f_lock := 1\<rparr>) (sp_current 2 ex_held))"

lemma rep_ex_switch: "\<exists>w. rep w ex_switch"
proof -
  let ?s = "sp_mod_fiber 2 (\<lambda>f. f\<lparr>f_lock := 1\<rparr>) (sp_current 2 ex_held)"
  obtain v where v: "rep v (sp_current 2 ex_held)" using rep_ex_held rep_current_upd by blast
  have "wp (mod_fiber 2 (\<lambda>f. f\<lparr>f_lock := 1\<rparr>) v) (\<lambda>w. rep w ?s)" by (rule wp_mod_fiber [OF v]) (simp_all add: core_def)
  then obtain u where u: "rep u ?s" by (auto simp: wp_def)
  have "idle ?s 1" by (simp add: idle_def)
  then show ?thesis using sched_ready_refines [OF u] by (auto simp: ex_switch_def)
qed

lemma ex_switch_contended: "contended ex_switch 10 20 1"
proof -
  have "mutexes_ok ex_switch" using ex_ok(2) by (simp add: ex_switch_def mutexes_ok_def)
  moreover have "g_stop (g_melon (sp_world ex_switch)) = 0"
    using ex_stop by (simp add: ex_switch_def ex_held_def sp_ready_def stop_kept sp_current_def sp_defs)
  ultimately show ?thesis
    by (simp add: contended_def monitor_def room_def runs_def owner_def lockers_timed_def threads_def thread_of_def idle_def timed_def
        ex_switch_def a_fiber_def ex_mutexes)
qed

theorem monitor_protocol_witness:
  "\<exists>w w1 w2. rep w ex_switch \<and> melon_mutex_lock 10 w = Inr (Suspended (), w1) \<and> melon_sched_run_turn w1 = Inr (Sched_runs, w2) \<and> g_current_fiber w2 = 1"
proof -
  obtain w where w: "rep w ex_switch" using rep_ex_switch ..
  from monitor_protocol [OF w ex_switch_contended] w show ?thesis by blast
qed

end
